(* ===== verification/Prelude.thy ===== *)
theory Prelude
  imports "HOL-Library.Word" "HOL-Library.Multiset"
begin

text \<open>
  Shared vocabulary of the development: machine integer types, the errno values the
  kernel modules return, the fault type that stands for a kernel crash, the bitmap
  operations on one machine word, big-endian reads of byte strings, and the generic
  lemmas on lists and words that the component theories use.
\<close>

unbundle bit_operations_syntax

named_theorems access_defs \<open>how the stores of sockets and connections are read and written\<close>

named_theorems inv_defs \<open>the parts of the scheduler invariant\<close>

section \<open>Machine integers\<close>

type_synonym u8 = "8 word"
type_synonym u16 = "16 word"
type_synonym u32 = "32 word"
type_synonym u64 = "64 word"
type_synonym bytes = "8 word list"

section \<open>Error numbers\<close>

text \<open>The errno values of the Linux ABI that occur in the sources.\<close>

abbreviation (input) ENOENT :: int where "ENOENT \<equiv> 2"
abbreviation (input) EAGAIN :: int where "EAGAIN \<equiv> 11"
abbreviation (input) ENOMEM :: int where "ENOMEM \<equiv> 12"
abbreviation (input) EFAULT :: int where "EFAULT \<equiv> 14"
abbreviation (input) EBUSY :: int where "EBUSY \<equiv> 16"
abbreviation (input) EINVAL :: int where "EINVAL \<equiv> 22"
abbreviation (input) EPIPE :: int where "EPIPE \<equiv> 32"
abbreviation (input) ENODATA :: int where "ENODATA \<equiv> 61"
abbreviation (input) EPROTO :: int where "EPROTO \<equiv> 71"
abbreviation (input) ESTRPIPE :: int where "ESTRPIPE \<equiv> 86"
abbreviation (input) EMSGSIZE :: int where "EMSGSIZE \<equiv> 90"
abbreviation (input) ENOPROTOOPT :: int where "ENOPROTOOPT \<equiv> 92"
abbreviation (input) EPROTONOSUPPORT :: int where "EPROTONOSUPPORT \<equiv> 93"
abbreviation (input) ESOCKTNOSUPPORT :: int where "ESOCKTNOSUPPORT \<equiv> 94"
abbreviation (input) EOPNOTSUPP :: int where "EOPNOTSUPP \<equiv> 95"
abbreviation (input) ENOBUFS :: int where "ENOBUFS \<equiv> 105"
abbreviation (input) ETIMEDOUT :: int where "ETIMEDOUT \<equiv> 110"
abbreviation (input) EALREADY :: int where "EALREADY \<equiv> 114"
abbreviation (input) ENOIOCTLCMD :: int where "ENOIOCTLCMD \<equiv> 515"

abbreviation (input) INT_MAX :: int where "INT_MAX \<equiv> 2147483647"

section \<open>Faults\<close>

text \<open>
  A kernel function that follows a NULL pointer, follows a pointer to freed memory,
  leaves an array or divides by zero does not return. Such an outcome is a value of
  this type, on the left of a sum.
\<close>

datatype fault = NullDeref | UseAfterFree | OutOfBounds | DivByZero

section \<open>Bitmaps\<close>

text \<open>
  \<open>DECLARE_BITMAP(name, 20)\<close> is one \<open>unsigned long\<close>; \<open>set_bit\<close> and
  \<open>clear_bit\<close> are the word operations of the library, \<open>test_bit\<close> is \<open>bit\<close>.
\<close>

type_synonym bitmap = "64 word"

definition set_bits :: "bitmap \<Rightarrow> nat list" where
  "set_bits m = filter (bit m) [0..<64]"

definition hweight_long :: "bitmap \<Rightarrow> nat" where
  "hweight_long m = length (set_bits m)"

lemma bit_bitmap_less: "bit (m :: bitmap) i \<Longrightarrow> i < 64"
  using bit_imp_le_length [of m i] by simp

lemma set_set_bits [simp]: "set (set_bits m) = {i. bit m i}"
  by (auto simp: set_bits_def dest: bit_bitmap_less)

lemma distinct_set_bits [simp]: "distinct (set_bits m)"
  by (simp add: set_bits_def)

lemma bitmap_zero_iff: "m = 0 \<longleftrightarrow> (\<forall>i < 64. \<not> bit (m :: bitmap) i)"
  by (auto simp: bit_eq_iff dest: bit_bitmap_less)

lemma hweight_zero_iff [simp]: "hweight_long m = 0 \<longleftrightarrow> m = 0"
proof -
  have "hweight_long m = 0 \<longleftrightarrow> set (set_bits m) = {}"
    unfolding hweight_long_def by (simp only: length_0_conv set_empty)
  also have "\<dots> \<longleftrightarrow> m = 0"
    by (auto simp: bit_eq_iff dest: bit_bitmap_less)
  finally show ?thesis .
qed

lemma hweight_pos: "m \<noteq> 0 \<Longrightarrow> 0 < hweight_long m"
  using hweight_zero_iff [of m] by (metis gr0I)

lemma bit_set_bit_bitmap [simp]:
  "n < 64 \<Longrightarrow> bit (set_bit n (m :: bitmap)) i \<longleftrightarrow> i = n \<or> bit m i"
  by (auto simp: bit_simps)

lemma bit_unset_bit_bitmap [simp]:
  "bit (unset_bit n (m :: bitmap)) i \<longleftrightarrow> bit m i \<and> i \<noteq> n"
  by (auto simp: bit_simps)

section \<open>Byte strings\<close>

text \<open>Big-endian reads, as \<open>be16_to_cpu\<close> and \<open>be32_to_cpu\<close> give them.\<close>

definition be16 :: "u8 \<Rightarrow> u8 \<Rightarrow> u16" where
  "be16 a b = word_of_nat (unat a * 2 ^ 8 + unat b)"

definition be32 :: "u8 \<Rightarrow> u8 \<Rightarrow> u8 \<Rightarrow> u8 \<Rightarrow> u32" where
  "be32 a b c d = word_of_nat (unat a * 2 ^ 24 + unat b * 2 ^ 16 + unat c * 2 ^ 8 + unat d)"

lemma unat_u8_bound: "unat (x :: u8) < 256" "unat (x :: u8) \<le> 255"
  using unsigned_less [where 'a = nat and w = x] by simp_all

lemma unat_be16: "unat (be16 a b) = unat a * 256 + unat b"
  using unat_u8_bound(1) [of a] unat_u8_bound(1) [of b]
  unfolding be16_def unat_of_nat by simp

lemma unat_be32:
  "unat (be32 a b c d) = unat a * 2 ^ 24 + unat b * 2 ^ 16 + unat c * 2 ^ 8 + unat d"
proof -
  have "unat a * 2 ^ 24 + unat b * 2 ^ 16 + unat c * 2 ^ 8 + unat d < 2 ^ 32"
    using unat_u8_bound(1) [of a] unat_u8_bound(1) [of b] unat_u8_bound(1) [of c]
      unat_u8_bound(1) [of d] by simp
  then show ?thesis
    unfolding be32_def unat_of_nat by simp
qed

section \<open>Lists\<close>

lemma take_drop_append [simp]:
  "take (length xs) (drop n (ys @ zs)) = take (length xs) (drop n ys @ drop (n - length ys) zs)"
  by simp

lemma nth_take_hdr: "i < n \<Longrightarrow> take n xs ! i = xs ! i"
  by simp

lemma sum_list_update_nat:
  "i < length xs \<Longrightarrow> sum_list (xs[i := (v :: nat)]) + xs ! i = sum_list xs + v"
  by (induction xs arbitrary: i) (auto split: nat.splits)

end
