(* ===== verification/Skbuff.thy ===== *)
theory Skbuff
  imports Prelude
begin

text \<open>
  Socket buffers. A \<open>struct sk_buff\<close> is a record: \<open>sb_bytes\<close> is the byte string the
  buffer denotes (linear part, page fragments and \<open>frag_list\<close> in order), \<open>sb_len\<close>,
  \<open>sb_data_len\<close> and \<open>sb_truesize\<close> are the accounting fields the code updates by
  hand, and the remaining fields are the control block \<open>skb->cb\<close>, laid out by
  \<open>struct sk_skb_cb\<close>. The scheme variable of the record carries the extra control
  block fields of the gRPC variant.
\<close>

section \<open>The control block\<close>

text \<open>
  The first bytes of \<open>cb\<close> are a scratch slot: the stream parser stores the message
  offset there as an \<open>int\<close>, the scheduler later overwrites it with the psock pointer.
\<close>

datatype cb_slot = CbRaw | CbOffset int | CbPsock nat

record sk_buff =
  sb_bytes :: bytes
  sb_len :: int
  sb_data_len :: int
  sb_truesize :: int
  sb_frag_list :: bool
  sb_next :: bool
  sb_cb0 :: cb_slot
  sb_full_len :: int
  sb_offset :: int
  sb_accum_len :: int

definition skb_view :: "('a) sk_buff_scheme \<Rightarrow> bytes" where
  "skb_view h = drop (nat (sb_offset h)) (sb_bytes h)"

definition msg_bytes :: "('a) sk_buff_scheme \<Rightarrow> bytes" where
  "msg_bytes h = take (nat (sb_full_len h)) (skb_view h)"

definition skb_header_pointer :: "('a) sk_buff_scheme \<Rightarrow> int \<Rightarrow> nat \<Rightarrow> bytes option" where
  "skb_header_pointer h off n =
     (if 0 \<le> off \<and> nat off + n \<le> length (sb_bytes h)
      then Some (take n (drop (nat off) (sb_bytes h))) else None)"

lemma skb_view_offset_update [simp]:
  "skb_view (h\<lparr>sb_offset := o'\<rparr>) = drop (nat o') (sb_bytes h)"
  by (simp add: skb_view_def)

lemma skb_view_frame [simp]:
  "skb_view (h\<lparr>sb_full_len := f\<rparr>) = skb_view h"
  "skb_view (h\<lparr>sb_accum_len := a\<rparr>) = skb_view h"
  "skb_view (h\<lparr>sb_cb0 := c\<rparr>) = skb_view h"
  "skb_view (h\<lparr>sb_len := l\<rparr>) = skb_view h"
  "skb_view (h\<lparr>sb_data_len := d\<rparr>) = skb_view h"
  "skb_view (h\<lparr>sb_truesize := t\<rparr>) = skb_view h"
  "skb_view (h\<lparr>sb_frag_list := b\<rparr>) = skb_view h"
  by (simp_all add: skb_view_def)

section \<open>Buffer queues\<close>

text \<open>
  \<open>struct sk_buff_head\<close> is a list with its head first; \<open>__skb_dequeue\<close> takes the head,
  \<open>__skb_queue_tail\<close> appends, \<open>qlen\<close> is the length.
\<close>

fun skb_dequeue :: "'b list \<Rightarrow> 'b option \<times> 'b list" where
  "skb_dequeue [] = (None, [])"
| "skb_dequeue (x # xs) = (Some x, xs)"

definition skb_queue_tail :: "'b list \<Rightarrow> 'b \<Rightarrow> 'b list" where
  "skb_queue_tail q x = q @ [x]"

lemma length_skb_queue_tail [simp]: "length (skb_queue_tail q x) = Suc (length q)"
  by (simp add: skb_queue_tail_def)

lemma skb_queue_tail_nonempty [simp]: "skb_queue_tail q x \<noteq> []"
  by (simp add: skb_queue_tail_def)

lemma skb_dequeue_None [simp]: "fst (skb_dequeue q) = None \<longleftrightarrow> q = []"
  by (cases q) auto

end
