(* ===== verification/Tcp_Send.thy ===== *)
theory Tcp_Send
  imports Skbuff
begin

text \<open>
  \<open>rakaia/plain-tcp/tcp_send.c\<close>: the copies of kernel-internal TCP transmit helpers that
  the module carries because the kernel does not export them. \<open>tcp_sock\<close> holds the fields
  of the lower \<open>struct sock\<close> and \<open>struct tcp_sock\<close> these functions read or write, and
  \<open>tx_skb\<close> an outgoing buffer with its TCP control block. Everything the functions call
  in the kernel proper is a field of \<open>tcp_kernel\<close>.
\<close>

section \<open>Constants of the socket interface\<close>

abbreviation (input) MSG_OOB :: u32 where "MSG_OOB \<equiv> 0x1"
abbreviation (input) MSG_PEEK :: u32 where "MSG_PEEK \<equiv> 0x2"
abbreviation (input) MSG_TRUNC :: u32 where "MSG_TRUNC \<equiv> 0x20"
abbreviation (input) MSG_DONTWAIT :: u32 where "MSG_DONTWAIT \<equiv> 0x40"
abbreviation (input) MSG_EOR :: u32 where "MSG_EOR \<equiv> 0x80"
abbreviation (input) MSG_MORE :: u32 where "MSG_MORE \<equiv> 0x8000"

abbreviation (input) TCP_NAGLE_CORK :: u8 where "TCP_NAGLE_CORK \<equiv> 2"
abbreviation (input) TCP_NAGLE_PUSH :: u8 where "TCP_NAGLE_PUSH \<equiv> 4"
abbreviation (input) TCPHDR_PSH :: u8 where "TCPHDR_PSH \<equiv> 0x08"
abbreviation (input) TCPHDR_ACK :: u8 where "TCPHDR_ACK \<equiv> 0x10"

abbreviation (input) SOF_TIMESTAMPING_TX_ACK :: u16 where "SOF_TIMESTAMPING_TX_ACK \<equiv> 0x200"
abbreviation (input) SOF_TIMESTAMPING_TX_RECORD_MASK :: u16 where
  "SOF_TIMESTAMPING_TX_RECORD_MASK \<equiv> 0x303"

definition has_flag :: "u32 \<Rightarrow> u32 \<Rightarrow> bool" where
  "has_flag flags f \<longleftrightarrow> flags AND f \<noteq> 0"

section \<open>State\<close>

record tx_skb =
  tx_data :: bytes
  tx_truesize :: int
  tx_seq :: u32
  tx_end_seq :: u32
  tx_tcp_flags :: u8
  tx_frags :: "(nat \<times> nat \<times> nat) list"
  tx_reserved :: bool
  tx_tx_flags :: u8
  tx_txstamp_ack :: bool
  tx_tskey :: u32

record tcp_sock =
  ts_write_queue :: "tx_skb list"
  ts_write_seq :: u32
  ts_pushed_seq :: u32
  ts_max_window :: u32
  ts_snd_up :: u32
  ts_nonagle :: u8
  ts_gso_segs :: u16
  ts_gso_max_size :: u32
  ts_gso_max_segs :: u16
  ts_state :: nat
  ts_err :: int
  ts_send_shutdown :: bool
  ts_wmem_queued :: int
  ts_mem_charged :: int
  ts_forward_alloc :: int
  ts_nospace :: bool

record tcp_kernel =
  tk_current_mss :: "tcp_sock \<Rightarrow> u32"
  tk_bound_to_half_wnd :: "tcp_sock \<Rightarrow> u32 \<Rightarrow> u32"
  tk_wmem_schedule :: "tcp_sock \<Rightarrow> int \<Rightarrow> bool"
  tk_forced_mem_schedule :: "int \<Rightarrow> tcp_sock \<Rightarrow> tcp_sock"
  tk_sysctl_wmem0 :: int
  tk_alloc_skb :: "tcp_sock \<Rightarrow> tx_skb option"
  tk_memory_pressure :: "tcp_sock \<Rightarrow> tcp_sock"
  tk_mark_push :: "tcp_sock \<Rightarrow> tx_skb \<Rightarrow> tcp_sock \<times> tx_skb"
  tk_push_pending :: "int \<Rightarrow> u8 \<Rightarrow> tcp_sock \<Rightarrow> tcp_sock"
  tk_sock_tx_flags :: "u16 \<Rightarrow> u8 \<Rightarrow> u8"
  tk_chrono_stop :: "tcp_sock \<Rightarrow> tcp_sock"
  tk_rate_check :: "tcp_sock \<Rightarrow> tcp_sock"
  tk_passive_fastopen :: "tcp_sock \<Rightarrow> bool"
  tk_wait_connect :: "tcp_sock \<Rightarrow> int"
  tk_flush_backlog :: "tcp_sock \<Rightarrow> tcp_sock"
  tk_rtx_queue_empty :: "tcp_sock \<Rightarrow> bool"
  tk_sysctl_autocorking :: bool
  tk_wmem_alloc :: "tcp_sock \<Rightarrow> int"
  tk_can_collapse_to :: "tx_skb \<Rightarrow> bool"

definition tcp_write_queue_tail :: "tcp_sock \<Rightarrow> tx_skb option" where
  "tcp_write_queue_tail tp = (if ts_write_queue tp = [] then None else Some (last (ts_write_queue tp)))"

definition set_write_queue_tail :: "tx_skb \<Rightarrow> tcp_sock \<Rightarrow> tcp_sock" where
  "set_write_queue_tail skb tp = tp\<lparr>ts_write_queue := butlast (ts_write_queue tp) @ [skb]\<rparr>"

section \<open>Operations\<close>

definition tcp_tx_timestamp :: "tcp_kernel \<Rightarrow> u16 \<Rightarrow> tcp_sock \<Rightarrow> tcp_sock" where
  "tcp_tx_timestamp K tsflags tp =
     (case tcp_write_queue_tail tp of
        None \<Rightarrow> tp
      | Some skb \<Rightarrow>
          if tsflags = 0 then tp
          else
            (let skb1 = skb\<lparr>tx_tx_flags := tk_sock_tx_flags K tsflags (tx_tx_flags skb)\<rparr>;
                 skb2 = (if tsflags AND SOF_TIMESTAMPING_TX_ACK \<noteq> 0
                         then skb1\<lparr>tx_txstamp_ack := True\<rparr> else skb1);
                 skb3 = (if tsflags AND SOF_TIMESTAMPING_TX_RECORD_MASK \<noteq> 0
                         then skb2\<lparr>tx_tskey := tx_seq skb2 + word_of_nat (length (tx_data skb2)) - 1\<rparr>
                         else skb2)
             in set_write_queue_tail skb3 tp))"

definition tcp_wmem_schedule :: "tcp_kernel \<Rightarrow> int \<Rightarrow> tcp_sock \<Rightarrow> int \<times> tcp_sock" where
  "tcp_wmem_schedule K copy tp =
     (if tk_wmem_schedule K tp copy then (copy, tp)
      else
        (let left = tk_sysctl_wmem0 K - ts_wmem_queued tp;
             tp1 = (if left > 0 then tk_forced_mem_schedule K (min left copy) tp else tp)
         in (min copy (ts_forward_alloc tp1), tp1)))"

text \<open>
  All quantities are \<open>u32\<close>; \<open>min_t(u16, ..)\<close> first casts both arguments to 16 bits.
\<close>

definition tcp_xmit_size_goal ::
  "tcp_kernel \<Rightarrow> u32 \<Rightarrow> bool \<Rightarrow> tcp_sock \<Rightarrow> fault + u32 \<times> tcp_sock" where
  "tcp_xmit_size_goal K mss_now large_allowed tp =
     (if \<not> large_allowed then Inr (mss_now, tp)
      else
        (let new_size_goal = tk_bound_to_half_wnd K tp (ts_gso_max_size tp);
             size_goal = ucast (ts_gso_segs tp) * mss_now
         in if new_size_goal < size_goal \<or> new_size_goal \<ge> size_goal + mss_now
            then (if mss_now = 0 then Inl DivByZero
                  else
                    (let segs = min (ucast (new_size_goal div mss_now)) (ts_gso_max_segs tp);
                         tp1 = tp\<lparr>ts_gso_segs := segs\<rparr>
                     in Inr (max (ucast segs * mss_now) mss_now, tp1)))
            else Inr (max size_goal mss_now, tp)))"

definition tcp_send_mss :: "tcp_kernel \<Rightarrow> u32 \<Rightarrow> tcp_sock \<Rightarrow> fault + int \<times> int \<times> tcp_sock" where
  "tcp_send_mss K flags tp =
     (let mss_now = tk_current_mss K tp
      in map_sum id (\<lambda>(g, tp1). (sint mss_now, sint g, tp1))
           (tcp_xmit_size_goal K mss_now (\<not> has_flag flags MSG_OOB) tp))"

definition tcp_stream_alloc_skb ::
  "tcp_kernel \<Rightarrow> bool \<Rightarrow> tcp_sock \<Rightarrow> tx_skb option \<times> tcp_sock" where
  "tcp_stream_alloc_skb K force_schedule tp =
     (case tk_alloc_skb K tp of
        None \<Rightarrow> (None, tk_memory_pressure K tp)
      | Some skb \<Rightarrow>
          if force_schedule
          then (Some (skb\<lparr>tx_reserved := True\<rparr>), tk_forced_mem_schedule K (tx_truesize skb) tp)
          else if tk_wmem_schedule K tp (tx_truesize skb)
          then (Some (skb\<lparr>tx_reserved := True\<rparr>), tp)
          else (None, tp))"

text \<open>\<open>after(a, b)\<close> of the kernel compares sequence numbers modulo \<open>2\<^sup>3\<^sup>2\<close>.\<close>

definition seq_after :: "u32 \<Rightarrow> u32 \<Rightarrow> bool" where
  "seq_after a b \<longleftrightarrow> sint (b - a) < 0"

definition forced_push :: "tcp_sock \<Rightarrow> bool" where
  "forced_push tp = seq_after (ts_write_seq tp) (ts_pushed_seq tp + drop_bit 1 (ts_max_window tp))"

definition tcp_mark_urg :: "u32 \<Rightarrow> tcp_sock \<Rightarrow> tcp_sock" where
  "tcp_mark_urg flags tp = (if has_flag flags MSG_OOB then tp\<lparr>ts_snd_up := ts_write_seq tp\<rparr> else tp)"

definition tcp_should_autocork :: "tcp_kernel \<Rightarrow> tx_skb \<Rightarrow> int \<Rightarrow> tcp_sock \<Rightarrow> bool" where
  "tcp_should_autocork K skb size_goal tp \<longleftrightarrow>
     int (length (tx_data skb)) < size_goal \<and> tk_sysctl_autocorking K \<and>
     \<not> tk_rtx_queue_empty K tp \<and> tk_wmem_alloc K tp > tx_truesize skb \<and> tk_can_collapse_to K skb"

definition tcp_push :: "tcp_kernel \<Rightarrow> u32 \<Rightarrow> int \<Rightarrow> u8 \<Rightarrow> tcp_sock \<Rightarrow> tcp_sock" where
  "tcp_push K flags mss_now nonagle tp =
     (case tcp_write_queue_tail tp of
        None \<Rightarrow> tp
      | Some skb \<Rightarrow>
          (let tp1 = (if \<not> has_flag flags MSG_MORE \<or> forced_push tp
                      then (case tk_mark_push K tp skb of (tp', skb') \<Rightarrow> set_write_queue_tail skb' tp')
                      else tp);
               tp2 = tcp_mark_urg flags tp1
           in tk_push_pending K mss_now (if has_flag flags MSG_MORE then TCP_NAGLE_CORK else nonagle) tp2))"

text \<open>
  \<open>tcp_wmem_free_skb\<close> gives the buffer's memory back: it lowers the queued amount and the
  charge by the true size.
\<close>

definition tcp_remove_empty_skb :: "tcp_kernel \<Rightarrow> tcp_sock \<Rightarrow> tcp_sock" where
  "tcp_remove_empty_skb K tp =
     (case tcp_write_queue_tail tp of
        None \<Rightarrow> tp
      | Some skb \<Rightarrow>
          if tx_seq skb = tx_end_seq skb
          then (let tp1 = tp\<lparr>ts_write_queue := butlast (ts_write_queue tp)\<rparr>;
                    tp2 = (if ts_write_queue tp1 = [] then tk_chrono_stop K tp1 else tp1)
                in tp2\<lparr>ts_wmem_queued := ts_wmem_queued tp2 - tx_truesize skb,
                       ts_mem_charged := ts_mem_charged tp2 - tx_truesize skb\<rparr>)
          else tp)"

text \<open>
  \<open>TCPF_ESTABLISHED\<close> and \<open>TCPF_CLOSE_WAIT\<close> are the states 1 and 8. The cookie
  \<open>sockc\<close> is never initialised; its \<open>tsflags\<close> are an argument.
\<close>

definition tcp_send :: "tcp_kernel \<Rightarrow> u16 \<Rightarrow> u32 \<Rightarrow> tcp_sock \<Rightarrow> fault + int \<times> tcp_sock" where
  "tcp_send K junk_tsflags mflags tp =
     (let tp1 = tk_rate_check K tp;
          err = (if ts_state tp1 \<noteq> 1 \<and> ts_state tp1 \<noteq> 8 \<and> \<not> tk_passive_fastopen K tp1
                 then tk_wait_connect K tp1 else 0)
      in if err \<noteq> 0 then Inr (err, tp1)
         else
           (case tcp_send_mss K mflags (tp1\<lparr>ts_nospace := False\<rparr>) of
              Inl f \<Rightarrow> Inl f
            | Inr (mss_now, size_goal, tp2) \<Rightarrow>
                if ts_err tp2 \<noteq> 0 \<or> ts_send_shutdown tp2 then Inr (- EPIPE, tp2)
                else
                  (let tp3 = tcp_tx_timestamp K junk_tsflags (tk_flush_backlog K tp2)
                   in Inr (0, tcp_push K mflags mss_now (ts_nonagle tp3) tp3))))"

section \<open>The segment size goal\<close>

lemma ucast_u16_u32: "unat (ucast (x :: u16) :: u32) = unat x"
  using unsigned_less [of x, where 'a = nat] by (simp add: unsigned_ucast_eq take_bit_nat_eq_self)

lemma unat_u16_bound: "unat (x :: u16) < 65536"
  using unsigned_less [of x, where 'a = nat] by simp

text \<open>A segment count times a segment size below 64 KiB does not wrap.\<close>

lemma segs_times_mss:
  assumes "unat mss < 65536"
  shows "unat (ucast (x :: u16) * mss :: u32) = unat x * unat mss"
proof -
  have "unat x * unat mss \<le> 65535 * 65535"
    using assms unat_u16_bound [of x] by (intro mult_le_mono) auto
  then show ?thesis by (simp add: unat_word_ariths ucast_u16_u32)
qed

lemma unat_ucast_le: "unat (ucast (x :: u32) :: u16) \<le> unat x"
  by (simp add: unsigned_ucast_eq)

lemma size_goal_of_new:
  fixes mss new :: u32
  assumes "unat mss < 65536" "segs \<le> ucast (new div mss)"
  shows "ucast (segs :: u16) * mss \<le> new"
proof -
  have "unat segs \<le> unat new div unat mss"
    using assms(2) unat_ucast_le [of "new div mss"] by (simp add: word_le_nat_alt unat_div)
  then have "unat segs * unat mss \<le> unat new"
    by (metis div_times_less_eq_dividend le_trans mult_le_mono1)
  then show ?thesis using segs_times_mss [OF assms(1)] by (simp add: word_le_nat_alt)
qed

lemma xmit_size_goal_cases:
  assumes "tcp_xmit_size_goal K mss True tp = Inr (g, tp')"
  shows "g = max (ucast (ts_gso_segs tp') * mss) mss"
    and "ucast (ts_gso_segs tp') * mss \<le> tk_bound_to_half_wnd K tp (ts_gso_max_size tp) \<or>
         unat mss \<ge> 65536"
proof -
  show "g = max (ucast (ts_gso_segs tp') * mss) mss"
    using assms by (auto simp: tcp_xmit_size_goal_def Let_def split: if_splits)
  show "ucast (ts_gso_segs tp') * mss \<le> tk_bound_to_half_wnd K tp (ts_gso_max_size tp) \<or>
         unat mss \<ge> 65536"
    using assms size_goal_of_new [of mss _ "tk_bound_to_half_wnd K tp (ts_gso_max_size tp)"]
    by (auto simp: tcp_xmit_size_goal_def Let_def not_le not_less split: if_splits)
qed

end
