(* ===== verification/Strparser.thy ===== *)
theory Strparser
  imports Skbuff
begin

text \<open>
  The stream parser of \<open>rakaia/plain-tcp/strparser.c\<close> and \<open>strparser.h\<close>. It cuts the
  byte stream of a TCP socket into messages. The parser is generic in the hooks that
  differ between the module variants (how the length of a message is read off its head
  buffer and who receives a complete message), so the gRPC variant reuses it.

  Kernel functions that are not part of the repository are the fields of
  \<open>strp_kernel\<close>: what \<open>skb_clone\<close>, \<open>pskb_pull\<close>, \<open>skb_unclone\<close>,
  \<open>alloc_skb_for_msg\<close> and the socket's \<open>peek_len\<close> answer during one call.
\<close>

section \<open>State\<close>

record strp_stats =
  ss_msgs :: u64
  ss_bytes :: u64
  ss_mem_fail :: u32
  ss_need_more_hdr :: u32
  ss_msg_too_big :: u32
  ss_msg_timeouts :: u32
  ss_bad_hdr_len :: u32

record strp_aggr_stats = strp_stats +
  ss_aborts :: u32
  ss_interrupted :: u32
  ss_unrecov_intr :: u32

text \<open>The fields of the lower (TCP) socket that the parser reads and writes.\<close>

record lower_sock =
  ls_err :: int
  ls_reports :: nat
  ls_rcvbuf :: int
  ls_rcvtimeo :: int

text \<open>
  \<open>skb_nextp\<close> is either NULL or the address of the NULL pointer that ends the
  \<open>frag_list\<close> of the current head; the record keeps which of the two. \<open>sp_timer\<close> is
  the pending timeout of \<open>msg_timer_work\<close>, \<open>sp_work\<close> whether \<open>work\<close> is queued.
\<close>

record 'a strparser =
  sp_sk :: "lower_sock option"
  sp_stopped :: bool
  sp_paused :: bool
  sp_aborted :: bool
  sp_interrupted :: bool
  sp_unrecov_intr :: bool
  sp_nextp :: bool
  sp_head :: "'a sk_buff_scheme option"
  sp_need_bytes :: int
  sp_timer :: "int option"
  sp_work :: bool
  sp_stats :: strp_stats

record ('a, 'u) rx =
  rx_strp :: "'a strparser"
  rx_error :: int
  rx_count :: nat
  rx_up :: 'u

record 'a strp_kernel =
  k_clone_orig :: "'a sk_buff_scheme \<Rightarrow> 'a sk_buff_scheme option"
  k_pull :: "'a sk_buff_scheme \<Rightarrow> nat \<Rightarrow> 'a sk_buff_scheme option"
  k_unclone_head :: "'a sk_buff_scheme \<Rightarrow> int"
  k_alloc_for_msg :: "'a sk_buff_scheme \<Rightarrow> 'a sk_buff_scheme option"
  k_clone :: "nat \<Rightarrow> 'a sk_buff_scheme \<Rightarrow> 'a sk_buff_scheme option"
  k_unclone :: "nat \<Rightarrow> 'a sk_buff_scheme \<Rightarrow> int"
  k_peek :: "nat \<Rightarrow> int"

record ('a, 'u) strp_hooks =
  h_parse :: "'a sk_buff_scheme \<Rightarrow> 'a sk_buff_scheme \<times> int"
  h_clear :: "'a sk_buff_scheme \<Rightarrow> 'a sk_buff_scheme"
  h_deliver :: "'a sk_buff_scheme \<Rightarrow> 'u \<Rightarrow> 'u \<times> bool"
  h_abort :: "'a strparser \<Rightarrow> int \<Rightarrow> 'a strparser"
  h_done :: "int \<Rightarrow> int"

section \<open>Aborting, timers, errors\<close>

definition LONG_MAX :: int where "LONG_MAX = 2 ^ 63 - 1"

definition strp_abort_strp :: "'a strparser \<Rightarrow> int \<Rightarrow> 'a strparser" where
  "strp_abort_strp s err =
     (let s1 = s\<lparr>sp_timer := None\<rparr>
      in if sp_stopped s1 then s1
         else s1\<lparr>sp_stopped := True,
                 sp_sk := map_option (\<lambda>k. k\<lparr>ls_err := - err, ls_reports := ls_reports k + 1\<rparr>)
                            (sp_sk s1)\<rparr>)"

definition strp_start_timer :: "'a strparser \<Rightarrow> int \<Rightarrow> 'a strparser" where
  "strp_start_timer s timeo =
     (if timeo \<noteq> 0 \<and> timeo \<noteq> LONG_MAX then s\<lparr>sp_timer := Some timeo\<rparr> else s)"

definition strp_parser_err ::
  "('a, 'u) strp_hooks \<Rightarrow> ('a, 'u) rx \<Rightarrow> int \<Rightarrow> ('a, 'u) rx" where
  "strp_parser_err H r err =
     r\<lparr>rx_error := err, rx_strp := h_abort H ((rx_strp r)\<lparr>sp_head := None\<rparr>) err\<rparr>"

definition strp_peek_len :: "'a strparser \<Rightarrow> int \<Rightarrow> int" where
  "strp_peek_len s socket_peek = (case sp_sk s of Some _ \<Rightarrow> socket_peek | None \<Rightarrow> INT_MAX)"

definition mem_fail :: "('a, 'u) rx \<Rightarrow> int \<Rightarrow> ('a, 'u) rx" where
  "mem_fail r err =
     r\<lparr>rx_error := err,
       rx_strp := (rx_strp r)\<lparr>sp_stats := (sp_stats (rx_strp r))
         \<lparr>ss_mem_fail := ss_mem_fail (sp_stats (rx_strp r)) + 1\<rparr>\<rparr>\<rparr>"

section \<open>One call of \<open>__strp_recv\<close>\<close>

text \<open>
  The prologue: with a message in progress the new buffer must start at offset 0, and
  the head must be ready for appending. \<open>Inl\<close> is an early \<open>return 0\<close>.
\<close>

definition strp_pull_orig ::
  "'a strp_kernel \<Rightarrow> 'a sk_buff_scheme \<Rightarrow> nat \<Rightarrow> ('a sk_buff_scheme \<times> nat) option" where
  "strp_pull_orig K orig off =
     (if off \<noteq> 0
      then (case k_clone_orig K orig of
              None \<Rightarrow> None
            | Some c \<Rightarrow> map_option (\<lambda>p. (p, 0)) (k_pull K c off))
      else Some (orig, off))"

definition strp_prepare ::
  "'a strp_kernel \<Rightarrow> ('a, 'u) rx \<Rightarrow> 'a sk_buff_scheme \<Rightarrow> nat \<Rightarrow>
     ('a, 'u) rx + ('a, 'u) rx \<times> 'a sk_buff_scheme \<times> nat" where
  "strp_prepare K r orig off =
     (case sp_head (rx_strp r) of
        None \<Rightarrow> Inr (r, orig, off)
      | Some head \<Rightarrow>
          (case strp_pull_orig K orig off of
             None \<Rightarrow> Inl (mem_fail r (- ENOMEM))
           | Some (orig', off') \<Rightarrow>
               if sp_nextp (rx_strp r) then Inr (r, orig', off')
               else if k_unclone_head K head \<noteq> 0
                 then Inl (mem_fail r (k_unclone_head K head))
               else if sb_frag_list head
                 then (if sb_next head then Inl (r\<lparr>rx_error := - EINVAL\<rparr>)
                       else (case k_alloc_for_msg K head of
                               None \<Rightarrow> Inl (mem_fail r (- ENOMEM))
                             | Some h \<Rightarrow>
                                 Inr (r\<lparr>rx_strp := (rx_strp r)\<lparr>sp_nextp := True, sp_head := Some h\<rparr>\<rparr>,
                                      orig', off')))
               else Inr (r\<lparr>rx_strp := (rx_strp r)\<lparr>sp_nextp := True\<rparr>\<rparr>, orig', off')))"

text \<open>The clone either becomes the head of a new message or is appended to the head.\<close>

definition strp_attach ::
  "('a, 'u) strp_hooks \<Rightarrow> 'a strp_kernel \<Rightarrow> nat \<Rightarrow> ('a, 'u) rx \<Rightarrow> 'a sk_buff_scheme \<Rightarrow> nat \<Rightarrow> int \<Rightarrow>
     ('a, 'u) rx + ('a, 'u) rx \<times> 'a sk_buff_scheme" where
  "strp_attach H K i r skb off eaten =
     (case sp_head (rx_strp r) of
        None \<Rightarrow>
          (let h = (h_clear H skb)\<lparr>sb_offset := int off + eaten\<rparr>
           in Inr (r\<lparr>rx_strp := (rx_strp r)\<lparr>sp_head := Some h, sp_nextp := False\<rparr>\<rparr>, h))
      | Some head \<Rightarrow>
          if sb_frag_list skb \<and> k_unclone K i skb \<noteq> 0
          then Inl (mem_fail r (k_unclone K i skb))
          else (let h = head\<lparr>sb_bytes := sb_bytes head @ sb_bytes skb,
                             sb_frag_list := True,
                             sb_data_len := sb_data_len head + sb_len skb,
                             sb_len := sb_len head + sb_len skb,
                             sb_truesize := sb_truesize head + sb_truesize skb\<rparr>
                in Inr (r\<lparr>rx_strp := (rx_strp r)\<lparr>sp_head := Some h\<rparr>\<rparr>, h)))"

definition strp_bump :: "(strp_stats \<Rightarrow> strp_stats) \<Rightarrow> ('a, 'u) rx \<Rightarrow> ('a, 'u) rx" where
  "strp_bump f r = r\<lparr>rx_strp := (rx_strp r)\<lparr>sp_stats := f (sp_stats (rx_strp r))\<rparr>\<rparr>"

definition strp_set_head :: "'a sk_buff_scheme option \<Rightarrow> ('a, 'u) rx \<Rightarrow> ('a, 'u) rx" where
  "strp_set_head h r = r\<lparr>rx_strp := (rx_strp r)\<lparr>sp_head := h\<rparr>\<rparr>"

definition strp_msg_timer :: "'a sk_buff_scheme \<Rightarrow> int \<Rightarrow> ('a, 'u) rx \<Rightarrow> ('a, 'u) rx" where
  "strp_msg_timer h timeo r =
     (if sb_accum_len h = 0 then r\<lparr>rx_strp := strp_start_timer (rx_strp r) timeo\<rparr> else r)"

text \<open>
  Reading the length of the message. \<open>Inl (r, n)\<close> leaves the loop with \<open>n\<close> more bytes
  eaten; \<open>Inr\<close> continues with the head whose \<open>full_len\<close> is known.
\<close>

definition strp_length ::
  "('a, 'u) strp_hooks \<Rightarrow> int \<Rightarrow> int \<Rightarrow> ('a, 'u) rx \<Rightarrow> 'a sk_buff_scheme \<Rightarrow> 'a sk_buff_scheme \<Rightarrow> int \<Rightarrow>
     ('a, 'u) rx \<times> int + ('a, 'u) rx \<times> 'a sk_buff_scheme" where
  "strp_length H max_msg_size timeo r head skb cand_len =
     (if sb_full_len head \<noteq> 0 then Inr (r, head)
      else
        (case h_parse H head of (h, len) \<Rightarrow>
           if len = 0 then
             Inl (strp_bump (\<lambda>st. st\<lparr>ss_need_more_hdr := ss_need_more_hdr st + 1\<rparr>)
                    (strp_set_head (Some (h\<lparr>sb_accum_len := sb_accum_len h + cand_len\<rparr>))
                       (strp_msg_timer h timeo r)), cand_len)
           else if len < 0 then
             (if len = - ESTRPIPE \<and> sb_accum_len h \<noteq> 0
              then Inl (strp_parser_err H
                          (r\<lparr>rx_strp := (rx_strp r)\<lparr>sp_unrecov_intr := True\<rparr>\<rparr>) (- ENODATA), 0)
              else Inl (strp_parser_err H
                          (r\<lparr>rx_strp := (rx_strp r)\<lparr>sp_interrupted := True\<rparr>\<rparr>) len, 0))
           else if len > max_msg_size then
             Inl (strp_parser_err H
                    (strp_bump (\<lambda>st. st\<lparr>ss_msg_too_big := ss_msg_too_big st + 1\<rparr>) r) (- EMSGSIZE), 0)
           else if len \<le> sb_len h - sb_len skb - sb_offset h then
             Inl (strp_parser_err H
                    (strp_bump (\<lambda>st. st\<lparr>ss_bad_hdr_len := ss_bad_hdr_len st + 1\<rparr>) r) (- EPROTO), 0)
           else
             (let h' = h\<lparr>sb_full_len := len\<rparr> in Inr (strp_set_head (Some h') r, h'))))"

text \<open>The outcome of one round of the loop: leave it, or go round again.\<close>

datatype ('a, 'u) strp_step = Stop "('a, 'u) rx" int | Again "('a, 'u) rx" int

definition strp_complete ::
  "('a, 'u) strp_hooks \<Rightarrow> int \<Rightarrow> int \<Rightarrow> ('a, 'u) rx \<Rightarrow> 'a sk_buff_scheme \<Rightarrow> int \<Rightarrow> int \<Rightarrow>
     ('a, 'u) strp_step" where
  "strp_complete H peek timeo r head cand_len eaten =
     (let extra = (sb_accum_len head + cand_len) - sb_full_len head;
          grown = head\<lparr>sb_accum_len := sb_accum_len head + cand_len\<rparr>
      in if extra < 0 then
           (if sb_full_len head - sb_accum_len head > strp_peek_len (rx_strp r) peek
            then (let r1 = strp_set_head (Some grown) (strp_msg_timer head timeo r);
                      r2 = strp_bump (\<lambda>st. st\<lparr>ss_bytes := ss_bytes st + word_of_int cand_len\<rparr>) r1
                  in Stop (r2\<lparr>rx_count := 0,
                              rx_strp := (rx_strp r2)\<lparr>sp_need_bytes :=
                                 sb_full_len grown - sb_accum_len grown\<rparr>\<rparr>) (eaten + cand_len))
            else Stop (strp_set_head (Some grown) r) (eaten + cand_len))
         else
           (let s1 = (rx_strp r)\<lparr>sp_timer := None, sp_head := None, sp_need_bytes := 0\<rparr>;
                r1 = strp_bump (\<lambda>st. st\<lparr>ss_msgs := ss_msgs st + 1\<rparr>) (r\<lparr>rx_strp := s1\<rparr>);
                d = h_deliver H head (rx_up r1);
                r2 = r1\<lparr>rx_up := fst d,
                        rx_strp := (rx_strp r1)\<lparr>sp_paused := sp_paused (rx_strp r1) \<or> snd d\<rparr>\<rparr>
            in if sp_paused (rx_strp r2) then Stop r2 (eaten + (cand_len - extra))
               else Again r2 (eaten + (cand_len - extra))))"

definition strp_round ::
  "('a, 'u) strp_hooks \<Rightarrow> 'a strp_kernel \<Rightarrow> int \<Rightarrow> int \<Rightarrow> 'a sk_buff_scheme \<Rightarrow> nat \<Rightarrow> int \<Rightarrow>
     nat \<Rightarrow> int \<Rightarrow> ('a, 'u) rx \<Rightarrow> ('a, 'u) strp_step" where
  "strp_round H K max_msg_size timeo orig off orig_len i eaten r =
     (case k_clone K i orig of
        None \<Rightarrow> Stop (mem_fail r (- ENOMEM)) eaten
      | Some skb \<Rightarrow>
          (let cand_len = orig_len - eaten in
           case strp_attach H K i r skb off eaten of
             Inl r1 \<Rightarrow> Stop r1 eaten
           | Inr (r1, head) \<Rightarrow>
               (case strp_length H max_msg_size timeo r1 head skb cand_len of
                  Inl (r2, n) \<Rightarrow> Stop r2 (eaten + n)
                | Inr (r2, head2) \<Rightarrow>
                    strp_complete H (k_peek K i) timeo r2 head2 cand_len eaten)))"

text \<open>
  The \<open>while (eaten < orig_len)\<close> loop. Every round that goes on eats at least one byte of
  a well-formed stream, so \<open>orig_len + 1\<close> units of fuel are enough; \<open>None\<close> would be a
  loop that has not ended by then.
\<close>

fun strp_loop ::
  "nat \<Rightarrow> ('a, 'u) strp_hooks \<Rightarrow> 'a strp_kernel \<Rightarrow> int \<Rightarrow> int \<Rightarrow> 'a sk_buff_scheme \<Rightarrow> nat \<Rightarrow> int \<Rightarrow>
     nat \<Rightarrow> int \<Rightarrow> ('a, 'u) rx \<Rightarrow> (('a, 'u) rx \<times> int) option" where
  "strp_loop 0 H K mx timeo orig off orig_len i eaten r = None"
| "strp_loop (Suc n) H K mx timeo orig off orig_len i eaten r =
     (if eaten < orig_len then
        (case strp_round H K mx timeo orig off orig_len i eaten r of
           Stop r' e \<Rightarrow> Some (r', e)
         | Again r' e \<Rightarrow> strp_loop n H K mx timeo orig off orig_len (Suc i) e r')
      else Some (r, eaten))"

definition strp_recv_desc ::
  "('a, 'u) strp_hooks \<Rightarrow> 'a strp_kernel \<Rightarrow> int \<Rightarrow> int \<Rightarrow> ('a, 'u) rx \<Rightarrow> 'a sk_buff_scheme \<Rightarrow> nat \<Rightarrow> int \<Rightarrow>
     (('a, 'u) rx \<times> int) option" where
  "strp_recv_desc H K max_msg_size timeo r orig off orig_len =
     (if sp_paused (rx_strp r) then Some (r, 0)
      else case strp_prepare K r orig off of
        Inl r1 \<Rightarrow> Some (r1, 0)
      | Inr (r1, orig1, off1) \<Rightarrow>
          (case strp_loop (nat orig_len + 1) H K max_msg_size timeo orig1 off1 orig_len 0 0 r1 of
             None \<Rightarrow> None
           | Some (r2, eaten) \<Rightarrow>
               Some (strp_bump (\<lambda>st. st\<lparr>ss_bytes := ss_bytes st + word_of_int eaten\<rparr>) r2, eaten)))"

section \<open>Reading the socket\<close>

text \<open>
  One invocation of the receive callback: the buffer, the offset and the length that
  the socket passes, and what the kernel functions answer meanwhile.
\<close>

record 'a segment =
  sg_skb :: "'a sk_buff_scheme"
  sg_off :: nat
  sg_len :: int
  sg_kernel :: "'a strp_kernel"

definition strp_process ::
  "('a, 'u) strp_hooks \<Rightarrow> int \<Rightarrow> int \<Rightarrow> ('a, 'u) rx \<Rightarrow> 'a segment \<Rightarrow> (('a, 'u) rx \<times> int) option" where
  "strp_process H max_msg_size timeo r sg =
     strp_recv_desc H (sg_kernel sg) max_msg_size timeo r (sg_skb sg) (sg_off sg) (sg_len sg)"

definition strp_recv ::
  "('a, 'u) strp_hooks \<Rightarrow> ('a, 'u) rx \<Rightarrow> 'a segment \<Rightarrow> (fault + ('a, 'u) rx \<times> int) option" where
  "strp_recv H r sg =
     (case sp_sk (rx_strp r) of
        None \<Rightarrow> Some (Inl NullDeref)
      | Some k \<Rightarrow>
          map_option Inr
            (strp_recv_desc H (sg_kernel sg) (ls_rcvbuf k) (ls_rcvtimeo k) r
               (sg_skb sg) (sg_off sg) (sg_len sg)))"

definition default_read_sock_done :: "int \<Rightarrow> int" where
  "default_read_sock_done err = err"

text \<open>
  The socket's \<open>read_sock\<close> is kernel code: it is a function that gets the callback and
  the state and applies the callback to buffers of the receive queue.
\<close>

type_synonym ('a, 'u) read_sock =
  "(('a, 'u) rx \<Rightarrow> 'a segment \<Rightarrow> (fault + ('a, 'u) rx \<times> int) option) \<Rightarrow> ('a, 'u) rx \<Rightarrow>
     (fault + ('a, 'u) rx) option"

definition strp_read_sock ::
  "('a, 'u) strp_hooks \<Rightarrow> bool \<Rightarrow> ('a, 'u) read_sock \<Rightarrow> ('a, 'u) rx \<Rightarrow>
     (fault + ('a, 'u) rx \<times> int) option" where
  "strp_read_sock H sock_ok RS r =
     (case sp_sk (rx_strp r) of
        None \<Rightarrow> Some (Inl NullDeref)
      | Some _ \<Rightarrow>
          if \<not> sock_ok then Some (Inr (r, - EBUSY))
          else (case RS (strp_recv H) (r\<lparr>rx_error := 0, rx_count := 1\<rparr>) of
                  None \<Rightarrow> None
                | Some (Inl f) \<Rightarrow> Some (Inl f)
                | Some (Inr r1) \<Rightarrow>
                    (let e = h_done H (rx_error r1) in Some (Inr (r1\<lparr>rx_error := e\<rparr>, e)))))"

definition strp_queue_work :: "('a, 'u) rx \<Rightarrow> ('a, 'u) rx" where
  "strp_queue_work r = r\<lparr>rx_strp := (rx_strp r)\<lparr>sp_work := True\<rparr>\<rparr>"

text \<open>Reads the socket and queues the work item when memory ran out.\<close>

definition strp_read_or_requeue ::
  "('a, 'u) strp_hooks \<Rightarrow> bool \<Rightarrow> ('a, 'u) read_sock \<Rightarrow> ('a, 'u) rx \<Rightarrow>
     (fault + ('a, 'u) rx) option" where
  "strp_read_or_requeue H sock_ok RS r =
     map_option (map_sum id (\<lambda>(r1, e). if e = - ENOMEM then strp_queue_work r1 else r1))
       (strp_read_sock H sock_ok RS r)"

definition strp_waits_for_bytes :: "'a strparser \<Rightarrow> int \<Rightarrow> bool" where
  "strp_waits_for_bytes s peek \<longleftrightarrow>
     sp_need_bytes s \<noteq> 0 \<and>
     (word_of_int (strp_peek_len s peek) :: u32) < word_of_int (sp_need_bytes s)"

definition strp_data_ready ::
  "('a, 'u) strp_hooks \<Rightarrow> bool \<Rightarrow> ('a, 'u) read_sock \<Rightarrow> int \<Rightarrow> ('a, 'u) rx \<Rightarrow>
     (fault + ('a, 'u) rx) option" where
  "strp_data_ready H sock_ok RS peek r =
     (if sp_stopped (rx_strp r) \<or> sp_paused (rx_strp r) then Some (Inr r)
      else if strp_waits_for_bytes (rx_strp r) peek then Some (Inr r)
      else strp_read_or_requeue H sock_ok RS r)"

definition do_strp_work ::
  "('a, 'u) strp_hooks \<Rightarrow> bool \<Rightarrow> ('a, 'u) read_sock \<Rightarrow> ('a, 'u) rx \<Rightarrow>
     (fault + ('a, 'u) rx) option" where
  "do_strp_work H sock_ok RS r =
     (if sp_stopped (rx_strp r) then Some (Inr r)
      else if sp_paused (rx_strp r) then Some (Inr r)
      else strp_read_or_requeue H sock_ok RS r)"

definition strp_msg_timeout :: "('a, 'u) strp_hooks \<Rightarrow> 'a strparser \<Rightarrow> 'a strparser" where
  "strp_msg_timeout H s =
     h_abort H (s\<lparr>sp_stats := (sp_stats s)\<lparr>ss_msg_timeouts := ss_msg_timeouts (sp_stats s) + 1\<rparr>\<rparr>)
       (- ETIMEDOUT)"

section \<open>Life cycle\<close>

record ('a, 'u) strp_callbacks =
  cb_parse_msg :: "('a sk_buff_scheme \<Rightarrow> int) option"
  cb_rcv_msg :: "('a sk_buff_scheme \<Rightarrow> 'u \<Rightarrow> 'u \<times> bool) option"
  cb_read_sock_done :: "(int \<Rightarrow> int) option"
  cb_abort_parser :: "('a strparser \<Rightarrow> int \<Rightarrow> 'a strparser) option"
  cb_lock :: bool
  cb_unlock :: bool

definition zero_stats :: strp_stats where
  "zero_stats = \<lparr>ss_msgs = 0, ss_bytes = 0, ss_mem_fail = 0, ss_need_more_hdr = 0,
     ss_msg_too_big = 0, ss_msg_timeouts = 0, ss_bad_hdr_len = 0\<rparr>"

definition zero_strp :: "lower_sock option \<Rightarrow> 'a strparser" where
  "zero_strp sk = \<lparr>sp_sk = sk, sp_stopped = False, sp_paused = False, sp_aborted = False,
     sp_interrupted = False, sp_unrecov_intr = False, sp_nextp = False, sp_head = None,
     sp_need_bytes = 0, sp_timer = None, sp_work = False, sp_stats = zero_stats\<rparr>"

definition clear_strp_msg :: "'a sk_buff_scheme \<Rightarrow> 'a sk_buff_scheme" where
  "clear_strp_msg h = h\<lparr>sb_full_len := 0, sb_offset := 0, sb_accum_len := 0\<rparr>"

text \<open>The parser stores the message offset in the scratch slot before it calls back.\<close>

definition strp_call_parse ::
  "('a sk_buff_scheme \<Rightarrow> int) \<Rightarrow> 'a sk_buff_scheme \<Rightarrow> 'a sk_buff_scheme \<times> int" where
  "strp_call_parse parse h = (let h1 = h\<lparr>sb_cb0 := CbOffset (sb_offset h)\<rparr> in (h1, parse h1))"

definition strp_init ::
  "lower_sock option \<Rightarrow> ('a, 'u) strp_callbacks option \<Rightarrow>
     int + 'a strparser \<times> ('a, 'u) strp_hooks" where
  "strp_init sk cbs =
     (case cbs of
        None \<Rightarrow> Inl (- EINVAL)
      | Some cb \<Rightarrow>
          (case (cb_rcv_msg cb, cb_parse_msg cb) of
             (Some rcv, Some parse) \<Rightarrow>
               if sk = None \<and> (\<not> cb_lock cb \<or> \<not> cb_unlock cb) then Inl (- EINVAL)
               else Inr (zero_strp sk,
                 \<lparr>h_parse = strp_call_parse parse, h_clear = clear_strp_msg, h_deliver = rcv,
                  h_abort = (case cb_abort_parser cb of None \<Rightarrow> strp_abort_strp | Some f \<Rightarrow> f),
                  h_done = (case cb_read_sock_done cb of None \<Rightarrow> default_read_sock_done
                                                        | Some f \<Rightarrow> f)\<rparr>)
           | _ \<Rightarrow> Inl (- EINVAL)))"

definition strp_pause :: "'a strparser \<Rightarrow> 'a strparser" where
  "strp_pause s = s\<lparr>sp_paused := True\<rparr>"

definition strp_unpause_locked ::
  "('a, 'u) strp_hooks \<Rightarrow> bool \<Rightarrow> ('a, 'u) read_sock \<Rightarrow> int \<Rightarrow> ('a, 'u) rx \<Rightarrow>
     (fault + ('a, 'u) rx) option" where
  "strp_unpause_locked H sock_ok RS peek r =
     (let r1 = r\<lparr>rx_strp := (rx_strp r)\<lparr>sp_paused := False\<rparr>\<rparr>
      in if strp_waits_for_bytes (rx_strp r1) peek then Some (Inr r1)
         else map_option (map_sum id fst) (strp_read_sock H sock_ok RS r1))"

definition strp_unpause :: "'a strparser \<Rightarrow> 'a strparser" where
  "strp_unpause s = s\<lparr>sp_paused := False, sp_work := True\<rparr>"

definition strp_done :: "'a strparser \<Rightarrow> 'a strparser" where
  "strp_done s = s\<lparr>sp_timer := None, sp_work := False, sp_head := None\<rparr>"

definition strp_stop :: "'a strparser \<Rightarrow> 'a strparser" where
  "strp_stop s = s\<lparr>sp_stopped := True\<rparr>"

definition strp_check_rcv :: "'a strparser \<Rightarrow> 'a strparser" where
  "strp_check_rcv s = s\<lparr>sp_work := True\<rparr>"

section \<open>Statistics\<close>

definition save_strp_stats :: "'a strparser \<Rightarrow> strp_aggr_stats \<Rightarrow> strp_aggr_stats" where
  "save_strp_stats s agg =
     (let st = sp_stats s in
      agg\<lparr>ss_msgs := ss_msgs agg + ss_msgs st, ss_bytes := ss_bytes agg + ss_bytes st,
          ss_mem_fail := ss_mem_fail agg + ss_mem_fail st,
          ss_need_more_hdr := ss_need_more_hdr agg + ss_need_more_hdr st,
          ss_msg_too_big := ss_msg_too_big agg + ss_msg_too_big st,
          ss_msg_timeouts := ss_msg_timeouts agg + ss_msg_timeouts st,
          ss_bad_hdr_len := ss_bad_hdr_len agg + ss_bad_hdr_len st,
          ss_aborts := (if sp_aborted s then ss_aborts agg + 1 else ss_aborts agg),
          ss_interrupted := (if sp_interrupted s then ss_interrupted agg + 1 else ss_interrupted agg),
          ss_unrecov_intr :=
            (if sp_unrecov_intr s then ss_unrecov_intr agg + 1 else ss_unrecov_intr agg)\<rparr>)"

definition aggregate_strp_stats :: "strp_aggr_stats \<Rightarrow> strp_aggr_stats \<Rightarrow> strp_aggr_stats" where
  "aggregate_strp_stats st agg =
     agg\<lparr>ss_msgs := ss_msgs agg + ss_msgs st, ss_bytes := ss_bytes agg + ss_bytes st,
         ss_mem_fail := ss_mem_fail agg + ss_mem_fail st,
         ss_need_more_hdr := ss_need_more_hdr agg + ss_need_more_hdr st,
         ss_msg_too_big := ss_msg_too_big agg + ss_msg_too_big st,
         ss_msg_timeouts := ss_msg_timeouts agg + ss_msg_timeouts st,
         ss_bad_hdr_len := ss_bad_hdr_len agg + ss_bad_hdr_len st,
         ss_aborts := ss_aborts agg + ss_aborts st,
         ss_interrupted := ss_interrupted agg + ss_interrupted st,
         ss_unrecov_intr := ss_unrecov_intr agg + ss_unrecov_intr st\<rparr>"

end
