(* ===== verification/Framing.thy ===== *)
theory Framing
  imports Strparser
begin

text \<open>
  What the stream parser promises: the abstract framing of a byte stream (\<open>frames\<close>), the
  interface a message format offers to the parser (locale \<open>msg_format\<close>), and, in the
  locale \<open>strp_client\<close>, the proof that \<open>__strp_recv\<close> implements the framing, whatever the
  segments in which TCP hands over the stream.
\<close>

section \<open>The abstract framing of a stream\<close>

text \<open>
  \<open>frames parse hdr mx s\<close> cuts \<open>s\<close> into messages. It stops at an incomplete message
  (\<open>Pending\<close>), at a length the parser refuses (\<open>Bad\<close> with the error number), or at a
  length that is smaller than the header itself (\<open>Undersized\<close>).
\<close>

datatype frame_status = Pending bytes | Bad int | Undersized

function frames :: "(bytes \<Rightarrow> int) \<Rightarrow> nat \<Rightarrow> int \<Rightarrow> bytes \<Rightarrow> bytes list \<times> frame_status" where
  "frames parse hdr mx s =
     (if length s < hdr then ([], Pending s)
      else if parse s < 0 then ([], Bad (parse s))
      else if parse s < int hdr \<or> parse s = 0 then ([], Undersized)
      else if parse s > mx then ([], Bad (- EMSGSIZE))
      else if int (length s) < parse s then ([], Pending s)
      else (case frames parse hdr mx (drop (nat (parse s)) s) of
              (ms, st) \<Rightarrow> (take (nat (parse s)) s # ms, st)))"
  by pat_completeness auto
termination
  by (relation "measure (\<lambda>(parse, hdr, mx, s). length s)") auto

declare frames.simps [simp del]

lemma frames_short: "length s < hdr \<Longrightarrow> frames parse hdr mx s = ([], Pending s)"
  by (simp add: frames.simps)

lemma frames_Bad_neg: "hdr \<le> length s \<Longrightarrow> parse s < 0 \<Longrightarrow> frames parse hdr mx s = ([], Bad (parse s))"
  by (simp add: frames.simps)

lemma frames_Bad_big:
  "hdr \<le> length s \<Longrightarrow> int hdr \<le> parse s \<Longrightarrow> 0 < parse s \<Longrightarrow> mx < parse s \<Longrightarrow>
     frames parse hdr mx s = ([], Bad (- EMSGSIZE))"
  by (simp add: frames.simps)

lemma frames_incomplete:
  "hdr \<le> length s \<Longrightarrow> int hdr \<le> parse s \<Longrightarrow> 0 < parse s \<Longrightarrow> parse s \<le> mx \<Longrightarrow>
     int (length s) < parse s \<Longrightarrow> frames parse hdr mx s = ([], Pending s)"
  by (simp add: frames.simps)

lemma frames_message:
  assumes "hdr \<le> length s" "int hdr \<le> parse s" "0 < parse s" "parse s \<le> mx"
    and "parse s \<le> int (length s)"
    and "frames parse hdr mx (drop (nat (parse s)) s) = (ms, st)"
  shows "frames parse hdr mx s = (take (nat (parse s)) s # ms, st)"
  using assms by (simp add: frames.simps [of parse hdr mx s])

section \<open>The interface of a message format\<close>

locale msg_format =
  fixes parse_len :: "bytes \<Rightarrow> int" and hdr :: nat
  assumes hdr_pos: "0 < hdr"
    and parse_short: "length s < hdr \<Longrightarrow> parse_len s = 0"
    and parse_local: "hdr \<le> length s \<Longrightarrow> parse_len (s @ t) = parse_len s"
begin

abbreviation fr :: "int \<Rightarrow> bytes \<Rightarrow> bytes list \<times> frame_status" where
  "fr mx s \<equiv> frames parse_len hdr mx s"

text \<open>
  Framing is incremental: what is pending after a prefix of the stream is all that the
  rest of the stream has to be joined to.
\<close>

lemma frames_append:
  "fr mx s = (ms, Pending p) \<Longrightarrow> fr mx (s @ t) = (ms @ fst (fr mx (p @ t)), snd (fr mx (p @ t)))"
proof (induction "length s" arbitrary: s ms rule: less_induct)
  case less
  show ?case
  proof (cases "length s < hdr")
    case True
    with less.prems show ?thesis by (auto simp: frames_short)
  next
    case long: False
    then have loc: "parse_len (s @ t) = parse_len s" by (simp add: parse_local)
    from long less.prems have pos: "0 < parse_len s" "int hdr \<le> parse_len s" "parse_len s \<le> mx"
      by (auto simp: frames.simps [of parse_len hdr mx s] split: if_splits)
    show ?thesis
    proof (cases "int (length s) < parse_len s")
      case True
      with long pos less.prems show ?thesis
        by (auto simp: frames_incomplete)
    next
      case False
      let ?n = "nat (parse_len s)"
      obtain ms' where ms': "fr mx (drop ?n s) = (ms', Pending p)" "ms = take ?n s # ms'"
        using less.prems long pos False
        by (auto simp: frames.simps [of parse_len hdr mx s] split: prod.splits if_splits)
      have n: "?n \<le> length s" "0 < ?n" using False pos by auto
      then have "length (drop ?n s) < length s" using long hdr_pos by auto
      from less.hyps [OF this ms'(1)]
      have "fr mx (drop ?n s @ t) = (ms' @ fst (fr mx (p @ t)), snd (fr mx (p @ t)))" .
      then have "fr mx (drop ?n (s @ t)) = (ms' @ fst (fr mx (p @ t)), snd (fr mx (p @ t)))"
        using n by simp
      from frames_message [where parse = parse_len, OF _ _ _ _ _ this [folded loc]]
      show ?thesis
        using long pos False n by (simp add: loc ms'(2))
    qed
  qed
qed

lemma frames_pending_suffix:
  "fr mx s = (ms, Pending p) \<Longrightarrow> fr mx p = ([], Pending p)"
proof (induction "length s" arbitrary: s ms rule: less_induct)
  case less
  show ?case
  proof (cases "length s < hdr \<or> int (length s) < parse_len s")
    case True
    with less.prems have "s = p" "ms = []"
      by (auto simp: frames.simps [of parse_len hdr mx s] split: if_splits)
    with less.prems show ?thesis by simp
  next
    case False
    let ?n = "nat (parse_len s)"
    from False less.prems obtain ms' where
      "0 < parse_len s" "fr mx (drop ?n s) = (ms', Pending p)"
      by (auto simp: frames.simps [of parse_len hdr mx s] split: prod.splits if_splits)
    moreover have "length (drop ?n s) < length s"
      using False hdr_pos \<open>0 < parse_len s\<close> by auto
    ultimately show ?thesis using less.hyps by blast
  qed
qed

text \<open>A stream that is refused stays refused, whatever follows.\<close>

lemma frames_append_stuck:
  "fr mx s = (ms, st) \<Longrightarrow> (\<forall>p. st \<noteq> Pending p) \<Longrightarrow> fr mx (s @ t) = (ms, st)"
proof (induction "length s" arbitrary: s ms rule: less_induct)
  case less
  then have long: "hdr \<le> length s" by (auto simp: frames_short not_less [symmetric])
  then have loc: "parse_len (s @ t) = parse_len s" by (simp add: parse_local)
  let ?n = "nat (parse_len s)"
  show ?case
  proof (cases "0 < parse_len s \<and> int hdr \<le> parse_len s \<and> parse_len s \<le> mx")
    case True
    with less.prems long have fits: "parse_len s \<le> int (length s)"
      by (auto simp: frames_incomplete not_less [symmetric])
    from True less.prems long fits obtain ms' where
      ms': "fr mx (drop ?n s) = (ms', st)" "ms = take ?n s # ms'"
      by (auto simp: frames.simps [of parse_len hdr mx s] split: prod.splits)
    have "length (drop ?n s) < length s" using True long hdr_pos by auto
    from less.hyps [OF this ms'(1) less.prems(2)] fits
    have "fr mx (drop ?n (s @ t)) = (ms', st)" by simp
    from frames_message [where parse = parse_len, OF _ _ _ _ _ this [folded loc]] True long fits
    show ?thesis by (simp add: loc ms'(2))
  next
    case False
    with less.prems(1) long show ?thesis
      by (auto simp: frames.simps [of parse_len hdr mx s] frames.simps [of parse_len hdr mx "s @ t"]
          loc split: if_splits)
  qed
qed

lemma frames_prefix_pending:
  assumes "fr mx (s @ t) = (ms, Pending p)"
  obtains ms1 p1 where "fr mx s = (ms1, Pending p1)"
    "ms = ms1 @ fst (fr mx (p1 @ t))" "snd (fr mx (p1 @ t)) = Pending p"
proof -
  obtain ms1 st where s: "fr mx s = (ms1, st)" by fastforce
  show ?thesis
  proof (cases st)
    case (Pending p1)
    with s frames_append [of mx s ms1 p1 t] assms that show ?thesis by auto
  next
    case (Bad e)
    with s frames_append_stuck [OF s, of t] assms show ?thesis by auto
  next
    case Undersized
    with s frames_append_stuck [OF s, of t] assms show ?thesis by auto
  qed
qed

lemma frames_pending_iff:
  "fr mx p = ([], Pending p) \<longleftrightarrow>
     length p < hdr \<or>
     (0 < parse_len p \<and> int hdr \<le> parse_len p \<and> parse_len p \<le> mx \<and> int (length p) < parse_len p)"
  by (auto simp: frames.simps [of parse_len hdr mx p] split: prod.splits if_splits)

end

section \<open>Well-formed parser states and the kernel's promises\<close>

text \<open>
  The documented behaviour of the kernel functions during one call: a clone denotes the
  same bytes and is on no list, pulling drops the leading bytes, unsharing succeeds, and a
  message buffer wrapped around a head denotes the bytes of that head and carries its
  control block.
\<close>

definition same_buffer :: "'a sk_buff_scheme \<Rightarrow> 'a sk_buff_scheme \<Rightarrow> bool" where
  "same_buffer c b \<longleftrightarrow> sb_bytes c = sb_bytes b \<and> sb_len c = sb_len b \<and> \<not> sb_next c"

definition kernel_ok :: "'a strp_kernel \<Rightarrow> bool" where
  "kernel_ok K \<longleftrightarrow>
     (\<forall>b. \<exists>c. k_clone_orig K b = Some c \<and> same_buffer c b) \<and>
     (\<forall>i b. \<exists>c. k_clone K i b = Some c \<and> same_buffer c b) \<and>
     (\<forall>b n. int n \<le> sb_len b \<longrightarrow>
        (\<exists>c. k_pull K b n = Some c \<and> sb_bytes c = drop n (sb_bytes b) \<and>
              sb_len c = sb_len b - int n)) \<and>
     (\<forall>b. k_unclone_head K b = 0) \<and> (\<forall>i b. k_unclone K i b = 0) \<and>
     (\<forall>b. \<exists>c. k_alloc_for_msg K b = Some c \<and> same_buffer c b \<and> sb_offset c = sb_offset b \<and>
                sb_full_len c = sb_full_len b \<and> sb_accum_len c = sb_accum_len b)"

lemma kernel_okD:
  assumes "kernel_ok K"
  shows "\<exists>c. k_clone_orig K b = Some c \<and> same_buffer c b"
    and "\<exists>c. k_clone K i b = Some c \<and> same_buffer c b"
    and "int n \<le> sb_len b \<Longrightarrow>
           \<exists>c. k_pull K b n = Some c \<and> sb_bytes c = drop n (sb_bytes b) \<and> sb_len c = sb_len b - int n"
    and "k_unclone_head K b = 0" and "k_unclone K i b = 0"
    and "\<exists>c. k_alloc_for_msg K b = Some c \<and> same_buffer c b \<and> sb_offset c = sb_offset b \<and>
           sb_full_len c = sb_full_len b \<and> sb_accum_len c = sb_accum_len b"
  using assms unfolding kernel_ok_def by blast+

text \<open>A kernel that always succeeds and does just that; it shows that the hypothesis can hold.\<close>

definition ideal_kernel :: "'a strp_kernel" where
  "ideal_kernel =
     \<lparr>k_clone_orig = (\<lambda>b. Some (b\<lparr>sb_next := False\<rparr>)),
      k_pull = (\<lambda>b n. Some (b\<lparr>sb_bytes := drop n (sb_bytes b), sb_len := sb_len b - int n\<rparr>)),
      k_unclone_head = (\<lambda>_. 0), k_alloc_for_msg = (\<lambda>b. Some (b\<lparr>sb_next := False\<rparr>)),
      k_clone = (\<lambda>_ b. Some (b\<lparr>sb_next := False\<rparr>)), k_unclone = (\<lambda>_ _. 0), k_peek = (\<lambda>_. 0)\<rparr>"

lemma kernel_ok_ideal [simp]: "kernel_ok ideal_kernel"
  by (simp add: kernel_ok_def ideal_kernel_def same_buffer_def)

definition skb_wf :: "'a sk_buff_scheme \<Rightarrow> bool" where
  "skb_wf b \<longleftrightarrow> sb_len b = int (length (sb_bytes b))"

text \<open>The bytes of the message that is being assembled.\<close>

definition pending :: "'a strparser \<Rightarrow> bytes" where
  "pending s = (case sp_head s of None \<Rightarrow> [] | Some h \<Rightarrow> skb_view h)"

text \<open>
  A head buffer of a message in progress: \<open>off\<close> is where the message starts, everything
  after it is pending, and the length is either unknown (the header is not complete) or
  the one the header gives, not yet reached.
\<close>

definition head_inv :: "(bytes \<Rightarrow> int) \<Rightarrow> nat \<Rightarrow> int \<Rightarrow> 'a sk_buff_scheme \<Rightarrow> bool" where
  "head_inv parse hdr mx h \<longleftrightarrow>
     skb_wf h \<and> \<not> sb_next h \<and> 0 \<le> sb_offset h \<and> sb_offset h < sb_len h \<and>
     sb_accum_len h = int (length (skb_view h)) \<and>
     (if sb_full_len h = 0 then length (skb_view h) < hdr
      else hdr \<le> length (skb_view h) \<and> sb_full_len h = parse (skb_view h) \<and>
           int hdr \<le> sb_full_len h \<and> 0 < sb_full_len h \<and> sb_full_len h \<le> mx \<and>
           sb_accum_len h < sb_full_len h)"

definition strp_inv :: "(bytes \<Rightarrow> int) \<Rightarrow> nat \<Rightarrow> int \<Rightarrow> 'a strparser \<Rightarrow> bool" where
  "strp_inv parse hdr mx s \<longleftrightarrow> (case sp_head s of None \<Rightarrow> True | Some h \<Rightarrow> head_inv parse hdr mx h)"

text \<open>Segments of the stream as the socket hands them to the parser, one call each.\<close>

definition seg_ok :: "'a segment \<Rightarrow> bool" where
  "seg_ok sg \<longleftrightarrow>
     kernel_ok (sg_kernel sg) \<and> skb_wf (sg_skb sg) \<and> sg_off sg \<le> length (sb_bytes (sg_skb sg)) \<and>
     sg_len sg = int (length (sb_bytes (sg_skb sg))) - int (sg_off sg)"

definition seg_bytes :: "'a segment \<Rightarrow> bytes" where
  "seg_bytes sg = drop (sg_off sg) (sb_bytes (sg_skb sg))"

fun strp_feed ::
  "('a, 'u) strp_hooks \<Rightarrow> ('a, 'u) rx \<Rightarrow> 'a segment list \<Rightarrow> (fault + ('a, 'u) rx) option" where
  "strp_feed H r [] = Some (Inr r)"
| "strp_feed H r (sg # sgs) =
     (case strp_recv H r sg of
        None \<Rightarrow> None
      | Some (Inl f) \<Rightarrow> Some (Inl f)
      | Some (Inr (r1, _)) \<Rightarrow> strp_feed H r1 sgs)"

section \<open>The parser implements the framing\<close>

locale strp_client = msg_format parse_len hdr for parse_len hdr +
  fixes H :: "('a, 'u) strp_hooks"
  assumes parse_hook:
    "0 \<le> sb_offset h \<Longrightarrow> h_parse H h = (h', n) \<Longrightarrow>
       n = parse_len (skb_view h) \<and> sb_bytes h' = sb_bytes h \<and> sb_len h' = sb_len h \<and>
       sb_offset h' = sb_offset h \<and> sb_accum_len h' = sb_accum_len h \<and>
       sb_next h' = sb_next h \<and> (n = 0 \<longrightarrow> sb_full_len h' = sb_full_len h)"
    and clear_hook:
    "sb_bytes (h_clear H h) = sb_bytes h" "sb_len (h_clear H h) = sb_len h"
    "sb_next (h_clear H h) = sb_next h" "sb_full_len (h_clear H h) = 0"
    "sb_accum_len (h_clear H h) = 0"
    and deliver_hook: "\<not> snd (h_deliver H h u)"
    and abort_hook: "h_abort H = strp_abort_strp"
begin

text \<open>
  What a round that has attached its clone does: \<open>q\<close> are the bytes of the message seen in
  earlier calls, \<open>new\<close> those of this round, and \<open>h\<close> is the head buffer that holds both.
\<close>

definition tail_of_round ::
  "int \<Rightarrow> int \<Rightarrow> int \<Rightarrow> ('a, 'u) rx \<Rightarrow> 'a sk_buff_scheme \<Rightarrow> 'a sk_buff_scheme \<Rightarrow> int \<Rightarrow> int \<Rightarrow>
     ('a, 'u) strp_step" where
  "tail_of_round peek mx timeo r h skb cand eaten =
     (case strp_length H mx timeo r h skb cand of
        Inl (r2, n) \<Rightarrow> Stop r2 (eaten + n)
      | Inr (r2, h2) \<Rightarrow> strp_complete H peek timeo r2 h2 cand eaten)"

definition round_head :: "int \<Rightarrow> 'a sk_buff_scheme \<Rightarrow> 'a sk_buff_scheme \<Rightarrow> bytes \<Rightarrow> bytes \<Rightarrow> bool" where
  "round_head mx h skb q new \<longleftrightarrow>
     skb_wf h \<and> \<not> sb_next h \<and> 0 \<le> sb_offset h \<and> skb_view h = q @ new \<and> new \<noteq> [] \<and>
     sb_accum_len h = int (length q) \<and> sb_len h - sb_len skb - sb_offset h \<le> int (length q) \<and>
     (if sb_full_len h = 0 then length q < hdr
      else hdr \<le> length q \<and> sb_full_len h = parse_len (q @ new) \<and> int hdr \<le> sb_full_len h \<and>
           sb_full_len h \<le> mx \<and> int (length q) < sb_full_len h)"

text \<open>The parts of the receive state that a round which does not deliver leaves alone.\<close>

definition same_upper :: "('a, 'u) rx \<Rightarrow> ('a, 'u) rx \<Rightarrow> bool" where
  "same_upper r' r \<longleftrightarrow> rx_up r' = rx_up r \<and> sp_paused (rx_strp r') = sp_paused (rx_strp r)"

definition still_running :: "('a, 'u) rx \<Rightarrow> ('a, 'u) rx \<Rightarrow> bool" where
  "still_running r' r \<longleftrightarrow>
     sp_stopped (rx_strp r') = sp_stopped (rx_strp r) \<and> rx_error r' = rx_error r \<and>
     sp_paused (rx_strp r') = sp_paused (rx_strp r) \<and> sp_sk (rx_strp r') = sp_sk (rx_strp r)"

definition aborted_with :: "int \<Rightarrow> ('a, 'u) rx \<Rightarrow> bool" where
  "aborted_with e r \<longleftrightarrow>
     sp_head (rx_strp r) = None \<and> sp_stopped (rx_strp r) \<and>
     (rx_error r = e \<or> e = - ESTRPIPE \<and> rx_error r = - ENODATA)"

lemmas round_state_defs =
  same_upper_def still_running_def aborted_with_def strp_parser_err_def strp_bump_def
  strp_set_head_def strp_msg_timer_def strp_start_timer_def strp_abort_strp_def Let_def

lemma view_length: "0 \<le> sb_offset h \<Longrightarrow> skb_view h \<noteq> [] \<Longrightarrow> skb_wf h \<Longrightarrow> sb_offset h < sb_len h"
  by (auto simp: skb_view_def skb_wf_def)

lemma length_pending:
  assumes "round_head mx h skb q new" "sb_full_len h = 0" "length (q @ new) < hdr"
  shows "\<exists>r' h'. tail_of_round peek mx timeo r h skb (int (length new)) eaten =
                  Stop r' (eaten + int (length new)) \<and>
          sp_head (rx_strp r') = Some h' \<and> head_inv parse_len hdr mx h' \<and>
          skb_view h' = q @ new \<and> same_upper r' r \<and> still_running r' r"
proof -
  obtain h1 n where h1: "h_parse H h = (h1, n)" by fastforce
  have "0 \<le> sb_offset h" using assms(1) by (simp add: round_head_def)
  note facts = parse_hook [OF this h1]
  from assms facts have "n = 0" by (simp add: round_head_def parse_short)
  with assms facts have "head_inv parse_len hdr mx (h1\<lparr>sb_accum_len := sb_accum_len h1 + int (length new)\<rparr>)"
    using view_length [of h]
    by (auto simp: head_inv_def round_head_def skb_wf_def skb_view_def)
  with assms facts h1 \<open>n = 0\<close> show ?thesis
    by (auto simp: tail_of_round_def strp_length_def round_head_def skb_view_def round_state_defs)
qed

lemma length_bad:
  assumes "round_head mx h skb q new" "sb_full_len h = 0" "hdr \<le> length (q @ new)"
    and "parse_len (q @ new) < 0"
  shows "\<exists>r'. tail_of_round peek mx timeo r h skb (int (length new)) eaten = Stop r' eaten \<and>
          aborted_with (parse_len (q @ new)) r' \<and> same_upper r' r"
proof -
  obtain h1 n where h1: "h_parse H h = (h1, n)" by fastforce
  have "0 \<le> sb_offset h" using assms(1) by (simp add: round_head_def)
  note facts = parse_hook [OF this h1]
  from assms facts h1 show ?thesis
    by (auto simp: tail_of_round_def strp_length_def round_head_def abort_hook round_state_defs)
qed

lemma length_too_big:
  assumes "round_head mx h skb q new" "sb_full_len h = 0" "hdr \<le> length (q @ new)"
    and "0 < parse_len (q @ new)" "mx < parse_len (q @ new)"
  shows "\<exists>r'. tail_of_round peek mx timeo r h skb (int (length new)) eaten = Stop r' eaten \<and>
          aborted_with (- EMSGSIZE) r' \<and> same_upper r' r"
proof -
  obtain h1 n where h1: "h_parse H h = (h1, n)" by fastforce
  have "0 \<le> sb_offset h" using assms(1) by (simp add: round_head_def)
  note facts = parse_hook [OF this h1]
  from assms facts h1 show ?thesis
    by (auto simp: tail_of_round_def strp_length_def round_head_def abort_hook round_state_defs)
qed

text \<open>With a plausible length in the header, \<open>full_len\<close> is that length from then on.\<close>

lemma length_known:
  assumes "round_head mx h skb q new" "hdr \<le> length (q @ new)"
    and "int hdr \<le> parse_len (q @ new)" "parse_len (q @ new) \<le> mx"
  shows "\<exists>r2 h2. strp_length H mx timeo r h skb cand = Inr (r2, h2) \<and>
           sb_full_len h2 = parse_len (q @ new) \<and> sb_accum_len h2 = int (length q) \<and>
           skb_view h2 = q @ new \<and> skb_wf h2 \<and> \<not> sb_next h2 \<and> 0 \<le> sb_offset h2 \<and>
           int (length q) < sb_full_len h2 \<and>
           same_upper r2 r \<and> still_running r2 r"
proof (cases "sb_full_len h = 0")
  case True
  obtain h1 n where h1: "h_parse H h = (h1, n)" by fastforce
  have "0 \<le> sb_offset h" using assms(1) by (simp add: round_head_def)
  note facts = parse_hook [OF this h1]
  from True assms facts h1 hdr_pos show ?thesis
    by (auto simp: strp_length_def round_head_def round_state_defs skb_wf_def skb_view_def)
next
  case False
  with assms show ?thesis
    by (auto simp: strp_length_def round_head_def round_state_defs)
qed

lemma complete_incomplete:
  assumes "skb_view h2 = q @ new" "new \<noteq> []" "sb_accum_len h2 = int (length q)"
    and "skb_wf h2" "\<not> sb_next h2" "0 \<le> sb_offset h2"
    and "hdr \<le> length (q @ new)" "int hdr \<le> sb_full_len h2" "sb_full_len h2 \<le> mx"
    and "sb_full_len h2 = parse_len (q @ new)" "int (length (q @ new)) < sb_full_len h2"
  shows "\<exists>r' h'. strp_complete H peek timeo r h2 (int (length new)) eaten =
                  Stop r' (eaten + int (length new)) \<and>
          sp_head (rx_strp r') = Some h' \<and> head_inv parse_len hdr mx h' \<and>
          skb_view h' = q @ new \<and> same_upper r' r \<and> still_running r' r"
proof -
  let ?g = "h2\<lparr>sb_accum_len := sb_accum_len h2 + int (length new)\<rparr>"
  have "head_inv parse_len hdr mx ?g"
    using assms view_length [of h2] hdr_pos by (auto simp: head_inv_def skb_wf_def)
  then show ?thesis
    using assms by (auto simp: strp_complete_def round_state_defs)
qed

lemma complete_message:
  assumes "sb_accum_len h2 = int (length q)" "int (length q) < sb_full_len h2"
    and "sb_full_len h2 \<le> int (length (q @ new))" "\<not> sp_paused (rx_strp r)"
  shows "\<exists>r'. strp_complete H peek timeo r h2 (int (length new)) eaten =
                Again r' (eaten + (sb_full_len h2 - int (length q))) \<and>
          sp_head (rx_strp r') = None \<and> rx_up r' = fst (h_deliver H h2 (rx_up r)) \<and>
          still_running r' r"
  using assms deliver_hook by (auto simp: strp_complete_def round_state_defs)

text \<open>The three ways a round can end, read off the framing of the bytes it holds.\<close>

lemma round_outcome:
  assumes head: "round_head mx h skb q new" and run: "\<not> sp_paused (rx_strp r)"
    and frames: "fr mx (q @ new) = (ms, st)" and ok: "st \<noteq> Undersized"
  obtains
    (wait) r' h' where "ms = []" "st = Pending (q @ new)"
      "tail_of_round peek mx timeo r h skb (int (length new)) eaten = Stop r' (eaten + int (length new))"
      "sp_head (rx_strp r') = Some h'" "head_inv parse_len hdr mx h'" "skb_view h' = q @ new"
      "rx_up r' = rx_up r" "still_running r' r"
  | (fail) r' e where "ms = []" "st = Bad e"
      "tail_of_round peek mx timeo r h skb (int (length new)) eaten = Stop r' eaten"
      "aborted_with e r'" "rx_up r' = rx_up r"
  | (deliver) r' h' n ms' where "ms = take n (q @ new) # ms'"
      "fr mx (drop n (q @ new)) = (ms', st)" "length q < n" "n \<le> length (q @ new)"
      "tail_of_round peek mx timeo r h skb (int (length new)) eaten = Again r' (eaten + int (n - length q))"
      "sp_head (rx_strp r') = None" "rx_up r' = fst (h_deliver H h' (rx_up r))"
      "msg_bytes h' = take n (q @ new)" "still_running r' r"
proof -
  let ?p = "q @ new" and ?n = "parse_len (q @ new)"
  consider (short) "length ?p < hdr" | (neg) "hdr \<le> length ?p" "?n < 0"
    | (big) "hdr \<le> length ?p" "0 < ?n" "int hdr \<le> ?n" "mx < ?n"
    | (part) "hdr \<le> length ?p" "int hdr \<le> ?n" "0 < ?n" "?n \<le> mx" "int (length ?p) < ?n"
    | (full) "hdr \<le> length ?p" "int hdr \<le> ?n" "0 < ?n" "?n \<le> mx" "?n \<le> int (length ?p)"
    using frames ok by (auto simp: frames.simps [of parse_len hdr mx ?p] split: if_splits)
  then show ?thesis
  proof cases
    case short
    then have "sb_full_len h = 0" using head by (auto simp: round_head_def split: if_splits)
    from length_pending [OF head this short] frames short show ?thesis
      using wait by (force simp: frames_short same_upper_def)
  next
    case neg
    then have "sb_full_len h = 0" using head by (auto simp: round_head_def split: if_splits)
    from length_bad [OF head this neg] frames neg show ?thesis
      using fail by (force simp: frames_Bad_neg same_upper_def)
  next
    case big
    then have "sb_full_len h = 0" using head by (auto simp: round_head_def split: if_splits)
    from length_too_big [OF head this big(1,2,4)] frames big show ?thesis
      using fail by (force simp: frames_Bad_big same_upper_def)
  next
    case part
    from length_known [OF head part(1,2,4)] obtain r2 h2 where
      k: "strp_length H mx timeo r h skb (int (length new)) = Inr (r2, h2)"
      "sb_full_len h2 = ?n" "sb_accum_len h2 = int (length q)" "skb_view h2 = ?p" "skb_wf h2"
      "\<not> sb_next h2" "0 \<le> sb_offset h2" "same_upper r2 r" "still_running r2 r"
      by blast
    have "new \<noteq> []" using head by (simp add: round_head_def)
    from complete_incomplete [OF k(4) this k(3,5,6,7) part(1),
        where mx = mx and r = r2 and peek = peek and timeo = timeo and eaten = eaten] part k
    obtain r' h' where
      "strp_complete H peek timeo r2 h2 (int (length new)) eaten = Stop r' (eaten + int (length new))"
      "sp_head (rx_strp r') = Some h'" "head_inv parse_len hdr mx h'" "skb_view h' = ?p"
      "same_upper r' r2" "still_running r' r2" by auto
    with k frames part show ?thesis
      using wait [of r' h']
      by (auto simp: tail_of_round_def frames_incomplete same_upper_def still_running_def)
  next
    case full
    from length_known [OF head full(1,2,4)] obtain r2 h2 where
      k: "strp_length H mx timeo r h skb (int (length new)) = Inr (r2, h2)"
      "sb_full_len h2 = ?n" "sb_accum_len h2 = int (length q)" "skb_view h2 = ?p"
      "int (length q) < sb_full_len h2" "same_upper r2 r" "still_running r2 r"
      by blast
    have "\<not> sp_paused (rx_strp r2)" using k run by (simp add: same_upper_def)
    from complete_message [OF k(3,5) _ this,
        where new = new and peek = peek and timeo = timeo and eaten = eaten] full k obtain r' where
      c: "strp_complete H peek timeo r2 h2 (int (length new)) eaten =
            Again r' (eaten + (sb_full_len h2 - int (length q)))"
      "sp_head (rx_strp r') = None" "rx_up r' = fst (h_deliver H h2 (rx_up r2))"
      "still_running r' r2" by auto
    obtain ms' where "fr mx (drop (nat ?n) ?p) = (ms', st)" "ms = take (nat ?n) ?p # ms'"
      using frames full by (auto simp: frames.simps [of parse_len hdr mx ?p] split: prod.splits)
    with k c full show ?thesis
      using deliver [of "nat ?n" ms' r' h2]
      by (auto simp: tail_of_round_def same_upper_def still_running_def msg_bytes_def)
  qed
qed

text \<open>A round on an idle parser starts a new message in the clone.\<close>

lemma round_fresh:
  assumes "kernel_ok K" "skb_wf orig" "sp_head (rx_strp r) = None"
    and "0 \<le> eaten" "new = drop (off + nat eaten) (sb_bytes orig)" "new \<noteq> []"
    and "orig_len = int (length (sb_bytes orig)) - int off"
  shows "\<exists>r1 h skb. strp_round H K mx timeo orig off orig_len i eaten r =
            tail_of_round (k_peek K i) mx timeo r1 h skb (int (length new)) eaten \<and>
          round_head mx h skb [] new \<and> same_upper r1 r \<and> still_running r1 r"
proof -
  obtain skb where skb: "k_clone K i orig = Some skb" "same_buffer skb orig"
    using kernel_okD(2) [OF assms(1)] by blast
  let ?h = "(h_clear H skb)\<lparr>sb_offset := int off + eaten\<rparr>"
  let ?r1 = "r\<lparr>rx_strp := (rx_strp r)\<lparr>sp_head := Some ?h, sp_nextp := False\<rparr>\<rparr>"
  have "strp_attach H K i r skb off eaten = Inr (?r1, ?h)"
    using assms by (simp add: strp_attach_def Let_def)
  moreover have "orig_len - eaten = int (length new)"
    using assms by auto
  ultimately have "strp_round H K mx timeo orig off orig_len i eaten r =
      tail_of_round (k_peek K i) mx timeo ?r1 ?h skb (int (length new)) eaten"
    using skb by (simp add: strp_round_def tail_of_round_def Let_def)
  moreover have "skb_view ?h = [] @ new"
    using assms skb by (simp add: clear_hook same_buffer_def nat_add_distrib)
  then have "round_head mx ?h skb [] new"
    using assms skb hdr_pos
    by (simp add: round_head_def clear_hook same_buffer_def skb_wf_def)
  ultimately show ?thesis
    by (intro exI [of _ ?r1] exI [of _ ?h] exI [of _ skb])
      (simp add: same_upper_def still_running_def)
qed

text \<open>The first round on a parser with a message in progress appends the clone to the head.\<close>

lemma round_append:
  assumes "kernel_ok K" "skb_wf orig" "sp_head (rx_strp r) = Some head"
    and inv: "head_inv parse_len hdr mx head" and new: "sb_bytes orig \<noteq> []"
  shows "\<exists>r1 h skb. strp_round H K mx timeo orig 0 (int (length (sb_bytes orig))) i 0 r =
            tail_of_round (k_peek K i) mx timeo r1 h skb (int (length (sb_bytes orig))) 0 \<and>
          round_head mx h skb (skb_view head) (sb_bytes orig) \<and>
          same_upper r1 r \<and> still_running r1 r"
proof -
  obtain skb where skb: "k_clone K i orig = Some skb" "same_buffer skb orig"
      "k_unclone K i skb = 0"
    using kernel_okD(2) [OF assms(1)] kernel_okD(5) [OF assms(1)] by blast
  let ?h = "head\<lparr>sb_bytes := sb_bytes head @ sb_bytes skb, sb_frag_list := True,
                 sb_data_len := sb_data_len head + sb_len skb,
                 sb_len := sb_len head + sb_len skb,
                 sb_truesize := sb_truesize head + sb_truesize skb\<rparr>"
  let ?r1 = "r\<lparr>rx_strp := (rx_strp r)\<lparr>sp_head := Some ?h\<rparr>\<rparr>"
  have "strp_attach H K i r skb 0 0 = Inr (?r1, ?h)"
    using assms skb by (simp add: strp_attach_def Let_def)
  then have "strp_round H K mx timeo orig 0 (int (length (sb_bytes orig))) i 0 r =
      tail_of_round (k_peek K i) mx timeo ?r1 ?h skb (int (length (sb_bytes orig))) 0"
    using skb by (simp add: strp_round_def tail_of_round_def Let_def)
  moreover have view: "skb_view ?h = skb_view head @ sb_bytes orig"
  proof -
    have "nat (sb_offset head) \<le> length (sb_bytes head)"
      using inv by (auto simp: head_inv_def skb_wf_def)
    then show ?thesis using skb by (simp add: skb_view_def same_buffer_def)
  qed
  have "round_head mx ?h skb (skb_view head) (sb_bytes orig)"
    using inv skb new assms(2) view
    by (auto simp: round_head_def head_inv_def same_buffer_def skb_wf_def skb_view_def
        parse_local split: if_splits)
  ultimately show ?thesis
    by (intro exI [of _ ?r1] exI [of _ ?h] exI [of _ skb])
      (simp add: same_upper_def still_running_def)
qed

text \<open>How a run of the loop ends, read off the framing of the bytes it was given.\<close>

definition run_ends :: "int \<Rightarrow> frame_status \<Rightarrow> ('a, 'u) rx \<Rightarrow> ('a, 'u) rx \<Rightarrow> int \<Rightarrow> int \<Rightarrow> bool" where
  "run_ends mx st r' r e orig_len \<longleftrightarrow>
     (case st of
        Pending p \<Rightarrow> e = orig_len \<and> pending (rx_strp r') = p \<and>
          strp_inv parse_len hdr mx (rx_strp r') \<and> still_running r' r
      | Bad b \<Rightarrow> aborted_with b r'
      | Undersized \<Rightarrow> False)"

abbreviation deliver_all :: "'a sk_buff_scheme list \<Rightarrow> 'u \<Rightarrow> 'u" where
  "deliver_all hs u \<equiv> fold (\<lambda>h u. fst (h_deliver H h u)) hs u"

lemma run_ends_mono: "still_running r1 r \<Longrightarrow> run_ends mx st r' r1 e l \<Longrightarrow> run_ends mx st r' r e l"
  by (auto simp: run_ends_def still_running_def split: frame_status.splits)

lemma frames_Nil: "fr mx [] = ([], Pending [])"
  using hdr_pos by (simp add: frames_short)

lemma loop_fresh:
  assumes "kernel_ok K" "skb_wf orig" "off \<le> length (sb_bytes orig)"
    and ol: "orig_len = int (length (sb_bytes orig)) - int off" and ok: "st \<noteq> Undersized"
  shows "0 \<le> eaten \<Longrightarrow> eaten \<le> orig_len \<Longrightarrow> nat (orig_len - eaten) < n \<Longrightarrow>
    \<not> sp_paused (rx_strp r) \<Longrightarrow> sp_head (rx_strp r) = None \<Longrightarrow>
    fr mx (drop (off + nat eaten) (sb_bytes orig)) = (ms, st) \<Longrightarrow>
    \<exists>r' hs e. strp_loop n H K mx timeo orig off orig_len i eaten r = Some (r', e) \<and>
      map msg_bytes hs = ms \<and> rx_up r' = deliver_all hs (rx_up r) \<and> run_ends mx st r' r e orig_len"
proof (induction n arbitrary: eaten r i ms)
  case 0
  then show ?case by simp
next
  case (Suc n)
  let ?new = "drop (off + nat eaten) (sb_bytes orig)"
  show ?case
  proof (cases "eaten < orig_len")
    case False
    then have "?new = []" using Suc.prems ol by auto
    with Suc.prems have "ms = [] \<and> st = Pending []" by (simp add: frames_Nil)
    with False Suc.prems show ?thesis
      by (auto simp: run_ends_def pending_def strp_inv_def still_running_def intro!: exI [of _ "[]"])
  next
    case True
    then have ne: "?new \<noteq> []" using Suc.prems(1) ol by auto
    from round_fresh [OF assms(1,2) Suc.prems(5,1) refl ne ol, of mx timeo i]
    obtain r1 h skb where
      R: "strp_round H K mx timeo orig off orig_len i eaten r =
            tail_of_round (k_peek K i) mx timeo r1 h skb (int (length ?new)) eaten"
      "round_head mx h skb [] ?new" "same_upper r1 r" "still_running r1 r" by blast
    have np: "\<not> sp_paused (rx_strp r1)" using R Suc.prems by (simp add: same_upper_def)
    have fr1: "fr mx ([] @ ?new) = (ms, st)" using Suc.prems by simp
    from R(2) np fr1 ok show ?thesis
    proof (cases rule: round_outcome [where peek = "k_peek K i" and timeo = timeo and eaten = eaten])
      case (wait r' h')
      with True R ol Suc.prems(1) show ?thesis
        by (auto simp: run_ends_def pending_def strp_inv_def still_running_def same_upper_def
            intro!: exI [of _ "[]"])
    next
      case (fail r' e)
      with True R show ?thesis
        by (auto simp: run_ends_def same_upper_def intro!: exI [of _ "[]"])
    next
      case (deliver r' h' m ms')
      let ?e = "eaten + int m"
      have m: "0 < m" "int m \<le> orig_len - eaten" using deliver ol Suc.prems(1) by auto
      have "drop (off + nat ?e) (sb_bytes orig) = drop m ?new"
        using Suc.prems(1) by (simp add: nat_add_distrib add.commute add.left_commute)
      with deliver have f: "fr mx (drop (off + nat ?e) (sb_bytes orig)) = (ms', st)" by simp
      have "\<not> sp_paused (rx_strp r')" using deliver np by (simp add: still_running_def)
      moreover have "0 \<le> ?e" "?e \<le> orig_len" "nat (orig_len - ?e) < n"
        using Suc.prems m by auto
      ultimately obtain r2 hs e where
        "strp_loop n H K mx timeo orig off orig_len (Suc i) ?e r' = Some (r2, e)"
        "map msg_bytes hs = ms'" "rx_up r2 = deliver_all hs (rx_up r')"
        "run_ends mx st r2 r' e orig_len"
        using Suc.IH [OF _ _ _ _ deliver(6) f, of "Suc i"] by blast
      with True R deliver show ?thesis
        by (auto simp: same_upper_def still_running_def intro!: exI [of _ "h' # hs"]
            elim!: run_ends_mono [rotated])
    qed
  qed
qed

text \<open>The prologue makes a message in progress ready for appending and changes none of it.\<close>

lemma pull_orig_ok:
  assumes "kernel_ok K" "skb_wf orig" "off \<le> length (sb_bytes orig)"
  shows "\<exists>orig1. strp_pull_orig K orig off = Some (orig1, 0) \<and> skb_wf orig1 \<and>
           sb_bytes orig1 = drop off (sb_bytes orig)"
proof (cases "off = 0")
  case True
  with assms show ?thesis by (simp add: strp_pull_orig_def)
next
  case False
  obtain c where c: "k_clone_orig K orig = Some c" "same_buffer c orig"
    using kernel_okD(1) [OF assms(1)] by blast
  have "int off \<le> sb_len c" using assms c by (simp add: same_buffer_def skb_wf_def)
  from kernel_okD(3) [OF assms(1) this] obtain d where
    "k_pull K c off = Some d" "sb_bytes d = drop off (sb_bytes c)" "sb_len d = sb_len c - int off"
    by blast
  with c False assms show ?thesis
    by (auto simp: strp_pull_orig_def same_buffer_def skb_wf_def)
qed

lemma prepare_ok:
  assumes "kernel_ok K" "skb_wf orig" "off \<le> length (sb_bytes orig)"
    and head: "sp_head (rx_strp r) = Some h" and inv: "head_inv parse_len hdr mx h"
  shows "\<exists>r1 orig1 h1. strp_prepare K r orig off = Inr (r1, orig1, 0) \<and> skb_wf orig1 \<and>
           sb_bytes orig1 = drop off (sb_bytes orig) \<and> sp_head (rx_strp r1) = Some h1 \<and>
           head_inv parse_len hdr mx h1 \<and> skb_view h1 = skb_view h \<and>
           same_upper r1 r \<and> still_running r1 r"
proof -
  obtain orig1 where o: "strp_pull_orig K orig off = Some (orig1, 0)" "skb_wf orig1"
    "sb_bytes orig1 = drop off (sb_bytes orig)"
    using pull_orig_ok [OF assms(1-3)] by blast
  obtain w where w: "k_alloc_for_msg K h = Some w" "same_buffer w h" "sb_offset w = sb_offset h"
    "sb_full_len w = sb_full_len h" "sb_accum_len w = sb_accum_len h"
    using kernel_okD(6) [OF assms(1)] by blast
  have view: "skb_view w = skb_view h" using w by (simp add: skb_view_def same_buffer_def)
  then have "head_inv parse_len hdr mx w"
    using inv w by (auto simp: head_inv_def same_buffer_def skb_wf_def split: if_splits)
  moreover have "\<not> sb_next h" using inv by (simp add: head_inv_def)
  ultimately show ?thesis
    using o w view head inv kernel_okD(4) [OF assms(1), of h]
    by (auto simp: strp_prepare_def same_upper_def still_running_def)
qed

lemma loop_append:
  assumes "kernel_ok K" "skb_wf orig" "sb_bytes orig \<noteq> []"
    and run: "\<not> sp_paused (rx_strp r)" and head: "sp_head (rx_strp r) = Some h"
    and inv: "head_inv parse_len hdr mx h"
    and frames: "fr mx (skb_view h @ sb_bytes orig) = (ms, st)" and ok: "st \<noteq> Undersized"
  defines "L \<equiv> int (length (sb_bytes orig))"
  shows "\<exists>r' hs e. strp_loop (nat L + 1) H K mx timeo orig 0 L 0 0 r = Some (r', e) \<and>
      map msg_bytes hs = ms \<and> rx_up r' = deliver_all hs (rx_up r) \<and> run_ends mx st r' r e L"
proof -
  let ?p = "skb_view h" and ?new = "sb_bytes orig"
  have pos: "0 < L" using assms(3) by (simp add: L_def)
  from round_append [OF assms(1,2) head inv assms(3), of timeo 0]
  obtain r1 h1 skb where
    R: "strp_round H K mx timeo orig 0 L 0 0 r = tail_of_round (k_peek K 0) mx timeo r1 h1 skb L 0"
    "round_head mx h1 skb ?p ?new" "same_upper r1 r" "still_running r1 r"
    unfolding L_def by blast
  have np: "\<not> sp_paused (rx_strp r1)" using R run by (simp add: same_upper_def)
  from R(2) np frames ok show ?thesis
  proof (cases rule: round_outcome [where peek = "k_peek K 0" and timeo = timeo and eaten = 0])
    case (wait r' h')
    with R pos show ?thesis
      by (auto simp: run_ends_def pending_def strp_inv_def still_running_def same_upper_def L_def
          intro!: exI [of _ "[]"])
  next
    case (fail r' e)
    with R pos show ?thesis
      by (auto simp: run_ends_def same_upper_def L_def intro!: exI [of _ "[]"])
  next
    case (deliver r' h' m ms')
    let ?e = "int (m - length ?p)"
    have "nat ?e = m - length ?p" using deliver by simp
    then have "drop (0 + nat ?e) ?new = drop m (?p @ ?new)" using deliver by simp
    with deliver have f: "fr mx (drop (0 + nat ?e) ?new) = (ms', st)" by simp
    have "\<not> sp_paused (rx_strp r')" using deliver np by (simp add: still_running_def)
    moreover have "0 \<le> ?e" "?e \<le> L" "nat (L - ?e) < nat L"
      using deliver pos by (auto simp: L_def)
    moreover have "L = int (length ?new) - int 0" by (simp add: L_def)
    ultimately obtain r2 hs e where
      "strp_loop (nat L) H K mx timeo orig 0 L (Suc 0) ?e r' = Some (r2, e)"
      "map msg_bytes hs = ms'" "rx_up r2 = deliver_all hs (rx_up r')" "run_ends mx st r2 r' e L"
      using loop_fresh [OF assms(1,2) _ _ ok _ _ _ _ deliver(6) f] by blast
    with R deliver pos show ?thesis
      by (auto simp: same_upper_def still_running_def L_def intro!: exI [of _ "h' # hs"]
          elim!: run_ends_mono [rotated])
  qed
qed

lemma run_ends_bump [simp]: "run_ends mx st (strp_bump f r') r e l = run_ends mx st r' r e l"
  by (simp add: run_ends_def strp_bump_def aborted_with_def still_running_def pending_def
      strp_inv_def split: frame_status.split)

lemma rx_up_bump [simp]: "rx_up (strp_bump f r) = rx_up r"
  by (simp add: strp_bump_def)

text \<open>
  The refinement: a call of \<open>__strp_recv\<close> on a segment delivers exactly the messages that
  the framing of the pending bytes and the segment has, in order, and leaves the parser
  with what the framing leaves.
\<close>

theorem strp_recv_frames:
  assumes "kernel_ok K" "skb_wf orig" "off \<le> length (sb_bytes orig)"
    and run: "\<not> sp_paused (rx_strp r)" and inv: "strp_inv parse_len hdr mx (rx_strp r)"
    and frames: "fr mx (pending (rx_strp r) @ drop off (sb_bytes orig)) = (ms, st)"
    and ok: "st \<noteq> Undersized"
  defines "L \<equiv> int (length (sb_bytes orig)) - int off"
  shows "\<exists>r' hs e. strp_recv_desc H K mx timeo r orig off L = Some (r', e) \<and>
           map msg_bytes hs = ms \<and> rx_up r' = deliver_all hs (rx_up r) \<and> run_ends mx st r' r e L"
proof (cases "sp_head (rx_strp r)")
  case None
  then have "strp_prepare K r orig off = Inr (r, orig, off)" by (simp add: strp_prepare_def)
  moreover have "fr mx (drop (off + nat 0) (sb_bytes orig)) = (ms, st)"
    using frames None by (simp add: pending_def)
  moreover have "0 \<le> L" using assms(3) by (simp add: L_def)
  ultimately obtain r' hs e where
    "strp_loop (nat L + 1) H K mx timeo orig off L 0 0 r = Some (r', e)" "map msg_bytes hs = ms"
    "rx_up r' = deliver_all hs (rx_up r)" "run_ends mx st r' r e L"
    using loop_fresh [OF assms(1-3) meta_eq_to_obj_eq [OF L_def] ok _ _ _ run None,
        where eaten = 0 and n = "nat L + 1" and i = 0] by fastforce
  with \<open>strp_prepare K r orig off = Inr (r, orig, off)\<close> run show ?thesis
    by (auto simp: strp_recv_desc_def)
next
  case (Some h)
  then have hi: "head_inv parse_len hdr mx h" using inv by (simp add: strp_inv_def)
  from prepare_ok [OF assms(1-3) Some this] obtain r1 orig1 h1 where
    P: "strp_prepare K r orig off = Inr (r1, orig1, 0)" "skb_wf orig1"
    "sb_bytes orig1 = drop off (sb_bytes orig)" "sp_head (rx_strp r1) = Some h1"
    "head_inv parse_len hdr mx h1" "skb_view h1 = skb_view h" "same_upper r1 r" "still_running r1 r"
    by blast
  have L: "L = int (length (sb_bytes orig1))" using P assms(3) by (simp add: L_def)
  have np: "\<not> sp_paused (rx_strp r1)" using P run by (simp add: same_upper_def)
  have f1: "fr mx (skb_view h1 @ sb_bytes orig1) = (ms, st)"
    using frames Some P by (simp add: pending_def)
  show ?thesis
  proof (cases "sb_bytes orig1 = []")
    case True
    have "fr mx (skb_view h1) = ([], Pending (skb_view h1))"
      using P(5) by (auto simp: frames_pending_iff head_inv_def split: if_splits)
    with True f1 P L run Some show ?thesis
      by (auto simp: strp_recv_desc_def run_ends_def strp_bump_def pending_def strp_inv_def
          same_upper_def still_running_def intro!: exI [of _ "[]"])
  next
    case False
    from loop_append [OF assms(1) P(2) False np P(4,5) f1 ok, of timeo]
    obtain r2 hs e where
      "strp_loop (nat L + 1) H K mx timeo orig1 0 L 0 0 r1 = Some (r2, e)" "map msg_bytes hs = ms"
      "rx_up r2 = deliver_all hs (rx_up r1)" "run_ends mx st r2 r1 e L"
      unfolding L by blast
    with P run run_ends_mono [OF P(8)] show ?thesis
      by (auto simp: strp_recv_desc_def same_upper_def)
  qed
qed

text \<open>
  Segmentation does not matter: whatever the segments, the messages delivered are those
  of the framing of the whole stream.
\<close>

theorem strp_feed_frames:
  assumes "\<forall>sg\<in>set sgs. seg_ok sg" and "sp_sk (rx_strp r) = Some k"
    and "\<not> sp_paused (rx_strp r)" and "strp_inv parse_len hdr (ls_rcvbuf k) (rx_strp r)"
    and "fr (ls_rcvbuf k) (pending (rx_strp r) @ concat (map seg_bytes sgs)) = (ms, Pending p)"
  shows "\<exists>r' hs. strp_feed H r sgs = Some (Inr r') \<and> map msg_bytes hs = ms \<and>
           rx_up r' = deliver_all hs (rx_up r) \<and> pending (rx_strp r') = p \<and>
           strp_inv parse_len hdr (ls_rcvbuf k) (rx_strp r') \<and>
           sp_stopped (rx_strp r') = sp_stopped (rx_strp r) \<and> rx_error r' = rx_error r"
  using assms
proof (induction sgs arbitrary: r ms)
  case Nil
  let ?p = "pending (rx_strp r)"
  have "fr (ls_rcvbuf k) ?p = ([], Pending ?p)"
    using Nil.prems(4) hdr_pos
    by (auto simp: frames_pending_iff strp_inv_def pending_def head_inv_def
        split: option.splits if_splits)
  with Nil show ?case by (auto intro!: exI [of _ "[]"])
next
  case (Cons sg sgs)
  let ?mx = "ls_rcvbuf k" and ?t = "concat (map seg_bytes sgs)"
  have "fr ?mx ((pending (rx_strp r) @ seg_bytes sg) @ ?t) = (ms, Pending p)"
    using Cons.prems(5) by simp
  then obtain ms1 p1 where
    F: "fr ?mx (pending (rx_strp r) @ seg_bytes sg) = (ms1, Pending p1)"
    "ms = ms1 @ fst (fr ?mx (p1 @ ?t))" "snd (fr ?mx (p1 @ ?t)) = Pending p"
    by (rule frames_prefix_pending)
  have ok: "seg_ok sg" using Cons.prems(1) by simp
  then have "kernel_ok (sg_kernel sg)" "skb_wf (sg_skb sg)"
    "sg_off sg \<le> length (sb_bytes (sg_skb sg))" by (simp_all add: seg_ok_def)
  from strp_recv_frames [OF this Cons.prems(3,4) F(1) [unfolded seg_bytes_def], of "ls_rcvtimeo k"] ok
  obtain r1 hs1 e where
    R: "strp_recv H r sg = Some (Inr (r1, e))" "map msg_bytes hs1 = ms1"
    "rx_up r1 = deliver_all hs1 (rx_up r)" "run_ends ?mx (Pending p1) r1 r e (sg_len sg)"
    using Cons.prems(2) by (fastforce simp: strp_recv_def seg_ok_def)
  have "fr ?mx (pending (rx_strp r1) @ ?t) = (fst (fr ?mx (p1 @ ?t)), Pending p)"
    using R(4) F(3) by (simp add: run_ends_def prod_eq_iff)
  from Cons.IH [OF _ _ _ _ this] R(4) Cons.prems
  obtain r' hs where
    "strp_feed H r1 sgs = Some (Inr r')" "map msg_bytes hs = fst (fr ?mx (p1 @ ?t))"
    "rx_up r' = deliver_all hs (rx_up r1)" "pending (rx_strp r') = p"
    "strp_inv parse_len hdr ?mx (rx_strp r')"
    "sp_stopped (rx_strp r') = sp_stopped (rx_strp r)" "rx_error r' = rx_error r"
    by (auto simp: run_ends_def still_running_def)
  with R F show ?case
    by (auto intro!: exI [of _ "hs1 @ hs"])
qed

end

end
