(* ===== verification/Memcached.thy ===== *)
theory Memcached
  imports Framing
begin

text \<open>
  The request format of the plain-TCP variant: \<open>struct binary_header_t\<close> of
  \<open>rakaia/plain-tcp/rakaia.h\<close>, the parse callback \<open>rakaia_parse_func_strparser\<close> of
  \<open>rakaiasock.c\<close>, and the BPF parser of \<open>bench/servers/memcache-id_kern.c\<close> that the
  callback says it imitates. The callback is an instance of the message format
  interface, so the framing theorems of the stream parser hold for it.
\<close>

section \<open>The header\<close>

definition CMD_SET :: u8 where "CMD_SET = 0x01"

text \<open>Offsets in the packed structure: 1, 1, 4, 2, 1, 1, 2, 4, 4 and 8 bytes.\<close>

record binary_header_t =
  bh_magic :: u8
  bh_opcode :: u8
  bh_id :: u32
  bh_key_len :: u16
  bh_extra_len :: u8
  bh_data_type :: u8
  bh_vbucket :: u16
  bh_body_len :: u32
  bh_opaque :: u32
  bh_version :: "u8 list"

definition sizeof_binary_header :: nat where
  "sizeof_binary_header = 1 + 1 + 4 + 2 + 1 + 1 + 2 + 4 + 4 + 8"

definition read_binary_header :: "bytes \<Rightarrow> binary_header_t" where
  "read_binary_header s =
     \<lparr>bh_magic = s ! 0, bh_opcode = s ! 1,
      bh_id = be32 (s ! 2) (s ! 3) (s ! 4) (s ! 5),
      bh_key_len = be16 (s ! 6) (s ! 7), bh_extra_len = s ! 8, bh_data_type = s ! 9,
      bh_vbucket = be16 (s ! 10) (s ! 11),
      bh_body_len = be32 (s ! 12) (s ! 13) (s ! 14) (s ! 15),
      bh_opaque = be32 (s ! 16) (s ! 17) (s ! 18) (s ! 19),
      bh_version = take 8 (drop 20 s)\<rparr>"

text \<open>The length the parser returns: 32-bit unsigned arithmetic, then read as \<open>int\<close>.\<close>

definition mc_total_len :: "binary_header_t \<Rightarrow> int" where
  "mc_total_len h =
     (let header_len = (of_nat sizeof_binary_header :: u32)
      in if bh_opcode h = CMD_SET then sint (header_len + bh_body_len h)
         else sint (header_len + ucast (bh_key_len h) + ucast (bh_extra_len h)))"

text \<open>The scratch slot of the control block, read as \<open>int\<close>.\<close>

definition cb_int :: "cb_slot \<Rightarrow> int" where
  "cb_int c = (case c of CbOffset n \<Rightarrow> n | CbPsock p \<Rightarrow> sint (word_of_nat p :: u32) | CbRaw \<Rightarrow> 0)"

definition rakaia_parse_func_strparser :: "'a sk_buff_scheme \<Rightarrow> int" where
  "rakaia_parse_func_strparser skb =
     (case skb_header_pointer skb (cb_int (sb_cb0 skb)) sizeof_binary_header of
        None \<Rightarrow> 0
      | Some hdr \<Rightarrow> mc_total_len (read_binary_header hdr))"

definition plain_hooks ::
  "('a sk_buff_scheme \<Rightarrow> 'u \<Rightarrow> 'u) \<Rightarrow> ('a, 'u) strp_hooks" where
  "plain_hooks rcv =
     \<lparr>h_parse = strp_call_parse rakaia_parse_func_strparser, h_clear = clear_strp_msg,
      h_deliver = (\<lambda>h u. (rcv h u, False)), h_abort = strp_abort_strp,
      h_done = default_read_sock_done\<rparr>"

text \<open>The same length as a function of the bytes that start at the message.\<close>

definition mc_len :: "bytes \<Rightarrow> int" where
  "mc_len s = (if length s < sizeof_binary_header then 0
               else mc_total_len (read_binary_header (take sizeof_binary_header s)))"

section \<open>The BPF parser\<close>

text \<open>
  \<open>bpf_skb_load_bytes\<close> copies bytes in memory order; on the little-endian target a
  multi-byte load is read with its first byte lowest, and \<open>bpf_ntohs\<close> swaps the low two
  bytes of its argument. \<open>body_len\<close> is loaded as eight bytes.
\<close>

definition bpf_load :: "'a sk_buff_scheme \<Rightarrow> int \<Rightarrow> nat \<Rightarrow> bytes option" where
  "bpf_load skb off n = skb_header_pointer skb off n"

definition memcached_rakaia :: "'a sk_buff_scheme \<Rightarrow> int" where
  "memcached_rakaia skb =
     (let o' = cb_int (sb_cb0 skb); header_len = int sizeof_binary_header in
      case bpf_load skb (o' + 6) 2 of None \<Rightarrow> 0 | Some key_len \<Rightarrow>
      case bpf_load skb (o' + 8) 1 of None \<Rightarrow> 0 | Some extra_len \<Rightarrow>
      case bpf_load skb (o' + 12) 8 of None \<Rightarrow> 0 | Some body_len \<Rightarrow>
      case bpf_load skb (o' + 1) 1 of None \<Rightarrow> 0 | Some opcode \<Rightarrow>
        if opcode ! 0 = CMD_SET then header_len + int (unat (be16 (body_len ! 0) (body_len ! 1)))
        else header_len + int (unat (be16 (key_len ! 0) (key_len ! 1))) +
               int (unat (be16 (extra_len ! 0) 0)))"

section \<open>The callback as a message format\<close>

lemma sizeof_binary_header [simp]: "sizeof_binary_header = 28"
  by (simp add: sizeof_binary_header_def)

lemma parse_callback_view:
  assumes "0 \<le> sb_offset h"
  shows "rakaia_parse_func_strparser (h\<lparr>sb_cb0 := CbOffset (sb_offset h)\<rparr>) = mc_len (skb_view h)"
  using assms
  by (auto simp: rakaia_parse_func_strparser_def mc_len_def skb_header_pointer_def cb_int_def
      skb_view_def)

interpretation mc: msg_format mc_len 28
  by unfold_locales (simp_all add: mc_len_def)

interpretation plain: strp_client mc_len 28 "plain_hooks rcv" for rcv
proof unfold_locales
  fix h h' :: "'a sk_buff_scheme" and n
  assume "0 \<le> sb_offset h" "h_parse (plain_hooks rcv) h = (h', n)"
  then show "n = mc_len (skb_view h) \<and> sb_bytes h' = sb_bytes h \<and> sb_len h' = sb_len h \<and>
      sb_offset h' = sb_offset h \<and> sb_accum_len h' = sb_accum_len h \<and> sb_next h' = sb_next h \<and>
      (n = 0 \<longrightarrow> sb_full_len h' = sb_full_len h)"
    by (auto simp: plain_hooks_def strp_call_parse_def Let_def parse_callback_view)
qed (simp_all add: plain_hooks_def clear_strp_msg_def)

lemma plain_strp_init:
  "strp_init sk (Some \<lparr>cb_parse_msg = Some rakaia_parse_func_strparser,
       cb_rcv_msg = Some (\<lambda>h u. (rcv h u, False)), cb_read_sock_done = None,
       cb_abort_parser = None, cb_lock = False, cb_unlock = False\<rparr>) =
     (if sk = None then Inl (- EINVAL) else Inr (zero_strp sk, plain_hooks rcv))"
  by (simp add: strp_init_def plain_hooks_def)

section \<open>Sample data\<close>

text \<open>A GET and a SET request without key, extras and body, and a SET whose body length is \<open>2\<^sup>3\<^sup>2 - 28\<close>.\<close>

definition get_msg :: bytes where "get_msg = [0x80, 0] @ replicate 26 0"

definition set_wrap_msg :: bytes where
  "set_wrap_msg = [0x80, 1] @ replicate 10 0 @ [0xFF, 0xFF, 0xFF, 0xE4] @ replicate 12 0"

definition set_neg_msg :: bytes where
  "set_neg_msg = [0x80, 1] @ replicate 10 0 @ [0x80, 0, 0, 0] @ replicate 12 0"

lemma get_msg_list: "get_msg = [0x80, 0,0,0,0,0,0,0,0,0, 0,0,0,0,0,0,0,0,0,0,0,0,0,0,0,0,0,0]"
  by (simp add: get_msg_def numeral_eq_Suc)

lemma set_wrap_msg_list:
  "set_wrap_msg = [0x80, 1,0,0,0,0,0,0,0,0,0,0, 0xFF, 0xFF, 0xFF, 0xE4, 0,0,0,0,0,0,0,0,0,0,0,0]"
  by (simp add: set_wrap_msg_def numeral_eq_Suc)

lemma set_neg_msg_list:
  "set_neg_msg = [0x80, 1,0,0,0,0,0,0,0,0,0,0, 0x80, 0, 0, 0, 0,0,0,0,0,0,0,0,0,0,0,0]"
  by (simp add: set_neg_msg_def numeral_eq_Suc)

lemmas mc_len_eval =
  mc_len_def mc_total_len_def read_binary_header_def CMD_SET_def be16_def be32_def Let_def

lemma get_msg_len [simp]: "length get_msg = 28" "mc_len (get_msg @ t) = 28"
  by (simp add: get_msg_def) (simp add: mc_len_eval get_msg_list)

lemma set_neg_msg_len [simp]: "length set_neg_msg = 28" "mc_len (set_neg_msg @ t) = - 2147483620"
  by (simp add: set_neg_msg_def) (simp add: mc_len_eval set_neg_msg_list)

lemma get_msg_frames:
  "frames mc_len 28 4096 (get_msg @ get_msg) = ([get_msg, get_msg], Pending [])"
  "frames mc_len 28 4096 (get_msg @ set_neg_msg) = ([get_msg], Bad (- 2147483620))"
  using get_msg_len(2) [of "[]"] set_neg_msg_len(2) [of "[]"] by (simp_all add: frames.simps)

definition sample_skb :: "bytes \<Rightarrow> sk_buff" where
  "sample_skb bs =
     \<lparr>sb_bytes = bs, sb_len = int (length bs), sb_data_len = 0, sb_truesize = 768, sb_frag_list = False,
      sb_next = False, sb_cb0 = CbRaw, sb_full_len = 0, sb_offset = 0, sb_accum_len = 0\<rparr>"

definition sample_lower :: lower_sock where
  "sample_lower = \<lparr>ls_err = 0, ls_reports = 0, ls_rcvbuf = 4096, ls_rcvtimeo = 0\<rparr>"

definition sample_rx :: "(unit, bytes list) rx" where
  "sample_rx = \<lparr>rx_strp = zero_strp (Some sample_lower), rx_error = 0, rx_count = 1, rx_up = []\<rparr>"

lemma sample_rx_ok [simp]:
  "\<not> sp_paused (rx_strp sample_rx)" "strp_inv parse hdr mx (rx_strp sample_rx)"
  "pending (rx_strp sample_rx) = []" "sp_sk (rx_strp sample_rx) = Some sample_lower"
  "rx_up sample_rx = []" "\<not> sp_stopped (rx_strp sample_rx)" "rx_error sample_rx = 0"
  by (simp_all add: sample_rx_def zero_strp_def strp_inv_def pending_def)

lemma sample_skb_ok [simp]: "skb_wf (sample_skb bs)" "sb_bytes (sample_skb bs) = bs"
  by (simp_all add: sample_skb_def skb_wf_def)

section \<open>Correctness of the plain parser\<close>

lemma plain_deliver: "fold (\<lambda>h u. fst (h_deliver (plain_hooks rcv) h u)) hs u = fold rcv hs u"
  by (induction hs arbitrary: u) (simp_all add: plain_hooks_def)

text \<open>
  C1. A call of \<open>__strp_recv\<close> with the memcached callback returns, consumes the whole segment
  and delivers exactly the messages that the framing cuts from the pending bytes and the
  segment, in order and once each; what the framing leaves incomplete is kept for the next
  call, and the parser's invariant holds again.
\<close>

theorem plain_recv_frames:
  assumes "kernel_ok K" "skb_wf orig" "off \<le> length (sb_bytes orig)"
    and "\<not> sp_paused (rx_strp r)" "strp_inv mc_len 28 mx (rx_strp r)"
    and "frames mc_len 28 mx (pending (rx_strp r) @ drop off (sb_bytes orig)) = (ms, Pending p)"
  shows "\<exists>r' hs. strp_recv_desc (plain_hooks rcv) K mx timeo r orig off
           (int (length (sb_bytes orig)) - int off) =
             Some (r', int (length (sb_bytes orig)) - int off) \<and>
           map msg_bytes hs = ms \<and> rx_up r' = fold rcv hs (rx_up r) \<and>
           pending (rx_strp r') = p \<and> strp_inv mc_len 28 mx (rx_strp r') \<and>
           sp_stopped (rx_strp r') = sp_stopped (rx_strp r) \<and> rx_error r' = rx_error r"
  using plain.strp_recv_frames [OF assms, where timeo = timeo and rcv = rcv]
  by (auto simp: plain.run_ends_def plain.still_running_def plain_deliver)

theorem plain_recv_frames_witness:
  "\<exists>r'. strp_recv_desc (plain_hooks (\<lambda>h u. u @ [msg_bytes h])) ideal_kernel 4096 0 sample_rx
      (sample_skb (get_msg @ get_msg)) 0 56 = Some (r', 56) \<and>
    rx_up r' = [get_msg, get_msg] \<and> pending (rx_strp r') = []"
  using plain_recv_frames [of ideal_kernel "sample_skb (get_msg @ get_msg)" 0 sample_rx 4096
      "[get_msg, get_msg]" "[]" "\<lambda>h u. u @ [msg_bytes h]" 0]
  by (auto simp: get_msg_frames)

text \<open>
  C5. The messages do not depend on how TCP cuts the stream into segments: feeding the
  segments one by one delivers exactly the messages of the framing of their concatenation.
\<close>

theorem plain_feed_frames:
  assumes "\<forall>sg \<in> set sgs. seg_ok sg" "sp_sk (rx_strp r) = Some k"
    and "\<not> sp_paused (rx_strp r)" "strp_inv mc_len 28 (ls_rcvbuf k) (rx_strp r)"
    and "frames mc_len 28 (ls_rcvbuf k) (pending (rx_strp r) @ concat (map seg_bytes sgs)) = (ms, Pending p)"
  shows "\<exists>r' hs. strp_feed (plain_hooks rcv) r sgs = Some (Inr r') \<and> map msg_bytes hs = ms \<and>
           rx_up r' = fold rcv hs (rx_up r) \<and> pending (rx_strp r') = p \<and>
           sp_stopped (rx_strp r') = sp_stopped (rx_strp r) \<and> rx_error r' = rx_error r"
  using plain.strp_feed_frames [OF assms, of rcv] by (auto simp: plain_deliver)

definition sample_seg :: "bytes \<Rightarrow> nat \<Rightarrow> unit segment" where
  "sample_seg bs off =
     \<lparr>sg_skb = sample_skb bs, sg_off = off, sg_len = int (length bs) - int off, sg_kernel = ideal_kernel\<rparr>"

lemma sample_seg_ok [simp]:
  "off \<le> length bs \<Longrightarrow> seg_ok (sample_seg bs off)" "seg_bytes (sample_seg bs off) = drop off bs"
  by (simp_all add: seg_ok_def seg_bytes_def sample_seg_def)

theorem plain_feed_frames_witness:
  "\<exists>r'. strp_feed (plain_hooks (\<lambda>h u. u @ [msg_bytes h])) sample_rx
      [sample_seg (take 5 get_msg) 0, sample_seg (take 7 get_msg @ drop 5 get_msg @ get_msg) 7] = Some (Inr r') \<and>
    rx_up r' = [get_msg, get_msg] \<and> pending (rx_strp r') = []"
  using plain_feed_frames [of "[sample_seg (take 5 get_msg) 0, sample_seg (take 7 get_msg @ drop 5 get_msg @ get_msg) 7]"
      sample_rx sample_lower "[get_msg, get_msg]" "[]" "\<lambda>h u. u @ [msg_bytes h]"]
    get_msg_frames(1)
  by (auto simp: sample_lower_def append_assoc [symmetric] simp del: append_assoc)

text \<open>
  C12. When the stream holds a length the parser refuses (negative, or above the receive
  buffer), the messages before it are still delivered, the message in progress is dropped,
  the parser is stopped for good and the call ends with the error.
\<close>

theorem plain_recv_bad:
  assumes "kernel_ok K" "skb_wf orig" "off \<le> length (sb_bytes orig)"
    and "\<not> sp_paused (rx_strp r)" "strp_inv mc_len 28 mx (rx_strp r)"
    and "frames mc_len 28 mx (pending (rx_strp r) @ drop off (sb_bytes orig)) = (ms, Bad b)"
  shows "\<exists>r' hs e. strp_recv_desc (plain_hooks rcv) K mx timeo r orig off
           (int (length (sb_bytes orig)) - int off) = Some (r', e) \<and>
           map msg_bytes hs = ms \<and> rx_up r' = fold rcv hs (rx_up r) \<and>
           sp_head (rx_strp r') = None \<and> sp_stopped (rx_strp r') \<and>
           (rx_error r' = b \<or> b = - ESTRPIPE \<and> rx_error r' = - ENODATA)"
  using plain.strp_recv_frames [OF assms, where timeo = timeo and rcv = rcv]
  by (auto simp: plain.run_ends_def plain.aborted_with_def plain_deliver)

theorem plain_recv_bad_witness:
  "\<exists>r' e. strp_recv_desc (plain_hooks (\<lambda>h u. u @ [msg_bytes h])) ideal_kernel 4096 0 sample_rx
      (sample_skb (get_msg @ set_neg_msg)) 0 56 = Some (r', e) \<and>
    rx_up r' = [get_msg] \<and> sp_stopped (rx_strp r') \<and> rx_error r' = - 2147483620"
  using plain_recv_bad [of ideal_kernel "sample_skb (get_msg @ set_neg_msg)" 0 sample_rx 4096
      "[get_msg]" "- 2147483620" "\<lambda>h u. u @ [msg_bytes h]" 0]
  by (auto simp: get_msg_frames)

section \<open>The length a header gives\<close>

lemma unat_u32_bound: "unat (w :: u32) < 2 ^ 32"
  using unsigned_less [of w, where 'a = nat] by simp

lemma sint_u32: "sint (w :: u32) = (if unat w < 2 ^ 31 then int (unat w) else int (unat w) - 2 ^ 32)"
proof -
  define n where "n = int (unat w)"
  have n: "0 \<le> n" "n < 2 ^ 32" using unsigned_less [of w, where 'a = int] by (simp_all add: n_def)
  have sint: "sint w = (n + 2 ^ 31) mod 2 ^ 32 - 2 ^ 31"
    using int_word_sint [of n, where 'a = 32] by (simp add: n_def)
  have iff: "unat w < 2 ^ 31 \<longleftrightarrow> n < 2 ^ 31" unfolding n_def by (metis of_nat_less_iff of_nat_numeral of_nat_power)
  show ?thesis
  proof (cases "n < 2 ^ 31")
    case True
    with n sint show ?thesis unfolding iff n_def [symmetric] by simp
  next
    case False
    have "(n + 2 ^ 31) mod 2 ^ 32 = ((n - 2 ^ 31) + 2 ^ 32) mod 2 ^ 32" by (simp add: add.commute)
    also have "\<dots> = n - 2 ^ 31" using n False by (simp only: mod_add_self2) simp
    finally show ?thesis using sint False unfolding iff n_def [symmetric] by simp
  qed
qed

lemma sint_header_plus:
  "sint (28 + b :: u32) = (if unat b < 2 ^ 31 - 28 then 28 + int (unat b) else 28 + int (unat b) - 2 ^ 32)"
  using unat_u32_bound [of b] by (auto simp: sint_u32 unat_word_ariths mod_if)

lemma sint_header_key:
  "sint (28 + ucast (k :: u16) + ucast (x :: u8) :: u32) = 28 + int (unat k) + int (unat x)"
proof -
  have "unat k < 65536" "unat x < 256"
    using unsigned_less [of k, where 'a = nat] unsigned_less [of x, where 'a = nat] by simp_all
  moreover have "unat (ucast k :: u32) = unat k" "unat (ucast x :: u32) = unat x"
    using calculation by (simp_all add: unsigned_ucast_eq take_bit_nat_eq_self)
  ultimately show ?thesis by (simp add: sint_u32 unat_word_ariths)
qed

lemma mc_len_value:
  assumes "28 \<le> length s"
  shows "mc_len s =
    (let h = read_binary_header (take 28 s) in
     if bh_opcode h = CMD_SET
     then (if unat (bh_body_len h) < 2 ^ 31 - 28 then 28 + int (unat (bh_body_len h))
           else 28 + int (unat (bh_body_len h)) - 2 ^ 32)
     else 28 + int (unat (bh_key_len h)) + int (unat (bh_extra_len h)))"
  using assms by (simp add: mc_len_def mc_total_len_def Let_def sint_header_plus sint_header_key)

text \<open>
  The length the in-kernel parser reads from a complete header. For every opcode but SET it
  is the header plus key and extras, exactly. For SET it is the header plus the body as long
  as the sum fits a signed 32-bit integer; above that it is \<open>2\<^sup>3\<^sup>2\<close> too small, so that it is
  negative (the connection is aborted) or, for the 28 largest body lengths, shorter than the
  header.
\<close>

theorem mc_len_exact:
  assumes "28 \<le> length s"
  shows "mc_len s =
    (let h = read_binary_header (take 28 s) in
     if bh_opcode h = CMD_SET
     then (if unat (bh_body_len h) < 2 ^ 31 - 28 then 28 + int (unat (bh_body_len h))
           else 28 + int (unat (bh_body_len h)) - 2 ^ 32)
     else 28 + int (unat (bh_key_len h)) + int (unat (bh_extra_len h)))"
  using assms by (rule mc_len_value)

theorem mc_len_exact_witness:
  "28 \<le> length set_wrap_msg \<and> mc_len set_wrap_msg = 0 \<and> mc_len set_neg_msg < 0"
  using mc_len_exact [of set_wrap_msg] mc_len_exact [of set_neg_msg]
  by (simp add: set_wrap_msg_list set_neg_msg_list read_binary_header_def CMD_SET_def unat_be32 be32_def)

lemma parse_at:
  assumes "0 \<le> off" "nat off + 28 \<le> length (sb_bytes skb)" "sb_cb0 skb = CbOffset off"
  shows "rakaia_parse_func_strparser skb = mc_len (drop (nat off) (sb_bytes skb))"
proof -
  have "\<not> length (drop (nat off) (sb_bytes skb)) < 28" using assms by simp
  with assms show ?thesis
    by (simp add: rakaia_parse_func_strparser_def mc_len_def skb_header_pointer_def cb_int_def del: length_drop)
qed

lemma be32_hi: "unat (be32 a b c d) div 65536 = unat a * 256 + unat b"
  using unat_u8_bound(1) [of c] unat_u8_bound(1) [of d] by (intro div_nat_eqI) (simp_all add: unat_be32)

lemma bpf_at:
  assumes "0 \<le> off" "nat off + 28 \<le> length (sb_bytes skb)" "sb_cb0 skb = CbOffset off"
  defines "h \<equiv> read_binary_header (take 28 (drop (nat off) (sb_bytes skb)))"
  shows "memcached_rakaia skb =
    (if bh_opcode h = CMD_SET then 28 + int (unat (bh_body_len h) div 2 ^ 16)
     else 28 + int (unat (bh_key_len h)) + 256 * int (unat (bh_extra_len h)))"
proof -
  have n: "nat (off + int k) = nat off + k" for k using assms(1) by simp
  show ?thesis
    using assms(1-3) n [of 6] n [of 8] n [of 12] n [of 1]
    by (simp add: memcached_rakaia_def bpf_load_def skb_header_pointer_def cb_int_def h_def
        read_binary_header_def unat_be16 be32_hi Let_def add.commute)
qed

text \<open>
  C36. The parse callback says it returns the length exactly like the BPF program. On a buffer
  with a complete header the two agree only if a SET has no body and any other request has no
  extras: the BPF program byte-swaps the one-byte extras length and the upper half of the
  body length.
\<close>

theorem bpf_parser_agrees_iff:
  assumes "0 \<le> off" "nat off + 28 \<le> length (sb_bytes skb)" "sb_cb0 skb = CbOffset off"
  shows "memcached_rakaia skb = rakaia_parse_func_strparser skb \<longleftrightarrow>
    (let h = read_binary_header (take 28 (drop (nat off) (sb_bytes skb))) in
     if bh_opcode h = CMD_SET then bh_body_len h = 0 else bh_extra_len h = 0)"
proof -
  let ?s = "drop (nat off) (sb_bytes skb)"
  let ?h = "read_binary_header (take 28 ?s)"
  have l: "28 \<le> length ?s" using assms by simp
  have b: "unat (bh_body_len ?h) < 2 ^ 32" by (rule unat_u32_bound)
  have "28 + int (n div 2 ^ 16) = (if n < 2 ^ 31 - 28 then 28 + int n else 28 + int n - 2 ^ 32) \<longleftrightarrow> n = 0"
    if "n < 2 ^ 32" for n :: nat
    using that by (auto simp: div_eq_dividend_iff split: if_splits)
  from this [OF b] have "28 + int (unat (bh_body_len ?h) div 2 ^ 16) =
      (if unat (bh_body_len ?h) < 2 ^ 31 - 28 then 28 + int (unat (bh_body_len ?h))
       else 28 + int (unat (bh_body_len ?h)) - 2 ^ 32) \<longleftrightarrow> bh_body_len ?h = 0"
    by (simp only: unat_eq_zero)
  then show ?thesis
    unfolding bpf_at [OF assms] parse_at [OF assms] mc_len_value [OF l] Let_def
    by (auto simp: uint_0_iff)
qed

theorem bpf_parser_agrees_iff_witness:
  "memcached_rakaia ((sample_skb get_msg)\<lparr>sb_cb0 := CbOffset 0\<rparr>) =
     rakaia_parse_func_strparser ((sample_skb get_msg)\<lparr>sb_cb0 := CbOffset 0\<rparr>) \<and>
   memcached_rakaia ((sample_skb set_neg_msg)\<lparr>sb_cb0 := CbOffset 0\<rparr>) \<noteq>
     rakaia_parse_func_strparser ((sample_skb set_neg_msg)\<lparr>sb_cb0 := CbOffset 0\<rparr>)"
  using bpf_parser_agrees_iff [of 0 "(sample_skb get_msg)\<lparr>sb_cb0 := CbOffset 0\<rparr>"]
    bpf_parser_agrees_iff [of 0 "(sample_skb set_neg_msg)\<lparr>sb_cb0 := CbOffset 0\<rparr>"]
  by (simp add: get_msg_list set_neg_msg_list read_binary_header_def CMD_SET_def be32_def)

section \<open>A length that wraps to zero\<close>

lemma set_wrap_zero: "mc_len (set_wrap_msg @ t) = 0"
  by (simp add: mc_len_eval set_wrap_msg_list)

lemma recv_length_zero:
  assumes "kernel_ok K" "skb_wf orig" "sb_bytes orig \<noteq> []" "mc_len (sb_bytes orig) = 0"
    and "\<not> sp_paused (rx_strp r)" "sp_head (rx_strp r) = None"
  shows "\<exists>r'. strp_recv_desc (plain_hooks rcv) K mx timeo r orig 0 (int (length (sb_bytes orig))) =
      Some (r', int (length (sb_bytes orig))) \<and> rx_up r' = rx_up r \<and>
      pending (rx_strp r') = sb_bytes orig \<and> sp_stopped (rx_strp r') = sp_stopped (rx_strp r) \<and>
      rx_error r' = rx_error r"
proof -
  obtain c where c: "k_clone K 0 orig = Some c" "same_buffer c orig"
    using kernel_okD(2) [OF assms(1)] by blast
  let ?h = "(clear_strp_msg c)\<lparr>sb_offset := 0\<rparr>"
  have v: "skb_view ?h = sb_bytes orig"
    using c by (simp add: skb_view_def clear_strp_msg_def same_buffer_def)
  have p: "rakaia_parse_func_strparser (?h\<lparr>sb_cb0 := CbOffset 0\<rparr>) = 0"
    using parse_callback_view [of ?h] assms(4) v by simp
  have a: "strp_attach (plain_hooks rcv) K 0 r c 0 0 =
      Inr (r\<lparr>rx_strp := (rx_strp r)\<lparr>sp_head := Some ?h, sp_nextp := False\<rparr>\<rparr>, ?h)"
    using assms(6) by (simp add: strp_attach_def plain_hooks_def Let_def)
  show ?thesis
    using assms v a p c
    by (simp add: strp_recv_desc_def strp_prepare_def strp_loop.simps strp_round_def strp_length_def
        plain_hooks_def strp_call_parse_def clear_strp_msg_def strp_bump_def strp_set_head_def
        strp_msg_timer_def strp_start_timer_def pending_def Let_def)
qed

text \<open>
  C37. A SET header whose body length is \<open>2\<^sup>3\<^sup>2 - 28\<close> makes the length wrap to zero, which the
  stream parser takes for an incomplete header: whatever follows the header in the segment is
  swallowed into one pending message, nothing is delivered, and the connection is neither
  stopped nor is an error reported.
\<close>

theorem wrapped_length_stalls:
  assumes "kernel_ok K" "skb_wf orig" "sb_bytes orig = set_wrap_msg @ t"
    and "\<not> sp_paused (rx_strp r)" "sp_head (rx_strp r) = None"
  shows "\<exists>r'. strp_recv_desc (plain_hooks rcv) K mx timeo r orig 0 (int (length (sb_bytes orig))) =
      Some (r', int (length (sb_bytes orig))) \<and> rx_up r' = rx_up r \<and>
      pending (rx_strp r') = set_wrap_msg @ t \<and> sp_stopped (rx_strp r') = sp_stopped (rx_strp r) \<and>
      rx_error r' = rx_error r"
  using recv_length_zero [OF assms(1,2) _ _ assms(4,5)] set_wrap_zero assms(3)
  by (simp add: set_wrap_msg_def)

theorem wrapped_length_stalls_witness:
  "\<exists>r'. strp_recv_desc (plain_hooks (\<lambda>h u. u @ [msg_bytes h])) ideal_kernel 4096 0 sample_rx
      (sample_skb (set_wrap_msg @ get_msg)) 0 56 = Some (r', 56) \<and> rx_up r' = [] \<and>
    \<not> sp_stopped (rx_strp r') \<and> rx_error r' = 0"
  using wrapped_length_stalls [of ideal_kernel "sample_skb (set_wrap_msg @ get_msg)" get_msg sample_rx
      "\<lambda>h u. u @ [msg_bytes h]" 4096 0]
  by (auto simp: set_wrap_msg_def sample_rx_def zero_strp_def)

end
