(* ===== verification/Rakaia_State.thy ===== *)
theory Rakaia_State
  imports Memcached
begin

text \<open>
  The state of the module: \<open>struct rakaia_sock\<close> and the global \<open>struct rakaia\<close> of
  \<open>rakaia/plain-tcp/rakaia.h\<close>. Sockets live in a store indexed by their address, so
  that the array of socket pointers and the intrusive list of waiting sockets may hold
  pointers to sockets that are gone; following such a pointer is a fault.
\<close>

definition NUM_RAKAIA_SOCKETS :: nat where "NUM_RAKAIA_SOCKETS = 20"

datatype sock_type = SOCK_DGRAM | SOCK_SEQPACKET | SOCK_OTHER

record rakaia_sock =
  k_index :: int
  k_rx_q :: "sk_buff list"
  k_recvq :: "sk_buff list"
  k_writeq :: "sk_buff list"
  k_rmem_alloc :: int
  k_rcvbuf :: int
  k_mem_charged :: int
  k_wmem_queued :: int
  k_dead :: bool
  k_wakeups :: nat
  k_err :: int
  k_send_shutdown :: bool
  k_last_psock :: "nat option"
  k_msg_cnt :: u64
  k_accumu_cnt :: u64
  k_snd_cnt :: u64
  k_steal_cnt :: u64

record rakaia =
  r_socks :: "nat option list"
  r_cnt :: int
  r_heap :: "nat \<Rightarrow> rakaia_sock option"
  r_waiters :: "nat list"
  r_waiters_bm :: bitmap
  r_rx_nonempty_bm :: bitmap
  r_all_msg_rcv_cnt :: u64
  r_push_cnt :: u64
  r_snd_cnt :: u64
  r_accumu_cnt :: u64
  r_all_msg_cnt :: u64
  r_all_steal_cnt :: u64
  r_psock_list :: "nat list"

text \<open>The module after \<open>rakaia_init\<close>: no socket, empty lists, zeroed bitmaps and counters.\<close>

definition rakaia_data_init :: rakaia where
  "rakaia_data_init =
     \<lparr>r_socks = replicate NUM_RAKAIA_SOCKETS None, r_cnt = 0, r_heap = (\<lambda>_. None),
      r_waiters = [], r_waiters_bm = 0, r_rx_nonempty_bm = 0, r_all_msg_rcv_cnt = 0,
      r_push_cnt = 0, r_snd_cnt = 0, r_accumu_cnt = 0, r_all_msg_cnt = 0, r_all_steal_cnt = 0,
      r_psock_list = []\<rparr>"

section \<open>Following pointers\<close>

definition deref :: "rakaia \<Rightarrow> nat \<Rightarrow> fault + rakaia_sock" where
  "deref rk a = (case r_heap rk a of None \<Rightarrow> Inl UseAfterFree | Some k \<Rightarrow> Inr k)"

definition sock_slot :: "rakaia \<Rightarrow> int \<Rightarrow> fault + nat \<times> rakaia_sock" where
  "sock_slot rk i =
     (if 0 \<le> i \<and> nat i < length (r_socks rk)
      then (case r_socks rk ! nat i of
              None \<Rightarrow> Inl NullDeref
            | Some a \<Rightarrow> (case deref rk a of Inl f \<Rightarrow> Inl f | Inr k \<Rightarrow> Inr (a, k)))
      else Inl OutOfBounds)"

definition upd_sock :: "nat \<Rightarrow> (rakaia_sock \<Rightarrow> rakaia_sock) \<Rightarrow> rakaia \<Rightarrow> rakaia" where
  "upd_sock a f rk = rk\<lparr>r_heap := (r_heap rk)(a := map_option f (r_heap rk a))\<rparr>"

lemma r_heap_upd_sock [simp]:
  "r_heap (upd_sock a f rk) b = (if b = a then map_option f (r_heap rk a) else r_heap rk b)"
  by (simp add: upd_sock_def)

lemma upd_sock_frame [simp]:
  "r_socks (upd_sock a f rk) = r_socks rk" "r_cnt (upd_sock a f rk) = r_cnt rk"
  "r_waiters (upd_sock a f rk) = r_waiters rk"
  "r_waiters_bm (upd_sock a f rk) = r_waiters_bm rk"
  "r_rx_nonempty_bm (upd_sock a f rk) = r_rx_nonempty_bm rk"
  "r_psock_list (upd_sock a f rk) = r_psock_list rk"
  "r_push_cnt (upd_sock a f rk) = r_push_cnt rk" "r_snd_cnt (upd_sock a f rk) = r_snd_cnt rk"
  "r_accumu_cnt (upd_sock a f rk) = r_accumu_cnt rk"
  "r_all_msg_cnt (upd_sock a f rk) = r_all_msg_cnt rk"
  "r_all_steal_cnt (upd_sock a f rk) = r_all_steal_cnt rk"
  by (simp_all add: upd_sock_def)

end
