(* ===== verification/Tx.thy ===== *)
theory Tx
  imports Tcp_Send Rakaia_State
begin

text \<open>
  The transmit path of \<open>rakaia/plain-tcp/rakaiasock.c\<close>. \<open>rakaia_sendmsg\<close> copies one
  message into buffers of its own (\<open>cur_msg\<close>), splices them onto the accumulation queue
  of the psock (\<open>tx_wait_queue\<close>) and calls \<open>try_send_from_psock\<close>, in which one thread at
  a time moves the accumulated buffers to the TCP write queue. The body of
  \<open>rakaia_sendmsg\<close> jumps between labels, so it is a step function on a program counter.
\<close>

section \<open>Building the message\<close>

text \<open>A page fragment: page, offset, size. Page numbers order pages by allocation.\<close>

type_synonym page_frag = "nat \<times> nat \<times> nat"

text \<open>
  What the kernel answers, indexed by the number of the step in which it is asked.
\<close>

record send_kernel =
  sd_mem_free :: "nat \<Rightarrow> bool"
  sd_alloc :: "nat \<Rightarrow> int option"
  sd_sched_new :: "nat \<Rightarrow> bool"
  sd_refill :: "nat \<Rightarrow> page_frag \<Rightarrow> page_frag option"
  sd_sched_copy :: "nat \<Rightarrow> int \<Rightarrow> bool"
  sd_copy :: "nat \<Rightarrow> int"
  sd_wait :: "nat \<Rightarrow> int"
  sd_max_frags :: nat

record send_st =
  sn_left :: bytes
  sn_cur :: "tx_skb list"
  sn_at :: nat
  sn_copy :: int
  sn_copied :: int
  sn_pfrag :: page_frag
  sn_wmem :: int
  sn_charge :: int
  sn_backlog :: int
  sn_tp :: tcp_sock
  sn_wait :: "tx_skb list"
  sn_nospace :: bool
  sn_tick :: nat

datatype send_pc = LoopHead | NewSegment | TryAppend | WaitForSpace | Out | DoError int

definition upd_cur :: "(tx_skb \<Rightarrow> tx_skb) \<Rightarrow> send_st \<Rightarrow> send_st" where
  "upd_cur f s = s\<lparr>sn_cur := (sn_cur s)[sn_at s := f (sn_cur s ! sn_at s)]\<rparr>"

text \<open>
  \<open>skb = skb_peek(&cur_msg)\<close> is the first buffer. \<open>size_goal - skb->len\<close> is an unsigned
  32-bit subtraction whose result is widened to \<open>ssize_t\<close>.
\<close>

definition send_loop_head :: "tcp_kernel \<Rightarrow> int \<Rightarrow> send_st \<Rightarrow> send_pc \<times> send_st" where
  "send_loop_head K size_goal s =
     (if sn_left s = [] then (Out, s)
      else
        (case sn_cur s of
           [] \<Rightarrow> (NewSegment, s)
         | skb # _ \<Rightarrow>
             (let copy = (size_goal - int (length (tx_data skb))) mod 2 ^ 32
              in if copy \<le> 0 \<or> \<not> tk_can_collapse_to K skb then (NewSegment, s\<lparr>sn_at := 0\<rparr>)
                 else (TryAppend, s\<lparr>sn_at := 0, sn_copy := copy\<rparr>))))"

definition new_tx_skb :: "int \<Rightarrow> bool \<Rightarrow> tx_skb" where
  "new_tx_skb truesize reserved =
     \<lparr>tx_data = [], tx_truesize = truesize, tx_seq = 0, tx_end_seq = 0, tx_tcp_flags = TCPHDR_ACK,
      tx_frags = [], tx_reserved = reserved, tx_tx_flags = 0, tx_txstamp_ack = False, tx_tskey = 0\<rparr>"

definition send_new_segment :: "send_kernel \<Rightarrow> int \<Rightarrow> send_st \<Rightarrow> send_pc \<times> send_st" where
  "send_new_segment D size_goal s =
     (if \<not> sd_mem_free D (sn_tick s) then (WaitForSpace, s)
      else
        (case sd_alloc D (sn_tick s) of
           None \<Rightarrow> (WaitForSpace, s)
         | Some ts \<Rightarrow>
             (TryAppend,
              s\<lparr>sn_cur := sn_cur s @ [new_tx_skb ts (sd_sched_new D (sn_tick s))],
                sn_at := length (sn_cur s), sn_backlog := sn_backlog s + 1,
                sn_wmem := sn_wmem s + ts, sn_charge := sn_charge s + ts,
                sn_tp := (if ts_nonagle (sn_tp s) AND TCP_NAGLE_PUSH \<noteq> 0
                          then (sn_tp s)\<lparr>ts_nonagle := ts_nonagle (sn_tp s) AND NOT TCP_NAGLE_PUSH\<rparr>
                          else sn_tp s),
                sn_copy := size_goal\<rparr>)))"

definition skb_can_coalesce :: "tx_skb \<Rightarrow> page_frag \<Rightarrow> bool" where
  "skb_can_coalesce skb pf =
     (case (tx_frags skb, pf) of
        ([], _) \<Rightarrow> False
      | (fs, (page, off, _)) \<Rightarrow> (case last fs of (p, o', n) \<Rightarrow> p = page \<and> o' + n = off))"

text \<open>
  \<open>skb_copy_to_page_nocache\<close> copies the bytes and adds them to the length and true size of
  the buffer and to the memory accounts of the socket; then the fragment list is updated.
\<close>

definition add_frag :: "bool \<Rightarrow> page_frag \<Rightarrow> nat \<Rightarrow> page_frag list \<Rightarrow> page_frag list" where
  "add_frag merge pf n fs =
     (if merge then butlast fs @ [(case last fs of (p, o', m) \<Rightarrow> (p, o', m + n))]
      else (case pf of (page, off, _) \<Rightarrow> fs @ [(page, off, n)]))"

definition append_data :: "bool \<Rightarrow> page_frag \<Rightarrow> nat \<Rightarrow> bytes \<Rightarrow> bool \<Rightarrow> tx_skb \<Rightarrow> tx_skb" where
  "append_data merge pf n bs first skb =
     skb\<lparr>tx_data := tx_data skb @ take n bs, tx_truesize := tx_truesize skb + int n,
         tx_frags := add_frag merge pf n (tx_frags skb),
         tx_tcp_flags := (if first then tx_tcp_flags skb AND NOT TCPHDR_PSH else tx_tcp_flags skb),
         tx_seq := tx_seq skb + word_of_nat n\<rparr>"

text \<open>The last byte is copied: the memory accounts are settled and the message is spliced.\<close>

definition send_splice :: "send_st \<Rightarrow> send_st" where
  "send_splice s =
     (let total = sum_list (map tx_truesize (sn_cur s))
      in s\<lparr>sn_wmem := sn_wmem s - total, sn_charge := sn_charge s - total,
           sn_wait := sn_wait s @ sn_cur s\<rparr>)"

definition send_append ::
  "tcp_kernel \<Rightarrow> send_kernel \<Rightarrow> send_st \<Rightarrow> send_pc \<times> send_st" where
  "send_append K D s =
     (let copy = min (sn_copy s) (int (length (sn_left s))) in
      case sd_refill D (sn_tick s) (sn_pfrag s) of
        None \<Rightarrow> (WaitForSpace, s)
      | Some pf \<Rightarrow>
          (let s1 = s\<lparr>sn_pfrag := pf\<rparr>; skb = sn_cur s ! sn_at s; merge = skb_can_coalesce skb pf in
           if \<not> merge \<and> length (tx_frags skb) \<ge> sd_max_frags D
           then (case tk_mark_push K (sn_tp s) skb of
                   (tp', skb') \<Rightarrow> (NewSegment, upd_cur (\<lambda>_. skb') (s1\<lparr>sn_tp := tp'\<rparr>)))
           else
             (case pf of (page, off, sz) \<Rightarrow>
               (let copy2 = min copy (int sz - int off) in
                if copy2 = 0 then (WaitForSpace, s1)
                else if \<not> sd_sched_copy D (sn_tick s) copy2 then (WaitForSpace, s1)
                else if sd_copy D (sn_tick s) \<noteq> 0 then (DoError (sd_copy D (sn_tick s)), s1)
                else
                  (let n = nat copy2;
                       s2 = upd_cur (append_data merge pf n (sn_left s) (sn_copied s = 0)) s1;
                       s3 = s2\<lparr>sn_left := drop n (sn_left s), sn_pfrag := (page, off + n, sz),
                               sn_copied := sn_copied s + copy2,
                               sn_wmem := sn_wmem s + copy2, sn_charge := sn_charge s + copy2\<rparr>
                   in if sn_left s3 = [] then (Out, send_splice s3) else (LoopHead, s3))))))"

definition send_wait :: "send_kernel \<Rightarrow> send_st \<Rightarrow> send_pc \<times> send_st" where
  "send_wait D s =
     (let s1 = s\<lparr>sn_nospace := True\<rparr>; err = sd_wait D (sn_tick s)
      in if err \<noteq> 0 then (DoError err, s1) else (LoopHead, s1))"

definition send_step ::
  "tcp_kernel \<Rightarrow> send_kernel \<Rightarrow> int \<Rightarrow> send_pc \<times> send_st \<Rightarrow> send_pc \<times> send_st" where
  "send_step K D size_goal c =
     (case c of (pc, s) \<Rightarrow>
        (case (case pc of
                 LoopHead \<Rightarrow> send_loop_head K size_goal s
               | NewSegment \<Rightarrow> send_new_segment D size_goal s
               | TryAppend \<Rightarrow> send_append K D s
               | WaitForSpace \<Rightarrow> send_wait D s
               | Out \<Rightarrow> (Out, s)
               | DoError e \<Rightarrow> (DoError e, s)) of
           (pc', s') \<Rightarrow> (pc', s'\<lparr>sn_tick := Suc (sn_tick s)\<rparr>)))"

definition send_ended :: "send_pc \<times> send_st \<Rightarrow> bool" where
  "send_ended c \<longleftrightarrow> (case fst c of Out \<Rightarrow> True | DoError _ \<Rightarrow> True | _ \<Rightarrow> False)"

fun send_run ::
  "nat \<Rightarrow> tcp_kernel \<Rightarrow> send_kernel \<Rightarrow> int \<Rightarrow> send_pc \<times> send_st \<Rightarrow> (send_pc \<times> send_st) option" where
  "send_run n K D size_goal c =
     (if send_ended c then Some c
      else (case n of 0 \<Rightarrow> None | Suc m \<Rightarrow> send_run m K D size_goal (send_step K D size_goal c)))"

declare send_run.simps [simp del]

section \<open>The message invariant\<close>

text \<open>What the model relies on: the documented behaviour of the kernel helpers.\<close>

definition refill_ok :: "send_kernel \<Rightarrow> bool" where
  "refill_ok D \<longleftrightarrow>
     (\<forall>t p o1 z p' o' z'. sd_refill D t (p, o1, z) = Some (p', o', z') \<longrightarrow>
        ((p', o', z') = (p, o1, z) \<or> p < p') \<and> o' \<le> z')"

definition mark_push_ok :: "tcp_kernel \<Rightarrow> bool" where
  "mark_push_ok K \<longleftrightarrow> (\<forall>tp skb. \<exists>f. snd (tk_mark_push K tp skb) = skb\<lparr>tx_tcp_flags := f\<rparr>)"

definition closed_skb :: "tcp_kernel \<Rightarrow> send_kernel \<Rightarrow> int \<Rightarrow> page_frag \<Rightarrow> tx_skb \<Rightarrow> bool" where
  "closed_skb K D size_goal pf skb \<longleftrightarrow>
     size_goal \<le> int (length (tx_data skb)) \<or> \<not> tk_can_collapse_to K skb \<or>
     (sd_max_frags D \<le> length (tx_frags skb) \<and> \<not> skb_can_coalesce skb pf)"

text \<open>Fragments lie on pages no newer than the current one, and before its offset on it.\<close>

definition frags_below :: "page_frag \<Rightarrow> tx_skb \<Rightarrow> bool" where
  "frags_below pf skb \<longleftrightarrow>
     (\<forall>(p, o1, n) \<in> set (tx_frags skb). p < fst pf \<or> p = fst pf \<and> o1 + n \<le> fst (snd pf))"

definition skb_inv :: "int \<Rightarrow> page_frag \<Rightarrow> tx_skb \<Rightarrow> bool" where
  "skb_inv size_goal pf skb \<longleftrightarrow>
     int (length (tx_data skb)) \<le> size_goal \<and> tx_seq skb = word_of_nat (length (tx_data skb)) \<and>
     frags_below pf skb"

definition cur_truesize :: "send_st \<Rightarrow> int" where
  "cur_truesize s = sum_list (map tx_truesize (sn_cur s))"

definition send_core ::
  "tcp_kernel \<Rightarrow> send_kernel \<Rightarrow> int \<Rightarrow> bytes \<Rightarrow> send_st \<Rightarrow> send_st \<Rightarrow> bool" where
  "send_core K D size_goal msg s0 s \<longleftrightarrow>
     concat (map tx_data (sn_cur s)) @ sn_left s = msg \<and>
     (\<forall>skb \<in> set (sn_cur s). skb_inv size_goal (sn_pfrag s) skb) \<and>
     sn_wmem s = sn_wmem s0 + cur_truesize s \<and> sn_charge s = sn_charge s0 + cur_truesize s \<and>
     sn_copied s = int (length msg) - int (length (sn_left s)) \<and>
     sn_wait s = sn_wait s0 \<and> sn_left s \<noteq> [] \<and>
     (2 \<le> length (sn_cur s) \<longrightarrow> closed_skb K D size_goal (sn_pfrag s) (hd (sn_cur s)))"

lemma send_coreD:
  assumes "send_core K D size_goal msg s0 s"
  shows "concat (map tx_data (sn_cur s)) @ sn_left s = msg"
    and "\<And>skb. skb \<in> set (sn_cur s) \<Longrightarrow> skb_inv size_goal (sn_pfrag s) skb"
    and "sn_wmem s = sn_wmem s0 + cur_truesize s" and "sn_charge s = sn_charge s0 + cur_truesize s"
    and "sn_copied s = int (length msg) - int (length (sn_left s))"
    and "sn_wait s = sn_wait s0" and "sn_left s \<noteq> []"
    and "2 \<le> length (sn_cur s) \<Longrightarrow> closed_skb K D size_goal (sn_pfrag s) (hd (sn_cur s))"
  using assms by (simp_all add: send_core_def)

definition append_ready :: "tcp_kernel \<Rightarrow> int \<Rightarrow> send_st \<Rightarrow> bool" where
  "append_ready K size_goal s \<longleftrightarrow>
     sn_at s < length (sn_cur s) \<and> 0 < sn_copy s \<and>
     sn_copy s \<le> size_goal - int (length (tx_data (sn_cur s ! sn_at s))) \<and>
     (Suc (sn_at s) = length (sn_cur s) \<or>
      sn_at s = 0 \<and> tk_can_collapse_to K (hd (sn_cur s)) \<and>
      int (length (tx_data (hd (sn_cur s)))) < size_goal)"

text \<open>The message is on the accumulation queue, and the memory accounts are as before.\<close>

definition sent_whole :: "bytes \<Rightarrow> send_st \<Rightarrow> send_st \<Rightarrow> bool" where
  "sent_whole msg s0 s \<longleftrightarrow>
     (\<exists>skbs. sn_wait s = sn_wait s0 @ skbs \<and> concat (map tx_data skbs) = msg \<and>
             (\<forall>skb \<in> set skbs. tx_seq skb = word_of_nat (length (tx_data skb)))) \<and>
     sn_wmem s = sn_wmem s0 \<and> sn_charge s = sn_charge s0 \<and> sn_copied s = int (length msg)"

definition send_inv ::
  "tcp_kernel \<Rightarrow> send_kernel \<Rightarrow> int \<Rightarrow> bytes \<Rightarrow> send_st \<Rightarrow> send_pc \<times> send_st \<Rightarrow> bool" where
  "send_inv K D size_goal msg s0 c \<longleftrightarrow>
     (case c of (pc, s) \<Rightarrow>
       (if pc = Out then sent_whole msg s0 s
        else send_core K D size_goal msg s0 s \<and>
          (pc = NewSegment \<longrightarrow> sn_cur s = [] \<or> closed_skb K D size_goal (sn_pfrag s) (hd (sn_cur s))) \<and>
          (pc = TryAppend \<longrightarrow> append_ready K size_goal s)))"

lemma loop_head_inv:
  assumes "send_core K D size_goal msg s0 s" "0 < size_goal" "size_goal < 2 ^ 32"
  shows "send_inv K D size_goal msg s0 (send_loop_head K size_goal s)"
proof (cases "sn_cur s")
  case Nil
  with assms show ?thesis by (auto simp: send_loop_head_def send_inv_def send_core_def)
next
  case (Cons skb rest)
  let ?len = "int (length (tx_data skb))"
  have len: "?len \<le> size_goal" using assms(1) Cons by (simp add: send_core_def skb_inv_def)
  have "(size_goal - ?len) mod 2 ^ 32 = size_goal - ?len"
    using len assms(3) by (intro mod_pos_pos_trivial) auto
  moreover have "send_core K D size_goal msg s0 (s\<lparr>sn_at := 0\<rparr>)"
    "send_core K D size_goal msg s0 (s\<lparr>sn_at := 0, sn_copy := c\<rparr>)" for c
    using assms(1) by (simp_all add: send_core_def cur_truesize_def)
  moreover have "sn_left s \<noteq> []" using assms(1) by (simp add: send_core_def)
  ultimately show ?thesis
    using Cons len
    by (auto simp: send_loop_head_def send_inv_def append_ready_def closed_skb_def Let_def)
qed

lemma new_segment_inv:
  assumes "send_core K D size_goal msg s0 s" "0 < size_goal"
    "sn_cur s = [] \<or> closed_skb K D size_goal (sn_pfrag s) (hd (sn_cur s))"
  shows "send_inv K D size_goal msg s0 (send_new_segment D size_goal s)"
proof -
  have "skb_inv size_goal (sn_pfrag s) (new_tx_skb ts r)" for ts r
    using assms(2) by (simp add: skb_inv_def new_tx_skb_def frags_below_def)
  then show ?thesis
    using assms
    by (auto simp: send_new_segment_def send_inv_def send_core_def append_ready_def cur_truesize_def
        new_tx_skb_def hd_append split: option.split)
qed

lemma refill_cases:
  assumes "refill_ok D" "sd_refill D t pf = Some pf'"
  obtains (same) "pf' = pf" | (fresh) "fst pf < fst pf'"
  using assms unfolding refill_ok_def by (metis prod.exhaust_sel prod.sel(1))

lemma refill_room: "refill_ok D \<Longrightarrow> sd_refill D t pf = Some (p, o1, z) \<Longrightarrow> o1 \<le> z"
  unfolding refill_ok_def by (metis prod.exhaust_sel)

lemma frags_below_mono:
  assumes "frags_below pf skb" "fst pf < fst pf' \<or> fst pf = fst pf' \<and> fst (snd pf) \<le> fst (snd pf')"
  shows "frags_below pf' skb"
  using assms unfolding frags_below_def by (fastforce split: prod.splits)

lemma skb_can_coalesce_iff:
  "skb_can_coalesce skb (page, off, z) \<longleftrightarrow>
     tx_frags skb \<noteq> [] \<and> (\<exists>o1 n. last (tx_frags skb) = (page, o1, n) \<and> o1 + n = off)"
  by (auto simp: skb_can_coalesce_def split: list.split prod.split)

lemma not_coalesce_beyond:
  assumes "frags_below pf skb" "fst pf < fst pf' \<or> fst pf = fst pf' \<and> fst (snd pf) < fst (snd pf')"
  shows "\<not> skb_can_coalesce skb pf'"
proof
  assume "skb_can_coalesce skb pf'"
  then obtain o1 n where l: "last (tx_frags skb) = (fst pf', o1, n)" "o1 + n = fst (snd pf')"
    and "tx_frags skb \<noteq> []"
    using skb_can_coalesce_iff [of skb "fst pf'" "fst (snd pf')" "snd (snd pf')"] by auto
  then have "(fst pf', o1, n) \<in> set (tx_frags skb)" by (metis last_in_set)
  with assms(1) have "fst pf' < fst pf \<or> fst pf' = fst pf \<and> o1 + n \<le> fst (snd pf)"
    unfolding frags_below_def by blast
  with assms(2) l(2) show False by auto
qed

lemma closed_skb_beyond:
  assumes "closed_skb K D size_goal pf skb" "frags_below pf skb"
    "pf' = pf \<or> fst pf < fst pf' \<or> fst pf = fst pf' \<and> fst (snd pf) < fst (snd pf')"
  shows "closed_skb K D size_goal pf' skb"
  using assms not_coalesce_beyond [OF assms(2), of pf'] by (auto simp: closed_skb_def)

text \<open>A refill keeps the invariant.\<close>

lemma refill_core:
  assumes "send_core K D size_goal msg s0 s" "refill_ok D" "sd_refill D t (sn_pfrag s) = Some pf"
  shows "send_core K D size_goal msg s0 (s\<lparr>sn_pfrag := pf\<rparr>)"
proof -
  note C = send_coreD [OF assms(1)]
  from assms(2,3) have step: "pf = sn_pfrag s \<or> fst (sn_pfrag s) < fst pf" by (metis refill_cases)
  have inv: "skb_inv size_goal (sn_pfrag s) skb" "frags_below (sn_pfrag s) skb"
    if "skb \<in> set (sn_cur s)" for skb
    using C(2) that by (simp_all add: skb_inv_def)
  have "skb_inv size_goal pf skb" if "skb \<in> set (sn_cur s)" for skb
    using inv [OF that] step frags_below_mono [OF inv(2) [OF that], of pf] by (auto simp: skb_inv_def)
  moreover have "closed_skb K D size_goal pf (hd (sn_cur s))" if "2 \<le> length (sn_cur s)"
  proof -
    have "hd (sn_cur s) \<in> set (sn_cur s)" using that by (cases "sn_cur s") auto
    then show ?thesis using closed_skb_beyond [OF C(8) [OF that] inv(2), of pf] step by blast
  qed
  ultimately show ?thesis using C by (simp add: send_core_def cur_truesize_def)
qed

lemma frags_below_add:
  assumes "frags_below (page, off, z) skb" "merge \<Longrightarrow> skb_can_coalesce skb (page, off, z)"
  shows "frags_below (page, off + n, z) (append_data merge (page, off, z) n bs first skb)"
proof -
  have old: "\<forall>(p, o1, m) \<in> set (tx_frags skb). p < page \<or> p = page \<and> o1 + m \<le> off + n"
    using assms(1) by (fastforce simp: frags_below_def)
  show ?thesis
  proof (cases merge)
    case False
    with old show ?thesis by (auto simp: frags_below_def append_data_def add_frag_def)
  next
    case True
    then have ne: "tx_frags skb \<noteq> []" and l: "\<exists>o1 m. last (tx_frags skb) = (page, o1, m) \<and> o1 + m = off"
      using assms(2) by (auto simp: skb_can_coalesce_iff)
    have "\<forall>(p, o1, m) \<in> set (butlast (tx_frags skb)). p < page \<or> p = page \<and> o1 + m \<le> off + n"
      using old by (auto dest: in_set_butlastD)
    with l True show ?thesis by (auto simp: frags_below_def append_data_def add_frag_def)
  qed
qed

lemma skb_inv_append:
  assumes "skb_inv size_goal (page, off, z) skb" "merge \<Longrightarrow> skb_can_coalesce skb (page, off, z)"
    "int (length (tx_data skb)) + int n \<le> size_goal" "n \<le> length bs"
  shows "skb_inv size_goal (page, off + n, z) (append_data merge (page, off, z) n bs first skb)"
  using assms frags_below_add [of page off z skb merge n bs first]
  by (simp add: skb_inv_def) (simp add: append_data_def)

lemma update_last:
  assumes "Suc i = length xs"
  shows "xs[i := y] = butlast xs @ [y]" "xs = butlast xs @ [xs ! i]"
  using assms by (cases xs rule: rev_cases; simp)+

lemma hd_update: "xs \<noteq> [] \<Longrightarrow> hd (xs[i := y]) = (if i = 0 then y else hd xs)"
  by (cases xs; cases i) auto

lemma map_update_same: "f y = f (xs ! i) \<Longrightarrow> map f (xs[i := y]) = map f xs"
  by (metis list_update_id map_update)

text \<open>Marking the push flag of a buffer that has no room left closes it.\<close>

lemma mark_push_inv:
  assumes core: "send_core K D size_goal msg s0 s" and at: "sn_at s < length (sn_cur s)"
    and full: "sd_max_frags D \<le> length (tx_frags (sn_cur s ! sn_at s))"
      "\<not> skb_can_coalesce (sn_cur s ! sn_at s) (sn_pfrag s)"
    and skb': "skb' = (sn_cur s ! sn_at s)\<lparr>tx_tcp_flags := f\<rparr>"
  shows "send_inv K D size_goal msg s0 (NewSegment, upd_cur (\<lambda>_. skb') (s\<lparr>sn_tp := tp'\<rparr>))"
proof -
  note C = send_coreD [OF core]
  let ?cur = "(sn_cur s)[sn_at s := skb']"
  have same: "map tx_data ?cur = map tx_data (sn_cur s)" "map tx_truesize ?cur = map tx_truesize (sn_cur s)"
    using skb' by (simp_all add: map_update_same)
  have ne: "sn_cur s \<noteq> []" using at by auto
  have "skb_inv size_goal (sn_pfrag s) skb'"
    using C(2) [of "sn_cur s ! sn_at s"] at skb' by (simp add: skb_inv_def frags_below_def)
  then have inv: "skb_inv size_goal (sn_pfrag s) skb" if "skb \<in> set ?cur" for skb
    using that C(2) set_update_subset_insert [of "sn_cur s" "sn_at s" skb'] by blast
  have hd: "closed_skb K D size_goal (sn_pfrag s) (hd ?cur)"
  proof (cases "sn_at s = 0")
    case True
    with full skb' ne show ?thesis
      by (simp add: hd_update closed_skb_def) (simp add: skb_can_coalesce_def)
  next
    case False
    with at C(8) ne show ?thesis by (simp add: hd_update)
  qed
  have "send_core K D size_goal msg s0 (upd_cur (\<lambda>_. skb') (s\<lparr>sn_tp := tp'\<rparr>))"
    using C inv hd same by (simp add: send_core_def upd_cur_def cur_truesize_def)
  with hd show ?thesis by (simp add: send_inv_def upd_cur_def)
qed

text \<open>Data only ever goes to the last buffer, so the message stays in order.\<close>

lemma append_core:
  fixes first :: bool
  assumes core: "send_core K D size_goal msg s0 s" and last: "Suc (sn_at s) = length (sn_cur s)"
    and pf: "sn_pfrag s = (page, off, z)" and n: "0 < n" "n \<le> length (sn_left s)"
    and fits: "int (length (tx_data (sn_cur s ! sn_at s))) + int n \<le> size_goal"
    and merge: "merge \<Longrightarrow> skb_can_coalesce (sn_cur s ! sn_at s) (page, off, z)"
  defines "s' \<equiv> (upd_cur (append_data merge (page, off, z) n (sn_left s) first) s)
            \<lparr>sn_left := drop n (sn_left s), sn_pfrag := (page, off + n, z),
             sn_copied := sn_copied s + int n, sn_wmem := sn_wmem s + int n,
             sn_charge := sn_charge s + int n\<rparr>"
  shows "drop n (sn_left s) \<noteq> [] \<Longrightarrow> send_core K D size_goal msg s0 s'"
    and "drop n (sn_left s) = [] \<Longrightarrow> sent_whole msg s0 (send_splice s')"
proof -
  note C = send_coreD [OF core]
  let ?skb = "sn_cur s ! sn_at s"
  let ?new = "append_data merge (page, off, z) n (sn_left s) first ?skb"
  have cur: "sn_cur s' = butlast (sn_cur s) @ [?new]" using update_last(1) [OF last] by (simp add: s'_def upd_cur_def)
  have old: "sn_cur s = butlast (sn_cur s) @ [?skb]" by (rule update_last(2) [OF last])
  have data: "tx_data ?new = tx_data ?skb @ take n (sn_left s)"
    and ts: "tx_truesize ?new = tx_truesize ?skb + int n" by (simp_all add: append_data_def)
  have "concat (map tx_data (sn_cur s)) = concat (map tx_data (butlast (sn_cur s))) @ tx_data ?skb"
    by (subst old) simp
  then have bytes: "concat (map tx_data (sn_cur s')) @ drop n (sn_left s) = msg"
    using C(1) by (simp add: cur data)
  have "cur_truesize s = sum_list (map tx_truesize (butlast (sn_cur s))) + tx_truesize ?skb"
    unfolding cur_truesize_def by (subst old) simp
  then have size: "cur_truesize s' = cur_truesize s + int n" by (simp add: cur_truesize_def cur ts)
  have mem: "?skb \<in> set (sn_cur s)" using last by auto
  have "frags_below (page, off + n, z) skb" if "skb \<in> set (sn_cur s)" for skb
    using C(2) [OF that] pf frags_below_mono [of "(page, off, z)" skb "(page, off + n, z)"]
    by (simp add: skb_inv_def)
  then have "skb_inv size_goal (page, off + n, z) skb" if "skb \<in> set (butlast (sn_cur s))" for skb
    using that C(2) [of skb] by (auto simp: skb_inv_def dest: in_set_butlastD)
  moreover have "skb_inv size_goal (page, off + n, z) ?new"
    using C(2) [OF mem] fits merge n by (intro skb_inv_append) (simp_all add: pf)
  ultimately have inv: "skb_inv size_goal (page, off + n, z) skb" if "skb \<in> set (sn_cur s')" for skb
    using that by (auto simp: cur)
  have hd: "closed_skb K D size_goal (page, off + n, z) (hd (sn_cur s'))" if "2 \<le> length (sn_cur s')"
  proof -
    have len: "2 \<le> length (sn_cur s)" using that last by (simp add: cur)
    then obtain x y ys where xs: "sn_cur s = x # y # ys"
      by (cases "sn_cur s"; cases "tl (sn_cur s)") auto
    then have "hd (sn_cur s') = hd (sn_cur s)" by (simp add: cur)
    moreover have mem: "hd (sn_cur s) \<in> set (sn_cur s)" using xs by simp
    ultimately show ?thesis
      using closed_skb_beyond [OF C(8) [OF len], of "(page, off + n, z)"] C(2) [OF mem] n pf
      by (simp add: skb_inv_def)
  qed
  have fields: "sn_left s' = drop n (sn_left s)" "sn_pfrag s' = (page, off + n, z)"
    "sn_copied s' = sn_copied s + int n" "sn_wmem s' = sn_wmem s + int n"
    "sn_charge s' = sn_charge s + int n" "sn_wait s' = sn_wait s"
    by (simp_all add: s'_def upd_cur_def)
  show "send_core K D size_goal msg s0 s'" if "drop n (sn_left s) \<noteq> []"
    using that bytes inv hd size C n unfolding send_core_def by (simp add: fields)
  show "sent_whole msg s0 (send_splice s')" if "drop n (sn_left s) = []"
    using that bytes inv size C n unfolding sent_whole_def
    by (auto simp: send_splice_def fields cur_truesize_def Let_def skb_inv_def)
qed

lemma send_append_cases:
  assumes core: "send_core K D size_goal msg s0 s" and ready: "append_ready K size_goal s"
    and refill: "refill_ok D" and push: "mark_push_ok K"
  obtains
    (nospace) s1 where "send_append K D s = (WaitForSpace, s1)" "send_core K D size_goal msg s0 s1"
  | (error) e s1 where "send_append K D s = (DoError e, s1)" "send_core K D size_goal msg s0 s1"
  | (full) s1 where "send_append K D s = (NewSegment, s1)" "send_inv K D size_goal msg s0 (NewSegment, s1)"
      "sd_max_frags D \<le> length (tx_frags (sn_cur s ! sn_at s))" "length (sn_left s1) = length (sn_left s)"
  | (more) s1 where "send_append K D s = (LoopHead, s1)" "send_core K D size_goal msg s0 s1"
      "length (sn_left s1) < length (sn_left s)"
  | (all) s1 where "send_append K D s = (Out, s1)" "sent_whole msg s0 s1"
proof (cases "sd_refill D (sn_tick s) (sn_pfrag s)")
  case None
  with nospace [of s] core show ?thesis by (simp add: send_append_def)
next
  case (Some pf)
  obtain page off z where pf: "pf = (page, off, z)" by (cases pf) auto
  let ?s1 = "s\<lparr>sn_pfrag := pf\<rparr>" and ?skb = "sn_cur s ! sn_at s"
  let ?merge = "skb_can_coalesce ?skb pf"
  let ?copy = "min (min (sn_copy s) (int (length (sn_left s)))) (int z - int off)"
  note core1 = refill_core [OF core refill Some]
  have at: "sn_at s < length (sn_cur s)" using ready by (simp add: append_ready_def)
  show ?thesis
  proof (cases "\<not> ?merge \<and> sd_max_frags D \<le> length (tx_frags ?skb)")
    case True
    obtain tp' skb' where mp: "tk_mark_push K (sn_tp s) ?skb = (tp', skb')" by (cases "tk_mark_push K (sn_tp s) ?skb")
    then obtain f where f: "skb' = ?skb\<lparr>tx_tcp_flags := f\<rparr>"
      using push unfolding mark_push_ok_def by (metis snd_conv)
    let ?s2 = "upd_cur (\<lambda>_. skb') (?s1\<lparr>sn_tp := tp'\<rparr>)"
    have "send_append K D s = (NewSegment, ?s2)"
      using Some True mp by (simp add: send_append_def Let_def)
    moreover have "send_inv K D size_goal msg s0 (NewSegment, ?s2)"
      using mark_push_inv [OF core1, of skb' f tp'] at True f by simp
    ultimately show ?thesis using full [of ?s2] True by (simp add: upd_cur_def)
  next
    case False
    have step: "send_append K D s =
        (if ?copy = 0 then (WaitForSpace, ?s1)
         else if \<not> sd_sched_copy D (sn_tick s) ?copy then (WaitForSpace, ?s1)
         else if sd_copy D (sn_tick s) \<noteq> 0 then (DoError (sd_copy D (sn_tick s)), ?s1)
         else (let s3 = (upd_cur (append_data ?merge pf (nat ?copy) (sn_left s) (sn_copied s = 0)) ?s1)
                     \<lparr>sn_left := drop (nat ?copy) (sn_left s), sn_pfrag := (page, off + nat ?copy, z),
                      sn_copied := sn_copied s + ?copy, sn_wmem := sn_wmem s + ?copy,
                      sn_charge := sn_charge s + ?copy\<rparr>
               in if sn_left s3 = [] then (Out, send_splice s3) else (LoopHead, s3)))"
      unfolding send_append_def Let_def Some option.case if_not_P [OF False] by (simp add: pf)
    show ?thesis
    proof (cases "?copy = 0 \<or> \<not> sd_sched_copy D (sn_tick s) ?copy \<or> sd_copy D (sn_tick s) \<noteq> 0")
      case True
      then show ?thesis using step nospace [of ?s1] error [of _ ?s1] core1 by (auto split: if_splits)
    next
      case go: False
      define n where "n = nat ?copy"
      have "0 \<le> ?copy"
        using ready refill_room [OF refill, of "sn_tick s" "sn_pfrag s" page off z] Some pf
        by (simp add: append_ready_def)
      then have n: "0 < n" "int n = ?copy" using go by (auto simp: n_def)
      have last: "Suc (sn_at s) = length (sn_cur s)"
      proof (rule ccontr)
        assume "Suc (sn_at s) \<noteq> length (sn_cur s)"
        with ready have "sn_at s = 0" "tk_can_collapse_to K (hd (sn_cur s))"
          "int (length (tx_data (hd (sn_cur s)))) < size_goal" "2 \<le> length (sn_cur s)"
          by (auto simp: append_ready_def)
        moreover have "?skb = hd (sn_cur s)" using calculation(1) at by (cases "sn_cur s") auto
        ultimately show False
          using send_coreD(8) [OF core1] False by (simp add: closed_skb_def)
      qed
      have fits: "int (length (tx_data ?skb)) + int n \<le> size_goal" "n \<le> length (sn_left s)"
        using ready n by (auto simp: append_ready_def)
      define s3 where "s3 = (upd_cur (append_data ?merge (page, off, z) n (sn_left ?s1) (sn_copied s = 0)) ?s1)
                     \<lparr>sn_left := drop n (sn_left ?s1), sn_pfrag := (page, off + n, z),
                      sn_copied := sn_copied ?s1 + int n, sn_wmem := sn_wmem ?s1 + int n,
                      sn_charge := sn_charge ?s1 + int n\<rparr>"
      note app = append_core [OF core1, of page off z n ?merge "sn_copied s = 0", folded s3_def]
      have res: "send_append K D s = (if sn_left s3 = [] then (Out, send_splice s3) else (LoopHead, s3))"
        using step go n by (simp add: s3_def pf n_def [symmetric] Let_def)
      have left: "sn_left s3 = drop n (sn_left s)" by (simp add: s3_def)
      show ?thesis
      proof (cases "drop n (sn_left s) = []")
        case True
        with app(2) last pf n fits res left show ?thesis by (intro all) simp_all
      next
        case ne: False
        then have "length (sn_left s3) < length (sn_left s)" using left n(1) by simp
        moreover have "send_append K D s = (LoopHead, s3)" using res left ne by simp
        moreover have "send_core K D size_goal msg s0 s3" using ne app(1) last pf n fits by simp
        ultimately show ?thesis by (rule more [rotated 2])
      qed
    qed
  qed
qed

lemma send_core_tick [simp]:
  "send_core K D size_goal msg s0 (s\<lparr>sn_tick := t\<rparr>) = send_core K D size_goal msg s0 s"
  "send_core K D size_goal msg s0 (s\<lparr>sn_nospace := b\<rparr>) = send_core K D size_goal msg s0 s"
  by (simp_all add: send_core_def cur_truesize_def)

lemma send_inv_tick [simp]:
  "send_inv K D size_goal msg s0 (pc, s\<lparr>sn_tick := t\<rparr>) = send_inv K D size_goal msg s0 (pc, s)"
  by (simp add: send_inv_def append_ready_def sent_whole_def)

definition send_env :: "tcp_kernel \<Rightarrow> send_kernel \<Rightarrow> int \<Rightarrow> bool" where
  "send_env K D size_goal \<longleftrightarrow>
     0 < size_goal \<and> size_goal < 2 ^ 32 \<and> refill_ok D \<and> mark_push_ok K \<and> 0 < sd_max_frags D"

lemma send_envD:
  assumes "send_env K D size_goal"
  shows "0 < size_goal" "size_goal < 2 ^ 32" "refill_ok D" "mark_push_ok K" "0 < sd_max_frags D"
  using assms by (simp_all add: send_env_def)

lemma send_step_inv:
  assumes env: "send_env K D size_goal" and inv: "send_inv K D size_goal msg s0 c"
  shows "send_inv K D size_goal msg s0 (send_step K D size_goal c)"
proof -
  note E = send_envD [OF env]
  obtain pc s where c: "c = (pc, s)" by (cases c)
  have tick: "send_inv K D size_goal msg s0 (send_step K D size_goal c)"
    if "send_inv K D size_goal msg s0 r" "send_step K D size_goal c = (fst r, (snd r)\<lparr>sn_tick := t\<rparr>)" for r t
    using that by (cases r) simp
  show ?thesis
  proof (cases pc)
    case LoopHead
    with inv c show ?thesis
      by (intro tick [OF loop_head_inv [of K D size_goal msg s0 s]])
        (use E in \<open>auto simp: send_inv_def send_step_def split: prod.split\<close>)
  next
    case NewSegment
    with inv c show ?thesis
      by (intro tick [OF new_segment_inv [of K D size_goal msg s0 s]])
        (auto simp: send_inv_def E send_step_def split: prod.split)
  next
    case TryAppend
    with inv c have "send_core K D size_goal msg s0 s" "append_ready K size_goal s"
      by (simp_all add: send_inv_def)
    then show ?thesis
      using E(3,4)
    proof (cases rule: send_append_cases)
      case (full s1)
      with c TryAppend show ?thesis by (simp add: send_step_def)
    qed (use c TryAppend in \<open>simp_all add: send_step_def send_inv_def sent_whole_def\<close>)
  next
    case WaitForSpace
    with inv c show ?thesis by (simp add: send_step_def send_wait_def send_inv_def Let_def)
  qed (use inv c in \<open>simp_all add: send_step_def\<close>)
qed

lemma send_run_inv:
  "send_env K D size_goal \<Longrightarrow> send_inv K D size_goal msg s0 c \<Longrightarrow> send_run n K D size_goal c = Some c' \<Longrightarrow>
     send_inv K D size_goal msg s0 c' \<and> send_ended c'"
proof (induction n arbitrary: c)
  case 0
  then show ?case by (auto simp: send_run.simps [of 0] split: if_splits)
next
  case (Suc n)
  show ?case
  proof (cases "send_ended c")
    case True
    with Suc.prems show ?thesis by (simp add: send_run.simps)
  next
    case False
    with Suc.prems(3) have "send_run n K D size_goal (send_step K D size_goal c) = Some c'"
      by (simp add: send_run.simps [of "Suc n"])
    then show ?thesis by (rule Suc.IH [OF Suc.prems(1) send_step_inv [OF Suc.prems(1,2)]])
  qed
qed

text \<open>Every step that does not end the call lowers the rank when waiting never succeeds.\<close>

definition send_rank :: "send_pc \<times> send_st \<Rightarrow> nat" where
  "send_rank c = (case c of (pc, s) \<Rightarrow> 6 * length (sn_left s) +
     (case pc of LoopHead \<Rightarrow> 5 | NewSegment \<Rightarrow> 3
       | TryAppend \<Rightarrow> (if tx_frags (sn_cur s ! sn_at s) = [] then 2 else 4)
       | WaitForSpace \<Rightarrow> 1 | Out \<Rightarrow> 0 | DoError _ \<Rightarrow> 0))"

lemma send_rank_decreases:
  assumes env: "send_env K D size_goal" and inv: "send_inv K D size_goal msg s0 c"
    and going: "\<not> send_ended c" and wait: "\<And>t. sd_wait D t \<noteq> 0"
  shows "send_ended (send_step K D size_goal c) \<or> send_rank (send_step K D size_goal c) < send_rank c"
proof -
  obtain pc s where c: "c = (pc, s)" by (cases c)
  show ?thesis
  proof (cases pc)
    case LoopHead
    with c show ?thesis
      by (auto simp: send_step_def send_loop_head_def send_rank_def Let_def split: list.split)
  next
    case NewSegment
    with c show ?thesis
      by (auto simp: send_step_def send_new_segment_def send_rank_def new_tx_skb_def split: option.split)
  next
    case TryAppend
    with inv c have "send_core K D size_goal msg s0 s" "append_ready K size_goal s"
      by (simp_all add: send_inv_def)
    then show ?thesis
      using send_envD(3,4) [OF env]
    proof (cases rule: send_append_cases)
      case (nospace s1)
      then have "length (sn_left s1) = length (sn_left s)"
        by (auto simp: send_append_def Let_def split: option.splits prod.splits if_splits)
      with nospace c TryAppend show ?thesis by (simp add: send_step_def send_rank_def)
    next
      case (full s1)
      then have "tx_frags (sn_cur s ! sn_at s) \<noteq> []" using send_envD(5) [OF env] by auto
      with full c TryAppend show ?thesis by (simp add: send_step_def send_rank_def)
    qed (use c TryAppend in \<open>simp_all add: send_step_def send_ended_def send_rank_def\<close>)
  next
    case WaitForSpace
    with wait c show ?thesis by (simp add: send_step_def send_wait_def send_ended_def Let_def)
  qed (use going c in \<open>simp_all add: send_ended_def\<close>)
qed

lemma send_run_ends:
  assumes env: "send_env K D size_goal" and wait: "\<And>t. sd_wait D t \<noteq> 0"
    and "send_inv K D size_goal msg s0 c" "send_rank c < n"
  shows "\<exists>c'. send_run n K D size_goal c = Some c'"
  using assms(3,4)
proof (induction n arbitrary: c)
  case 0
  then show ?case by simp
next
  case (Suc n)
  show ?case
  proof (cases "send_ended c")
    case True
    then show ?thesis by (simp add: send_run.simps)
  next
    case False
    note inv = send_step_inv [OF env Suc.prems(1)]
    from send_rank_decreases [OF env Suc.prems(1) False wait] show ?thesis
    proof
      assume "send_ended (send_step K D size_goal c)"
      then show ?thesis using False by (simp add: send_run.simps)
    next
      assume "send_rank (send_step K D size_goal c) < send_rank c"
      with Suc.prems(2) Suc.IH [OF inv] False show ?thesis
        by (simp add: send_run.simps [of "Suc n"])
    qed
  qed
qed

section \<open>Moving messages to the TCP write queue\<close>

text \<open>
  The loop over the buffers just spliced: each gets the next sequence numbers and is
  charged to the lower socket.
\<close>

fun assign_seqs :: "tx_skb list \<Rightarrow> tcp_sock \<Rightarrow> tx_skb list \<times> tcp_sock" where
  "assign_seqs [] tp = ([], tp)"
| "assign_seqs (skb # skbs) tp =
     (let skb1 = skb\<lparr>tx_end_seq := ts_write_seq tp + tx_seq skb, tx_seq := ts_write_seq tp\<rparr>;
          tp1 = tp\<lparr>ts_write_seq := tx_end_seq skb1,
                   ts_wmem_queued := ts_wmem_queued tp + tx_truesize skb1,
                   ts_mem_charged := ts_mem_charged tp + tx_truesize skb1\<rparr>
      in case assign_seqs skbs tp1 of (rest, tp2) \<Rightarrow> (skb1 # rest, tp2))"

text \<open>One round of the loop in \<open>try_send_from_psock\<close>: what was sent is the change of the queue length.\<close>

definition tx_splice :: "tx_skb list \<Rightarrow> tcp_sock \<Rightarrow> tcp_sock" where
  "tx_splice waiting tp =
     (case assign_seqs waiting tp of
        (moved, tp1) \<Rightarrow> tp1\<lparr>ts_write_queue := ts_write_queue tp @ moved, ts_nospace := False\<rparr>)"

definition tx_push :: "tcp_kernel \<Rightarrow> u16 \<Rightarrow> u32 \<Rightarrow> int \<Rightarrow> tcp_sock \<Rightarrow> tcp_sock" where
  "tx_push K junk_tsflags flags mss_now tp =
     (let tp1 = tcp_tx_timestamp K junk_tsflags tp in tcp_push K flags mss_now (ts_nonagle tp1) tp1)"

text \<open>
  \<open>seqs_from s skbs e\<close>: the buffers carry contiguous sequence ranges from \<open>s\<close> to \<open>e\<close>, each as
  long as its data (modulo \<open>2\<^sup>3\<^sup>2\<close>).
\<close>

fun seqs_from :: "u32 \<Rightarrow> tx_skb list \<Rightarrow> u32 \<Rightarrow> bool" where
  "seqs_from s [] e \<longleftrightarrow> s = e"
| "seqs_from s (skb # skbs) e \<longleftrightarrow>
     tx_seq skb = s \<and> tx_end_seq skb = s + word_of_nat (length (tx_data skb)) \<and>
     seqs_from (tx_end_seq skb) skbs e"

lemma assign_seqs_frame:
  assumes "assign_seqs skbs tp = (moved, tp')"
  shows "map tx_data moved = map tx_data skbs" "ts_write_queue tp' = ts_write_queue tp"
    "ts_wmem_queued tp' = ts_wmem_queued tp + sum_list (map tx_truesize skbs)"
  using assms
  by (induction skbs arbitrary: tp moved tp') (fastforce simp: Let_def split: prod.splits)+

lemma assign_seqs_from:
  assumes "assign_seqs skbs tp = (moved, tp')"
    "\<And>skb. skb \<in> set skbs \<Longrightarrow> tx_seq skb = word_of_nat (length (tx_data skb))"
  shows "seqs_from (ts_write_seq tp) moved (ts_write_seq tp')"
  using assms
proof (induction skbs arbitrary: tp moved tp')
  case Nil
  then show ?case by simp
next
  case (Cons skb skbs)
  define tp1 where "tp1 = tp\<lparr>ts_write_seq := ts_write_seq tp + tx_seq skb,
      ts_wmem_queued := ts_wmem_queued tp + tx_truesize skb,
      ts_mem_charged := ts_mem_charged tp + tx_truesize skb\<rparr>"
  obtain rest where r: "assign_seqs skbs tp1 = (rest, tp')"
    "moved = skb\<lparr>tx_end_seq := ts_write_seq tp + tx_seq skb, tx_seq := ts_write_seq tp\<rparr> # rest"
    using Cons.prems(1) by (auto simp: tp1_def Let_def split: prod.splits)
  have "seqs_from (ts_write_seq tp1) rest (ts_write_seq tp')"
    using Cons.IH [OF r(1)] Cons.prems(2) by simp
  moreover have "tx_seq skb = word_of_nat (length (tx_data skb))" by (rule Cons.prems(2)) simp
  ultimately show ?case using r(2) by (simp add: tp1_def)
qed

lemma seqs_from_append:
  "seqs_from s xs m \<Longrightarrow> seqs_from m ys e \<Longrightarrow> seqs_from s (xs @ ys) e"
  by (induction s xs m rule: seqs_from.induct) auto

text \<open>Splicing continues the sequence of the write queue.\<close>

lemma tx_splice_seqs:
  assumes "seqs_from una (ts_write_queue tp) (ts_write_seq tp)"
    "\<forall>skb \<in> set skbs. tx_seq skb = word_of_nat (length (tx_data skb))"
  shows "seqs_from una (ts_write_queue (tx_splice skbs tp)) (ts_write_seq (tx_splice skbs tp))"
    "map tx_data (ts_write_queue (tx_splice skbs tp)) = map tx_data (ts_write_queue tp) @ map tx_data skbs"
    "ts_wmem_queued (tx_splice skbs tp) = ts_wmem_queued tp + sum_list (map tx_truesize skbs)"
proof -
  obtain moved tp' where a: "assign_seqs skbs tp = (moved, tp')" by (cases "assign_seqs skbs tp")
  note f = assign_seqs_frame [OF a]
  have "seqs_from (ts_write_seq tp) moved (ts_write_seq tp')"
    using assign_seqs_from [OF a] assms(2) by blast
  note q = seqs_from_append [OF assms(1) this]
  show "seqs_from una (ts_write_queue (tx_splice skbs tp)) (ts_write_seq (tx_splice skbs tp))"
    "map tx_data (ts_write_queue (tx_splice skbs tp)) = map tx_data (ts_write_queue tp) @ map tx_data skbs"
    "ts_wmem_queued (tx_splice skbs tp) = ts_wmem_queued tp + sum_list (map tx_truesize skbs)"
    using f q by (simp_all add: tx_splice_def a)
qed

end
