(* ===== verification/Scheduler.thy ===== *)
theory Scheduler
  imports Rakaia_State
begin

text \<open>
  The receive side of \<open>rakaia/plain-tcp/rakaiasock.c\<close>: messages that the stream parser
  completes are pushed to a per-socket queue chosen between two random ones, idle sockets
  wait on a list, a socket that pulls takes from its own queue, steals from another, or
  goes idle. Two bitmaps record which queues hold messages and which sockets are idle.
  Random bytes are arguments; each function is the whole handler run without interleaving
  (\<open>Sched_Concurrent\<close> has the steps between lock operations).
\<close>

section \<open>Choosing a queue\<close>

fun pick_walk :: "int \<Rightarrow> nat list \<Rightarrow> int" where
  "pick_walk k [] = - 1"
| "pick_walk k (b # bs) = (if k = 0 then int b else pick_walk (k - 1) bs)"

definition pick_random_set_bit :: "u8 \<Rightarrow> bitmap \<Rightarrow> int" where
  "pick_random_set_bit rnd msk =
     (if msk = 0 then - 1
      else (let total = hweight_long msk; k = unat rnd mod total
            in pick_walk (int k) (set_bits msk)))"

text \<open>
  \<open>do { v2 = pick_random_set_bit(mask); } while (v2 == v1)\<close>: the loop draws until it sees
  another bit; \<open>None\<close> when the bytes of \<open>fuel\<close> draws did not give one.
\<close>

fun pick_other :: "nat \<Rightarrow> (nat \<Rightarrow> u8) \<Rightarrow> nat \<Rightarrow> bitmap \<Rightarrow> int \<Rightarrow> (int \<times> nat) option" where
  "pick_other 0 rnd p msk v1 = None"
| "pick_other (Suc n) rnd p msk v1 =
     (let v2 = pick_random_set_bit (rnd p) msk
      in if v2 = v1 then pick_other n rnd (Suc p) msk v1 else Some (v2, Suc p))"

definition pick_second :: "nat \<Rightarrow> (nat \<Rightarrow> u8) \<Rightarrow> nat \<Rightarrow> bitmap \<Rightarrow> int \<Rightarrow> (int \<times> nat) option" where
  "pick_second fuel rnd p msk v1 =
     (if hweight_long msk > 1 then pick_other fuel rnd p msk v1 else Some (v1, p))"

definition longer_queue :: "rakaia \<Rightarrow> int \<Rightarrow> int \<Rightarrow> fault + int" where
  "longer_queue rk v1 v2 =
     (case sock_slot rk v1 of
        Inl f \<Rightarrow> Inl f
      | Inr (_, s1) \<Rightarrow>
          (case sock_slot rk v2 of
             Inl f \<Rightarrow> Inl f
           | Inr (_, s2) \<Rightarrow> Inr (if length (k_rx_q s2) > length (k_rx_q s1) then v2 else v1)))"

section \<open>Stealing\<close>

text \<open>The critical section under the victim's queue lock.\<close>

definition steal_from :: "nat \<Rightarrow> int \<Rightarrow> rakaia \<Rightarrow> fault + sk_buff option \<times> rakaia" where
  "steal_from ksk victim rk =
     (case sock_slot rk victim of
        Inl f \<Rightarrow> Inl f
      | Inr (va, v) \<Rightarrow>
          (case skb_dequeue (k_rx_q v) of
             (None, _) \<Rightarrow> Inr (None, rk)
           | (Some skb, rest) \<Rightarrow>
               (let rk1 = upd_sock va (\<lambda>s. s\<lparr>k_rx_q := rest\<rparr>) rk;
                    rk2 = (if rest = [] then rk1\<lparr>r_rx_nonempty_bm :=
                                                unset_bit (nat victim) (r_rx_nonempty_bm rk1)\<rparr>
                           else rk1)
                in Inr (Some skb, upd_sock ksk (\<lambda>s. s\<lparr>k_steal_cnt := k_steal_cnt s + 1\<rparr>) rk2))))"

fun rakaia_steal_skb ::
  "nat \<Rightarrow> (nat \<Rightarrow> u8) \<Rightarrow> nat \<Rightarrow> nat \<Rightarrow> rakaia \<Rightarrow> (fault + sk_buff option \<times> rakaia \<times> nat) option" where
  "rakaia_steal_skb 0 rnd p ksk rk = None"
| "rakaia_steal_skb (Suc n) rnd p ksk rk =
     (let msk = r_rx_nonempty_bm rk in
      if msk = 0 then Some (Inr (None, rk, p))
      else
        (let v1 = pick_random_set_bit (rnd p) msk in
         if v1 < 0 then Some (Inr (None, rk, Suc p))
         else
           (case pick_second n rnd (Suc p) msk v1 of
              None \<Rightarrow> None
            | Some (v2, p2) \<Rightarrow>
                (case longer_queue rk v1 v2 of
                   Inl f \<Rightarrow> Some (Inl f)
                 | Inr victim \<Rightarrow>
                     (case steal_from ksk victim rk of
                        Inl f \<Rightarrow> Some (Inl f)
                      | Inr (Some skb, rk2) \<Rightarrow> Some (Inr (Some skb, rk2, p2))
                      | Inr (None, rk2) \<Rightarrow> rakaia_steal_skb n rnd p2 ksk rk2)))))"

section \<open>Idle sockets\<close>

definition rakaia_get_avail_sk :: "nat option \<Rightarrow> rakaia \<Rightarrow> fault + nat option \<times> rakaia" where
  "rakaia_get_avail_sk local_ksk rk =
     (case r_waiters rk of
        [] \<Rightarrow> Inr (None, rk)
      | first # _ \<Rightarrow>
          (let take = (\<lambda>a. case deref rk a of
                              Inl f \<Rightarrow> Inl f
                            | Inr k \<Rightarrow> Inr (Some a,
                                rk\<lparr>r_waiters := remove1 a (r_waiters rk),
                                   r_waiters_bm := unset_bit (nat (k_index k)) (r_waiters_bm rk)\<rparr>))
           in case local_ksk of
                None \<Rightarrow> take first
              | Some l \<Rightarrow>
                  (case deref rk l of
                     Inl f \<Rightarrow> Inl f
                   | Inr lk \<Rightarrow>
                       if bit (r_waiters_bm rk) (nat (k_index lk)) then take l else take first)))"

section \<open>Delivering to a socket\<close>

text \<open>\<open>sk_rmem_schedule\<close> is kernel code; its answer is the argument \<open>sched_ok\<close>.\<close>

definition rakaia_queue_rcv_skb ::
  "bool \<Rightarrow> nat \<Rightarrow> sk_buff \<Rightarrow> rakaia \<Rightarrow> fault + int \<times> rakaia" where
  "rakaia_queue_rcv_skb sched_ok ksk skb rk =
     (case deref rk ksk of
        Inl f \<Rightarrow> Inl f
      | Inr k \<Rightarrow>
          if k_rmem_alloc k \<ge> k_rcvbuf k then Inr (- ENOMEM, rk)
          else if \<not> sched_ok then Inr (- ENOBUFS, rk)
          else Inr (0, upd_sock ksk (\<lambda>s. s\<lparr>k_rmem_alloc := k_rmem_alloc s + sb_truesize skb,
                           k_mem_charged := k_mem_charged s + sb_truesize skb,
                           k_recvq := skb_queue_tail (k_recvq s) skb,
                           k_wakeups := (if k_dead s then k_wakeups s else k_wakeups s + 1)\<rparr>) rk))"

text \<open>The destructor that runs when the application has freed the buffer.\<close>

definition rakaia_rfree :: "nat \<Rightarrow> sk_buff \<Rightarrow> rakaia \<Rightarrow> fault + rakaia" where
  "rakaia_rfree ksk skb rk =
     (case deref rk ksk of
        Inl f \<Rightarrow> Inl f
      | Inr _ \<Rightarrow> Inr (upd_sock ksk (\<lambda>s. s\<lparr>k_mem_charged := k_mem_charged s - sb_truesize skb,
                           k_rmem_alloc := k_rmem_alloc s - sb_truesize skb\<rparr>) rk))"

section \<open>Pushing a message\<close>

definition shorter_queue :: "rakaia \<Rightarrow> u8 \<Rightarrow> u8 \<Rightarrow> fault + nat \<times> rakaia_sock" where
  "shorter_queue rk rnd1 rnd2 =
     (let num1 = int (unat rnd1 mod NUM_RAKAIA_SOCKETS); num2 = int (unat rnd2 mod NUM_RAKAIA_SOCKETS)
      in case sock_slot rk num1 of
           Inl f \<Rightarrow> Inl f
         | Inr (a1, k1) \<Rightarrow>
             (case sock_slot rk num2 of
                Inl f \<Rightarrow> Inl f
              | Inr (a2, k2) \<Rightarrow>
                  Inr (if length (k_rx_q k1) \<le> length (k_rx_q k2) then (a1, k1) else (a2, k2))))"

definition rakaia_push_skb_single_queue ::
  "u8 \<Rightarrow> u8 \<Rightarrow> bool \<Rightarrow> sk_buff \<Rightarrow> nat \<Rightarrow> rakaia \<Rightarrow> fault + int \<times> rakaia" where
  "rakaia_push_skb_single_queue rnd1 rnd2 sched_ok skb psock rk =
     (let skb1 = skb\<lparr>sb_cb0 := CbPsock psock\<rparr> in
      case shorter_queue rk rnd1 rnd2 of
        Inl f \<Rightarrow> Inl f
      | Inr (ca, chosen) \<Rightarrow>
          (let rk1 = upd_sock ca (\<lambda>s. s\<lparr>k_rx_q := skb_queue_tail (k_rx_q s) skb1\<rparr>) rk in
           if length (k_rx_q chosen) \<ge> 1 then Inr (0, rk1)
           else
             (case rakaia_get_avail_sk (Some ca) rk1 of
                Inl f \<Rightarrow> Inl f
              | Inr (None, rk2) \<Rightarrow>
                  Inr (0, rk2\<lparr>r_rx_nonempty_bm :=
                            set_bit (nat (k_index chosen)) (r_rx_nonempty_bm rk2)\<rparr>)
              | Inr (Some new_ksk, rk2) \<Rightarrow>
                  (case deref rk2 ca of
                     Inl f \<Rightarrow> Inl f
                   | Inr c2 \<Rightarrow>
                       (case skb_dequeue (k_rx_q c2) of
                          (None, _) \<Rightarrow> Inl NullDeref
                        | (Some skb2, rest) \<Rightarrow>
                            (let rk3 = upd_sock ca (\<lambda>s. s\<lparr>k_rx_q := rest\<rparr>) rk2;
                                 bm = r_rx_nonempty_bm rk3;
                                 rk4 = rk3\<lparr>r_rx_nonempty_bm :=
                                    (if length rest \<ge> 1 then set_bit (nat (k_index chosen)) bm
                                     else unset_bit (nat (k_index chosen)) bm),
                                    r_push_cnt := r_push_cnt rk3 + 1\<rparr>
                             in rakaia_queue_rcv_skb sched_ok new_ksk skb2 rk4))))))"

text \<open>The strparser callback: the result of the push is dropped.\<close>

definition rakaia_rcv_strparser ::
  "u8 \<Rightarrow> u8 \<Rightarrow> bool \<Rightarrow> nat \<Rightarrow> sk_buff \<Rightarrow> rakaia \<Rightarrow> fault + rakaia" where
  "rakaia_rcv_strparser rnd1 rnd2 sched_ok psock skb rk =
     map_sum id snd (rakaia_push_skb_single_queue rnd1 rnd2 sched_ok skb psock rk)"

section \<open>Pulling a message\<close>

definition rakaia_go_idle :: "nat \<Rightarrow> rakaia_sock \<Rightarrow> rakaia \<Rightarrow> rakaia" where
  "rakaia_go_idle ksk k rk =
     (if bit (r_waiters_bm rk) (nat (k_index k)) then rk
      else rk\<lparr>r_waiters_bm := set_bit (nat (k_index k)) (r_waiters_bm rk),
              r_waiters := r_waiters rk @ [ksk]\<rparr>)"

fun rakaia_pull ::
  "nat \<Rightarrow> (nat \<Rightarrow> u8) \<Rightarrow> nat \<Rightarrow> bool \<Rightarrow> nat \<Rightarrow> rakaia \<Rightarrow> (fault + int \<times> rakaia) option" where
  "rakaia_pull 0 rnd p sched_ok ksk rk = None"
| "rakaia_pull (Suc n) rnd p sched_ok ksk rk =
     (case deref rk ksk of
        Inl f \<Rightarrow> Some (Inl f)
      | Inr k \<Rightarrow>
          (case skb_dequeue (k_rx_q k) of
             (Some skb, rest) \<Rightarrow>
               (let rk1 = upd_sock ksk (\<lambda>s. s\<lparr>k_rx_q := rest\<rparr>) rk;
                    rk2 = (if rest = [] then rk1\<lparr>r_rx_nonempty_bm :=
                                    unset_bit (nat (k_index k)) (r_rx_nonempty_bm rk1)\<rparr>
                           else rk1)
                in Some (rakaia_queue_rcv_skb sched_ok ksk skb rk2))
           | (None, _) \<Rightarrow>
               (case rakaia_steal_skb n rnd p ksk rk of
                  None \<Rightarrow> None
                | Some (Inl f) \<Rightarrow> Some (Inl f)
                | Some (Inr (Some skb, rk1, _)) \<Rightarrow> Some (rakaia_queue_rcv_skb sched_ok ksk skb rk1)
                | Some (Inr (None, rk1, p1)) \<Rightarrow>
                    if r_rx_nonempty_bm rk1 \<noteq> 0 then rakaia_pull n rnd p1 sched_ok ksk rk1
                    else Some (Inr (0, rakaia_go_idle ksk k rk1)))))"

end
