(* ===== verification/World.thy ===== *)
theory World
  imports Tx Scheduler
begin

text \<open>
  The whole module: the scheduler state together with the attached lower sockets. A psock
  (\<open>struct rakaia_psock\<close>) ties a TCP socket to its stream parser and its accumulation
  queue; psocks and lower sockets live in stores indexed by address. The theory has the
  callbacks a lower socket runs, the transmit handlers and the two system calls that move
  data, \<open>rakaia_sendmsg\<close> and \<open>rakaia_recvmsg\<close>.
\<close>

section \<open>State\<close>

datatype lower_cb = KernelCb nat | PsockDataReady | PsockWriteSpace | PsockStateChange

record rakaia_psock =
  p_sk :: "nat option"
  p_strp :: "unit strparser"
  p_tx_in_use :: int
  p_tx_wait_queue :: "tx_skb list"
  p_tx_tmp_queue :: "tx_skb list"
  p_accumu :: int
  p_process_backlog :: int
  p_save_data_ready :: lower_cb
  p_save_write_space :: lower_cb
  p_save_state_change :: lower_cb

record lower =
  lw_tcp :: tcp_sock
  lw_family :: nat
  lw_protocol :: nat
  lw_user_data :: "nat option"
  lw_data_ready :: lower_cb
  lw_write_space :: lower_cb
  lw_state_change :: lower_cb
  lw_refs :: int
  lw_file_refs :: int
  lw_view :: lower_sock

record world =
  w_rk :: rakaia
  w_psocks :: "nat \<Rightarrow> rakaia_psock option"
  w_lower :: "nat \<Rightarrow> lower option"
  w_tx_work :: "nat list"

definition psock_at :: "world \<Rightarrow> nat \<Rightarrow> fault + rakaia_psock" where
  "psock_at w p = (case w_psocks w p of None \<Rightarrow> Inl UseAfterFree | Some ps \<Rightarrow> Inr ps)"

definition lower_at :: "world \<Rightarrow> nat option \<Rightarrow> fault + nat \<times> lower" where
  "lower_at w c =
     (case c of
        None \<Rightarrow> Inl NullDeref
      | Some a \<Rightarrow> (case w_lower w a of None \<Rightarrow> Inl UseAfterFree | Some l \<Rightarrow> Inr (a, l)))"

definition set_psock :: "nat \<Rightarrow> rakaia_psock \<Rightarrow> world \<Rightarrow> world" where
  "set_psock p ps w = w\<lparr>w_psocks := (w_psocks w)(p := Some ps)\<rparr>"

definition set_lower :: "nat \<Rightarrow> lower \<Rightarrow> world \<Rightarrow> world" where
  "set_lower c l w = w\<lparr>w_lower := (w_lower w)(c := Some l)\<rparr>"

declare psock_at_def [access_defs] lower_at_def [access_defs] set_psock_def [access_defs] set_lower_def [access_defs]

definition bind_fault :: "fault + 'a \<Rightarrow> ('a \<Rightarrow> fault + 'b) \<Rightarrow> fault + 'b" where
  "bind_fault m f = (case m of Inl e \<Rightarrow> Inl e | Inr x \<Rightarrow> f x)"

lemma bind_fault_simps [simp]: "bind_fault (Inl e) f = Inl e" "bind_fault (Inr x) f = f x"
  by (simp_all add: bind_fault_def)

lemma bind_fault_Inr:
  "bind_fault m f = Inr y \<longleftrightarrow> (\<exists>x. m = Inr x \<and> f x = Inr y)"
  by (cases m) simp_all

section \<open>Callbacks of the lower socket\<close>

text \<open>
  \<open>psock_data_ready\<close> runs the stream parser of the attached psock. The parser's view of
  the socket, how its read callback is driven and the upper state are arguments.
\<close>

definition psock_data_ready ::
  "(unit, 'u) strp_hooks \<Rightarrow> bool \<Rightarrow> (unit, 'u) read_sock \<Rightarrow> int \<Rightarrow> nat \<Rightarrow> world \<times> 'u \<Rightarrow>
     (fault + world \<times> 'u) option" where
  "psock_data_ready H sock_ok RS peek c wu =
     (case wu of (w, u) \<Rightarrow>
        (case w_lower w c of
           None \<Rightarrow> Some (Inl UseAfterFree)
         | Some l \<Rightarrow>
             (case lw_user_data l of
                None \<Rightarrow> Some (Inr wu)
              | Some p \<Rightarrow>
                  (case psock_at w p of
                     Inl f \<Rightarrow> Some (Inl f)
                   | Inr ps \<Rightarrow>
                       map_option (map_sum id (\<lambda>r. (set_psock p (ps\<lparr>p_strp := rx_strp r\<rparr>) w, rx_up r)))
                         (strp_data_ready H sock_ok RS peek
                            \<lparr>rx_strp = p_strp ps, rx_error = 0, rx_count = 0, rx_up = u\<rparr>)))))"

text \<open>The error number passed to \<open>report_csk_error\<close> is not used.\<close>

definition report_csk_error :: "int \<Rightarrow> lower \<Rightarrow> lower" where
  "report_csk_error err l =
     l\<lparr>lw_tcp := (lw_tcp l)\<lparr>ts_err := EPIPE\<rparr>,
       lw_view := (lw_view l)\<lparr>ls_err := EPIPE, ls_reports := ls_reports (lw_view l) + 1\<rparr>\<rparr>"

definition psock_state_change :: "nat \<Rightarrow> world \<Rightarrow> fault + world" where
  "psock_state_change c w =
     (case w_lower w c of
        None \<Rightarrow> Inl UseAfterFree
      | Some l \<Rightarrow> Inr (set_lower c (report_csk_error EPIPE l) w))"

text \<open>\<open>queue_work\<close> does nothing when the work item is already queued.\<close>

definition psock_write_space :: "nat \<Rightarrow> world \<Rightarrow> fault + world" where
  "psock_write_space c w =
     (case w_lower w c of
        None \<Rightarrow> Inl UseAfterFree
      | Some l \<Rightarrow>
          (case lw_user_data l of
             None \<Rightarrow> Inr w
           | Some p \<Rightarrow> Inr (if p \<in> set (w_tx_work w) then w else w\<lparr>w_tx_work := w_tx_work w @ [p]\<rparr>)))"

section \<open>Transmitting what has accumulated\<close>

definition add_snd_cnt :: "int \<Rightarrow> (u64 \<Rightarrow> u64) \<Rightarrow> rakaia \<Rightarrow> fault + rakaia" where
  "add_snd_cnt ksk_index f rk =
     map_sum id (\<lambda>(a, _). upd_sock a (\<lambda>s. s\<lparr>k_snd_cnt := f (k_snd_cnt s)\<rparr>) rk) (sock_slot rk ksk_index)"

text \<open>
  One round: the whole accumulation queue moves to the write queue and TCP is asked to
  push it.
\<close>

definition try_send_round ::
  "tcp_kernel \<Rightarrow> u16 \<Rightarrow> int \<Rightarrow> u32 \<Rightarrow> int \<Rightarrow> tx_skb list \<Rightarrow> tcp_sock \<times> rakaia \<Rightarrow>
     fault + tcp_sock \<times> rakaia" where
  "try_send_round K junk ksk_index flags mss_now waiting st =
     (case st of (tp, rk) \<Rightarrow>
       (let tp1 = tx_splice waiting tp in
        bind_fault (add_snd_cnt ksk_index (\<lambda>n. n + word_of_nat (length (ts_write_queue tp1))) rk)
          (\<lambda>rk1.
             (let tp2 = tx_push K junk flags mss_now tp1 in
              bind_fault (add_snd_cnt ksk_index (\<lambda>n. n - word_of_nat (length (ts_write_queue tp2))) rk1)
                (\<lambda>rk2. Inr (tk_flush_backlog K tp2, rk2))))))"

text \<open>
  While the loop runs, other threads splice further messages onto the accumulation queue:
  \<open>arrivals i\<close> is what the queue holds when round \<open>i\<close> looks at it, beyond the first.
\<close>

fun try_send_loop ::
  "nat \<Rightarrow> tcp_kernel \<Rightarrow> u16 \<Rightarrow> int \<Rightarrow> u32 \<Rightarrow> int \<Rightarrow> (nat \<Rightarrow> tx_skb list) \<Rightarrow> nat \<Rightarrow> tx_skb list \<Rightarrow>
     tcp_sock \<times> rakaia \<Rightarrow> (fault + tcp_sock \<times> rakaia) option" where
  "try_send_loop n K junk ksk_index flags mss_now arrivals i waiting st =
     (if waiting = [] then Some (Inr st)
      else
        (case n of
           0 \<Rightarrow> None
         | Suc m \<Rightarrow>
             (case try_send_round K junk ksk_index flags mss_now waiting st of
                Inl f \<Rightarrow> Some (Inl f)
              | Inr st1 \<Rightarrow>
                  try_send_loop m K junk ksk_index flags mss_now arrivals (Suc i) (arrivals i) st1)))"

declare try_send_loop.simps [simp del]

definition try_send_from_psock ::
  "nat \<Rightarrow> tcp_kernel \<Rightarrow> u16 \<Rightarrow> (nat \<Rightarrow> tx_skb list) \<Rightarrow> int \<Rightarrow> nat \<Rightarrow> u32 \<Rightarrow> int \<Rightarrow> world \<Rightarrow>
     (fault + world) option" where
  "try_send_from_psock n K junk arrivals ksk_index p flags mss_now w =
     (case psock_at w p of
        Inl f \<Rightarrow> Some (Inl f)
      | Inr ps \<Rightarrow>
          if p_tx_in_use ps \<noteq> 0 then Some (Inr w)
          else
            (case lower_at w (p_sk ps) of
               Inl f \<Rightarrow> Some (Inl f)
             | Inr (c, l) \<Rightarrow>
                 map_option (map_sum id (\<lambda>(tp, rk).
                     (set_psock p (ps\<lparr>p_tx_in_use := 0, p_tx_wait_queue := []\<rparr>)
                        (set_lower c (l\<lparr>lw_tcp := tp\<rparr>) w))\<lparr>w_rk := rk\<rparr>))
                   (try_send_loop n K junk ksk_index flags mss_now arrivals 0 (p_tx_wait_queue ps)
                      (lw_tcp l, w_rk w))))"

text \<open>The work item passes index 0, though a comment announces \<open>-1\<close>.\<close>

definition rakaia_tx_work ::
  "nat \<Rightarrow> tcp_kernel \<Rightarrow> u16 \<Rightarrow> (nat \<Rightarrow> tx_skb list) \<Rightarrow> nat \<Rightarrow> world \<Rightarrow> (fault + world) option" where
  "rakaia_tx_work n K junk arrivals p w =
     (case psock_at w p of
        Inl f \<Rightarrow> Some (Inl f)
      | Inr ps \<Rightarrow>
          (case p_sk ps of
             None \<Rightarrow> Some (Inr w)
           | Some c \<Rightarrow>
               (case lower_at w (Some c) of
                  Inl f \<Rightarrow> Some (Inl f)
                | Inr (_, l) \<Rightarrow>
                    (case tcp_send_mss K MSG_DONTWAIT (lw_tcp l) of
                       Inl f \<Rightarrow> Some (Inl f)
                     | Inr (mss_now, _, tp) \<Rightarrow>
                         try_send_from_psock n K junk arrivals 0 p MSG_DONTWAIT mss_now
                           (set_lower c (l\<lparr>lw_tcp := tp\<rparr>) w)))))"

section \<open>Sending a message\<close>

text \<open>
  What one call of \<open>rakaia_sendmsg\<close> asks of the kernel: the TCP and memory helpers, the
  page fragment of the socket, the stale stack word read as time stamp flags, what other
  threads queue meanwhile, the random bytes of the final pull, and \<open>sk_stream_error\<close>.
\<close>

record send_call =
  sc_tcp :: tcp_kernel
  sc_send :: send_kernel
  sc_pfrag :: page_frag
  sc_junk :: u16
  sc_arrivals :: "nat \<Rightarrow> tx_skb list"
  sc_rnd :: "nat \<Rightarrow> u8"
  sc_sched_ok :: bool
  sc_stream_error :: "int \<Rightarrow> int"

definition send_start ::
  "bytes \<Rightarrow> page_frag \<Rightarrow> rakaia_sock \<Rightarrow> rakaia_psock \<Rightarrow> tcp_sock \<Rightarrow> send_st" where
  "send_start msg pf k ps tp =
     \<lparr>sn_left = msg, sn_cur = [], sn_at = 0, sn_copy = 0, sn_copied = 0, sn_pfrag = pf,
      sn_wmem = k_wmem_queued k, sn_charge = k_mem_charged k, sn_backlog = p_process_backlog ps,
      sn_tp = tp, sn_wait = p_tx_wait_queue ps, sn_nospace = False, sn_tick = 0\<rparr>"

text \<open>Writing the local results back into the socket, the psock and the lower socket.\<close>

definition send_store :: "nat \<Rightarrow> nat \<Rightarrow> nat \<Rightarrow> send_st \<Rightarrow> world \<Rightarrow> world" where
  "send_store a p c s w =
     w\<lparr>w_rk := upd_sock a (\<lambda>k. k\<lparr>k_wmem_queued := sn_wmem s, k_mem_charged := sn_charge s\<rparr>) (w_rk w),
       w_psocks := (w_psocks w)(p := map_option
           (\<lambda>ps. ps\<lparr>p_tx_wait_queue := sn_wait s, p_process_backlog := sn_backlog s\<rparr>) (w_psocks w p)),
       w_lower := (w_lower w)(c := map_option (\<lambda>l. l\<lparr>lw_tcp := sn_tp s\<rparr>) (w_lower w c))\<rparr>"

text \<open>
  \<open>do_error\<close>: once bytes were copied, the walk over \<open>cur_msg\<close> frees a buffer and then
  reads its successor pointer; with nothing copied the buffers are neither freed nor
  uncharged.
\<close>

definition send_do_error ::
  "send_call \<Rightarrow> nat \<Rightarrow> nat \<Rightarrow> nat \<Rightarrow> int \<Rightarrow> send_st \<Rightarrow> world \<Rightarrow> fault + int \<times> world" where
  "send_do_error S a p c err s w =
     (let s1 = s\<lparr>sn_tp := tcp_remove_empty_skb (sc_tcp S) (sn_tp s)\<rparr>
      in if sn_copied s \<noteq> 0 \<and> sn_cur s \<noteq> [] then Inl UseAfterFree
         else Inr (sc_stream_error S err, send_store a p c s1 w))"

definition send_out ::
  "nat \<Rightarrow> send_call \<Rightarrow> nat \<Rightarrow> nat \<Rightarrow> u32 \<Rightarrow> int \<Rightarrow> int \<Rightarrow> world \<Rightarrow> (fault + int \<times> world) option" where
  "send_out n S a p flags mss_now copied w =
     (let w1 = w\<lparr>w_rk := upd_sock a (\<lambda>k. k\<lparr>k_accumu_cnt := k_accumu_cnt k + 1\<rparr>) (w_rk w)\<rparr> in
      case deref (w_rk w1) a of
        Inl f \<Rightarrow> Some (Inl f)
      | Inr k \<Rightarrow>
          (case try_send_from_psock n (sc_tcp S) (sc_junk S) (sc_arrivals S) (k_index k) p flags mss_now w1 of
             None \<Rightarrow> None
           | Some (Inl f) \<Rightarrow> Some (Inl f)
           | Some (Inr w2) \<Rightarrow>
               (case rakaia_pull n (sc_rnd S) 0 (sc_sched_ok S) a (w_rk w2) of
                  None \<Rightarrow> None
                | Some (Inl f) \<Rightarrow> Some (Inl f)
                | Some (Inr (_, rk)) \<Rightarrow> Some (Inr (copied, w2\<lparr>w_rk := rk\<rparr>)))))"

definition send_body ::
  "nat \<Rightarrow> send_call \<Rightarrow> nat \<Rightarrow> rakaia_sock \<Rightarrow> nat \<Rightarrow> rakaia_psock \<Rightarrow> nat \<Rightarrow> u32 \<Rightarrow> bytes \<Rightarrow> lower \<Rightarrow>
     world \<Rightarrow> (fault + int \<times> world) option" where
  "send_body n S a k p ps c flags msg l w =
     (case tcp_send_mss (sc_tcp S) flags (lw_tcp l) of
        Inl f \<Rightarrow> Some (Inl f)
      | Inr (mss_now, size_goal, tp) \<Rightarrow>
          (case send_run n (sc_tcp S) (sc_send S) size_goal
                  (LoopHead, send_start msg (sc_pfrag S) k ps tp) of
             None \<Rightarrow> None
           | Some (DoError err, s) \<Rightarrow> Some (send_do_error S a p c err s w)
           | Some (_, s) \<Rightarrow> send_out n S a p flags mss_now (sn_copied s) (send_store a p c s w)))"

definition rakaia_sendmsg ::
  "nat \<Rightarrow> send_call \<Rightarrow> nat \<Rightarrow> u32 \<Rightarrow> bytes \<Rightarrow> world \<Rightarrow> (fault + int \<times> world) option" where
  "rakaia_sendmsg n S a msg_flags msg w =
     (let w1 = w\<lparr>w_rk := upd_sock a (\<lambda>k. k\<lparr>k_msg_cnt := k_msg_cnt k + 1\<rparr>) (w_rk w)\<rparr>;
          flags = msg_flags OR MSG_DONTWAIT
      in case deref (w_rk w1) a of
           Inl f \<Rightarrow> Some (Inl f)
         | Inr k \<Rightarrow>
             if k_err k \<noteq> 0 \<or> k_send_shutdown k then Some (Inr (sc_stream_error S (- EPIPE), w1))
             else if msg = [] then Some (Inr (sc_stream_error S (- EPIPE), w1))
             else
               (case k_last_psock k of
                  None \<Rightarrow> Some (Inr (sc_stream_error S (- EPIPE), w1))
                | Some p \<Rightarrow>
                    (case psock_at w1 p of
                       Inl f \<Rightarrow> Some (Inl f)
                     | Inr ps \<Rightarrow>
                         (case lower_at w1 (p_sk ps) of
                            Inl f \<Rightarrow> Some (Inl f)
                          | Inr (c, l) \<Rightarrow> send_body n S a k p ps c flags msg l w1))))"

section \<open>Receiving a message\<close>

text \<open>
  \<open>skb_recv_datagram\<close> takes the first buffer of the receive queue, or leaves it there when
  peeking; \<open>wait_err\<close> is its error when the queue is empty. Freeing a buffer that was taken
  runs its destructor \<open>rakaia_rfree\<close>; a peeked one keeps a reference.
\<close>

record recv_result =
  rc_ret :: int
  rc_bytes :: bytes
  rc_flags :: u32

definition skb_recv_datagram :: "bool \<Rightarrow> nat \<Rightarrow> rakaia_sock \<Rightarrow> rakaia \<Rightarrow> (sk_buff \<times> rakaia) option" where
  "skb_recv_datagram peek a k rk =
     (case k_recvq k of
        [] \<Rightarrow> None
      | skb # rest \<Rightarrow>
          Some (skb, if peek then rk else upd_sock a (\<lambda>s. s\<lparr>k_recvq := rest\<rparr>) rk))"

definition skb_free_datagram :: "bool \<Rightarrow> nat \<Rightarrow> sk_buff \<Rightarrow> rakaia \<Rightarrow> fault + rakaia" where
  "skb_free_datagram peek a skb rk = (if peek then Inr rk else rakaia_rfree a skb rk)"

definition cb_psock :: "sk_buff \<Rightarrow> nat option" where
  "cb_psock skb = (case sb_cb0 skb of CbPsock p \<Rightarrow> Some p | _ \<Rightarrow> None)"

text \<open>
  \<open>copy_err\<close> is the result of \<open>skb_copy_datagram_msg\<close>. For a sequenced packet the rest of a
  partly read message is kept in the buffer by advancing its offset, but the buffer is
  freed right after.
\<close>

definition rakaia_recvmsg ::
  "sock_type \<Rightarrow> int \<Rightarrow> int \<Rightarrow> nat \<Rightarrow> nat \<Rightarrow> u32 \<Rightarrow> rakaia \<Rightarrow> fault + recv_result \<times> rakaia" where
  "rakaia_recvmsg ty wait_err copy_err a len flags rk =
     bind_fault (deref rk a) (\<lambda>k.
       let peek = has_flag flags MSG_PEEK in
       case skb_recv_datagram peek a k rk of
         None \<Rightarrow> Inr (\<lparr>rc_ret = wait_err, rc_bytes = [], rc_flags = 0\<rparr>, rk)
       | Some (skb, rk1) \<Rightarrow>
           (let rk2 = upd_sock a (\<lambda>s. s\<lparr>k_last_psock := cb_psock skb\<rparr>) rk1;
                n = min (int len) (sb_full_len skb);
                data = take (nat n) (skb_view skb);
                mflags = (if peek then 0
                          else if n < sb_full_len skb
                          then (if ty = SOCK_DGRAM then MSG_TRUNC OR MSG_EOR else 0)
                          else MSG_EOR)
            in if copy_err < 0
               then map_sum id (\<lambda>r. (\<lparr>rc_ret = copy_err, rc_bytes = [], rc_flags = 0\<rparr>, r))
                      (skb_free_datagram peek a skb rk2)
               else map_sum id (\<lambda>r. (\<lparr>rc_ret = (if n \<noteq> 0 then n else copy_err), rc_bytes = data,
                                      rc_flags = mflags\<rparr>, r))
                      (skb_free_datagram peek a skb rk2)))"

text \<open>
  \<open>spliced\<close> is what \<open>skb_splice_bits\<close> returns for at most \<open>n\<close> bytes. The splice flags are
  passed on as receive flags; with the peek bit set the buffer stays in the queue and its
  offset is advanced there.
\<close>

definition rakaia_splice_read ::
  "int \<Rightarrow> (int \<Rightarrow> int) \<Rightarrow> nat \<Rightarrow> nat \<Rightarrow> u32 \<Rightarrow> rakaia \<Rightarrow> fault + int \<times> rakaia" where
  "rakaia_splice_read wait_err spliced a len flags rk =
     bind_fault (deref rk a) (\<lambda>k.
       let peek = has_flag flags MSG_PEEK in
       case skb_recv_datagram peek a k rk of
         None \<Rightarrow> Inr (wait_err, rk)
       | Some (skb, rk1) \<Rightarrow>
           (let copied = spliced (min (int len) (sb_full_len skb));
                skb1 = (if copied < 0 then skb
                        else skb\<lparr>sb_offset := sb_offset skb + copied,
                                 sb_full_len := sb_full_len skb - copied\<rparr>);
                rk2 = (if peek then upd_sock a (\<lambda>s. s\<lparr>k_recvq := skb1 # tl (k_recvq s)\<rparr>) rk1 else rk1)
            in map_sum id (\<lambda>r. (copied, r)) (skb_free_datagram peek a skb1 rk2)))"

end
