(* ===== verification/Sched_Correct.thy ===== *)
theory Sched_Correct
  imports Scheduler
begin

text \<open>
  Correctness of the scheduler when its handlers run one after another, in the phase in
  which all sockets exist: the invariant that ties the bitmaps and the waiting list to the
  queues, its preservation, the termination of pulling, and the simulation of an abstract
  work-conserving scheduler with one central pool of messages.
\<close>

section \<open>The invariant\<close>

definition queue_of :: "rakaia \<Rightarrow> nat \<Rightarrow> sk_buff list" where
  "queue_of rk i =
     (case r_socks rk ! i of
        None \<Rightarrow> []
      | Some a \<Rightarrow> (case r_heap rk a of None \<Rightarrow> [] | Some k \<Rightarrow> k_rx_q k))"

definition socks_inv :: "rakaia \<Rightarrow> bool" where
  "socks_inv rk \<longleftrightarrow>
     length (r_socks rk) = 20 \<and> distinct (r_socks rk) \<and>
     (\<forall>i<20. \<exists>a k. r_socks rk ! i = Some a \<and> r_heap rk a = Some k \<and> k_index k = int i)"

definition bm_inv :: "rakaia \<Rightarrow> bool" where
  "bm_inv rk \<longleftrightarrow> (\<forall>i. bit (r_rx_nonempty_bm rk) i \<longleftrightarrow> i < 20 \<and> queue_of rk i \<noteq> [])"

definition waiters_inv :: "rakaia \<Rightarrow> bool" where
  "waiters_inv rk \<longleftrightarrow>
     distinct (r_waiters rk) \<and> (\<forall>i. bit (r_waiters_bm rk) i \<longrightarrow> i < 20) \<and>
     (\<forall>a. a \<in> set (r_waiters rk) \<longleftrightarrow> (\<exists>i<20. r_socks rk ! i = Some a \<and> bit (r_waiters_bm rk) i))"

text \<open>Work conservation: no socket waits while a message is queued.\<close>

definition work_inv :: "rakaia \<Rightarrow> bool" where
  "work_inv rk \<longleftrightarrow> (r_waiters rk \<noteq> [] \<longrightarrow> (\<forall>i<20. queue_of rk i = []))"

definition sched_inv :: "rakaia \<Rightarrow> bool" where
  "sched_inv rk \<longleftrightarrow> socks_inv rk \<and> bm_inv rk \<and> waiters_inv rk \<and> work_inv rk"

declare sched_inv_def [inv_defs] bm_inv_def [inv_defs] waiters_inv_def [inv_defs] work_inv_def [inv_defs]

lemma sched_invD:
  assumes "sched_inv rk"
  shows "socks_inv rk" "bm_inv rk" "waiters_inv rk" "work_inv rk"
  using assms by (simp_all add: sched_inv_def)

section \<open>Slots\<close>

text \<open>\<open>at_slot rk i a k\<close>: slot \<open>i\<close> holds the pointer \<open>a\<close> to the live socket \<open>k\<close>.\<close>

definition at_slot :: "rakaia \<Rightarrow> nat \<Rightarrow> nat \<Rightarrow> rakaia_sock \<Rightarrow> bool" where
  "at_slot rk i a k \<longleftrightarrow>
     i < 20 \<and> r_socks rk ! i = Some a \<and> r_heap rk a = Some k \<and> k_index k = int i"

lemma socks_inv_slot:
  assumes "socks_inv rk" "i < 20"
  obtains a k where "at_slot rk i a k"
  using assms unfolding socks_inv_def at_slot_def by blast

lemma slot_index_unique:
  assumes "socks_inv rk" "i < 20" "j < 20" "r_socks rk ! i = Some a" "r_socks rk ! j = Some a"
  shows "i = j"
proof -
  have "length (r_socks rk) = 20" "distinct (r_socks rk)"
    using assms(1) by (simp_all add: socks_inv_def)
  then show ?thesis using assms(2-5) nth_eq_iff_index_eq [of "r_socks rk" i j] by simp
qed

lemma slot_unique:
  assumes "socks_inv rk" "at_slot rk i a k" "at_slot rk j a k'"
  shows "i = j"
  using assms by (auto simp: socks_inv_def at_slot_def nth_eq_iff_index_eq)

lemma sock_slot_at: "socks_inv rk \<Longrightarrow> at_slot rk i a k \<Longrightarrow> sock_slot rk (int i) = Inr (a, k)"
  by (simp add: sock_slot_def at_slot_def socks_inv_def deref_def)

lemma deref_at: "at_slot rk i a k \<Longrightarrow> deref rk a = Inr k"
  by (simp add: deref_def at_slot_def)

lemma queue_of_at: "at_slot rk i a k \<Longrightarrow> queue_of rk i = k_rx_q k"
  by (simp add: queue_of_def at_slot_def)

lemma waiter_slot:
  assumes "socks_inv rk" "waiters_inv rk" "a \<in> set (r_waiters rk)"
  obtains i k where "at_slot rk i a k" "bit (r_waiters_bm rk) i"
proof -
  from assms(2,3) obtain i where i: "i < 20" "r_socks rk ! i = Some a" "bit (r_waiters_bm rk) i"
    by (auto simp: waiters_inv_def)
  with socks_inv_slot [OF assms(1) i(1)] show ?thesis
    by (metis at_slot_def option.inject that)
qed

lemma waiting_bit_iff:
  assumes "socks_inv rk" "waiters_inv rk" "at_slot rk i a k"
  shows "bit (r_waiters_bm rk) i \<longleftrightarrow> a \<in> set (r_waiters rk)"
  using assms waiter_slot [OF assms(1,2), of a] slot_unique [OF assms(1,3)]
  by (metis at_slot_def waiters_inv_def)

text \<open>Updates that keep the index keep the slots.\<close>

lemma socks_inv_upd:
  assumes "socks_inv rk" "\<And>k. k_index (f k) = k_index k"
  shows "socks_inv (upd_sock a f rk)"
  unfolding socks_inv_def
proof (intro conjI allI impI)
  show "length (r_socks (upd_sock a f rk)) = 20" "distinct (r_socks (upd_sock a f rk))"
    using assms(1) by (simp_all add: socks_inv_def)
next
  fix i :: nat assume "i < 20"
  then obtain b k where "at_slot rk i b k" by (rule socks_inv_slot [OF assms(1)])
  then show "\<exists>b k. r_socks (upd_sock a f rk) ! i = Some b \<and>
      r_heap (upd_sock a f rk) b = Some k \<and> k_index k = int i"
    by (auto simp: at_slot_def assms(2))
qed

lemma at_slot_upd:
  "at_slot rk i b k \<Longrightarrow> k_index (f k) = k_index k \<Longrightarrow>
     at_slot (upd_sock a f rk) i b (if b = a then f k else k)"
  by (auto simp: at_slot_def)

lemma queue_of_upd:
  assumes "socks_inv rk" "at_slot rk i a k" "j < 20"
  shows "queue_of (upd_sock a f rk) j = (if j = i then k_rx_q (f k) else queue_of rk j)"
proof -
  obtain b kb where b: "at_slot rk j b kb" by (rule socks_inv_slot [OF assms(1,3)])
  show ?thesis
  proof (cases "j = i")
    case True
    with assms(2) show ?thesis by (simp add: queue_of_def at_slot_def)
  next
    case False
    with b assms slot_unique [OF assms(1), of i a k j] have "b \<noteq> a"
      by (auto simp: at_slot_def)
    with b False show ?thesis by (simp add: queue_of_def at_slot_def)
  qed
qed

lemma queue_of_frame:
  "r_socks rk' = r_socks rk \<Longrightarrow> r_heap rk' = r_heap rk \<Longrightarrow> queue_of rk' i = queue_of rk i"
  by (simp add: queue_of_def split: option.split)

lemma socks_inv_frame:
  "r_socks rk' = r_socks rk \<Longrightarrow> r_heap rk' = r_heap rk \<Longrightarrow> socks_inv rk' = socks_inv rk"
  by (simp add: socks_inv_def)

section \<open>What a push does\<close>

lemma shorter_queue_slot:
  assumes "socks_inv rk"
  obtains i a k where "shorter_queue rk rnd1 rnd2 = Inr (a, k)" "at_slot rk i a k"
    "i = unat rnd1 mod 20 \<or> i = unat rnd2 mod 20"
    "length (k_rx_q k) \<le> length (queue_of rk (unat rnd1 mod 20))"
    "length (k_rx_q k) \<le> length (queue_of rk (unat rnd2 mod 20))"
proof -
  have "unat rnd1 mod 20 < 20" "unat rnd2 mod 20 < 20" by simp_all
  then obtain a1 k1 a2 k2 where
    s: "at_slot rk (unat rnd1 mod 20) a1 k1" "at_slot rk (unat rnd2 mod 20) a2 k2"
    using socks_inv_slot [OF assms] by metis
  then have "shorter_queue rk rnd1 rnd2 =
      Inr (if length (k_rx_q k1) \<le> length (k_rx_q k2) then (a1, k1) else (a2, k2))"
    using sock_slot_at [OF assms s(1)] sock_slot_at [OF assms s(2)]
    by (simp add: shorter_queue_def NUM_RAKAIA_SOCKETS_def Let_def zmod_int)
  with s that show ?thesis
    by (cases "length (k_rx_q k1) \<le> length (k_rx_q k2)") (auto simp: queue_of_at)
qed

lemma queue_rcv_cases:
  assumes "r_heap rk a = Some k"
  obtains (ok) "rakaia_queue_rcv_skb sched_ok a m rk =
      Inr (0, upd_sock a (\<lambda>s. s\<lparr>k_rmem_alloc := k_rmem_alloc s + sb_truesize m,
               k_mem_charged := k_mem_charged s + sb_truesize m,
               k_recvq := k_recvq s @ [m],
               k_wakeups := (if k_dead s then k_wakeups s else k_wakeups s + 1)\<rparr>) rk)"
      "k_rmem_alloc k < k_rcvbuf k"
  | (refused) e where "rakaia_queue_rcv_skb sched_ok a m rk = Inr (e, rk)" "e < 0"
proof (cases "k_rmem_alloc k \<ge> k_rcvbuf k \<or> \<not> sched_ok")
  case True
  then have "\<exists>e<0. rakaia_queue_rcv_skb sched_ok a m rk = Inr (e, rk)"
    using assms by (auto simp: rakaia_queue_rcv_skb_def deref_def)
  with refused show ?thesis by blast
next
  case False
  with assms show ?thesis
    by (intro ok) (auto simp: rakaia_queue_rcv_skb_def deref_def skb_queue_tail_def)
qed

text \<open>With a waiting socket the pushed message goes through the queue and out again.\<close>

lemma requeue_neutral:
  assumes "r_heap rk a = Some k" "k_rx_q k = []"
  shows "upd_sock a (\<lambda>s. s\<lparr>k_rx_q := []\<rparr>) ((upd_sock a (\<lambda>s. s\<lparr>k_rx_q := k_rx_q s @ [m]\<rparr>) rk)
           \<lparr>r_waiters := ws, r_waiters_bm := bm\<rparr>) = rk\<lparr>r_waiters := ws, r_waiters_bm := bm\<rparr>"
proof -
  have "(r_heap rk)(a := Some (k\<lparr>k_rx_q := []\<rparr>)) = r_heap rk"
    using assms by (auto simp: fun_eq_iff)
  then show ?thesis using assms by (simp add: upd_sock_def)
qed

lemma push_cases:
  fixes skb psock rnd1 rnd2 sched_ok
  assumes inv: "sched_inv rk"
  defines "m \<equiv> skb\<lparr>sb_cb0 := CbPsock psock\<rparr>"
  defines "P \<equiv> rakaia_push_skb_single_queue rnd1 rnd2 sched_ok skb psock rk"
  obtains
    (busy) i ca c where "at_slot rk i ca c" "k_rx_q c \<noteq> []" "r_waiters rk = []"
      "P = Inr (0, upd_sock ca (\<lambda>s. s\<lparr>k_rx_q := k_rx_q s @ [m]\<rparr>) rk)"
  | (first) i ca c where "at_slot rk i ca c" "k_rx_q c = []" "r_waiters rk = []"
      "P = Inr (0, (upd_sock ca (\<lambda>s. s\<lparr>k_rx_q := k_rx_q s @ [m]\<rparr>) rk)
                     \<lparr>r_rx_nonempty_bm := set_bit i (r_rx_nonempty_bm rk)\<rparr>)"
  | (idle) i j w k where "\<forall>i<20. queue_of rk i = []" "i < 20" "at_slot rk j w k"
      "w \<in> set (r_waiters rk)"
      "P = rakaia_queue_rcv_skb sched_ok w m
             (rk\<lparr>r_waiters := remove1 w (r_waiters rk),
                 r_waiters_bm := unset_bit j (r_waiters_bm rk),
                 r_rx_nonempty_bm := unset_bit i (r_rx_nonempty_bm rk),
                 r_push_cnt := r_push_cnt rk + 1\<rparr>)"
proof -
  note I = sched_invD [OF inv]
  obtain i ca c where sq: "shorter_queue rk rnd1 rnd2 = Inr (ca, c)" and c: "at_slot rk i ca c"
    by (rule shorter_queue_slot [OF I(1)])
  let ?rk1 = "upd_sock ca (\<lambda>s. s\<lparr>k_rx_q := k_rx_q s @ [m]\<rparr>) rk"
  have i: "i < 20" "nat (k_index c) = i" "r_heap rk ca = Some c" using c by (auto simp: at_slot_def)
  show ?thesis
  proof (cases "k_rx_q c = []")
    case False
    with c have "r_waiters rk = []"
      using I(4) queue_of_at [OF c] by (auto simp: work_inv_def at_slot_def)
    with False c sq busy show ?thesis
      by (auto simp: P_def m_def rakaia_push_skb_single_queue_def skb_queue_tail_def Let_def
          Suc_le_eq)
  next
    case empty: True
    show ?thesis
    proof (cases "r_waiters rk")
      case Nil
      with empty c sq i first show ?thesis
        by (auto simp: P_def m_def rakaia_push_skb_single_queue_def skb_queue_tail_def Let_def
            rakaia_get_avail_sk_def)
    next
      case (Cons f ws)
      then have all: "\<forall>i<20. queue_of rk i = []" using I(4) by (simp add: work_inv_def)
      define w where "w = (if bit (r_waiters_bm rk) i then ca else f)"
      have w: "w \<in> set (r_waiters rk)"
        using waiting_bit_iff [OF I(1,3) c] Cons by (auto simp: w_def)
      then obtain j k where wk: "at_slot rk j w k" using waiter_slot [OF I(1,3)] by metis
      have av: "rakaia_get_avail_sk (Some ca) ?rk1 =
          Inr (Some w, ?rk1\<lparr>r_waiters := remove1 w (r_waiters rk),
                            r_waiters_bm := unset_bit j (r_waiters_bm rk)\<rparr>)"
        using Cons wk c i
        by (auto simp: rakaia_get_avail_sk_def deref_def at_slot_def w_def)
      have "P = rakaia_queue_rcv_skb sched_ok w m
             (rk\<lparr>r_waiters := remove1 w (r_waiters rk),
                 r_waiters_bm := unset_bit j (r_waiters_bm rk),
                 r_rx_nonempty_bm := unset_bit i (r_rx_nonempty_bm rk),
                 r_push_cnt := r_push_cnt rk + 1\<rparr>)"
        using sq empty i av requeue_neutral [OF i(3) empty]
        by (simp add: P_def rakaia_push_skb_single_queue_def m_def [symmetric] skb_queue_tail_def
            Let_def deref_def)
      with all i wk w idle show ?thesis by blast
    qed
  qed
qed

section \<open>Effect on the invariant\<close>

lemma sched_inv_neutral:
  assumes "sched_inv rk" "\<And>k. k_index (f k) = k_index k" "\<And>k. k_rx_q (f k) = k_rx_q k"
  shows "sched_inv (upd_sock a f rk)"
proof -
  have q: "queue_of (upd_sock a f rk) i = queue_of rk i" for i
    using assms(3) by (auto simp: queue_of_def split: option.split)
  show ?thesis
    using assms(1) socks_inv_upd [OF sched_invD(1) [OF assms(1)] assms(2)]
    by (simp add: inv_defs q)
qed

lemma sched_inv_enqueue:
  assumes inv: "sched_inv rk" and c: "at_slot rk i a k" and w: "r_waiters rk = []"
    and bm: "bm = set_bit i (r_rx_nonempty_bm rk) \<or> k_rx_q k \<noteq> [] \<and> bm = r_rx_nonempty_bm rk"
  shows "sched_inv ((upd_sock a (\<lambda>s. s\<lparr>k_rx_q := k_rx_q s @ [m]\<rparr>) rk)\<lparr>r_rx_nonempty_bm := bm\<rparr>)"
proof -
  note I = sched_invD [OF inv]
  let ?f = "\<lambda>s. s\<lparr>k_rx_q := k_rx_q s @ [m]\<rparr>"
  let ?rk = "(upd_sock a ?f rk)\<lparr>r_rx_nonempty_bm := bm\<rparr>"
  have i: "i < 20" using c by (simp add: at_slot_def)
  have q: "queue_of ?rk j = (if j = i then k_rx_q k @ [m] else queue_of rk j)" if "j < 20" for j
    using queue_of_upd [OF I(1) c that, of ?f] queue_of_frame [of ?rk "upd_sock a ?f rk"] by simp
  have "socks_inv ?rk"
    using socks_inv_upd [OF I(1), of ?f a] socks_inv_frame [of ?rk "upd_sock a ?f rk"] by simp
  moreover have "bm_inv ?rk"
    unfolding bm_inv_def
  proof
    fix j
    have b: "bit (r_rx_nonempty_bm rk) j \<longleftrightarrow> j < 20 \<and> queue_of rk j \<noteq> []"
      using I(2) by (simp add: bm_inv_def)
    show "bit (r_rx_nonempty_bm ?rk) j \<longleftrightarrow> j < 20 \<and> queue_of ?rk j \<noteq> []"
      using bm i b queue_of_at [OF c] by (cases "j < 20") (auto simp: q)
  qed
  ultimately show ?thesis
    using I(3) w by (simp add: sched_inv_def waiters_inv_def work_inv_def)
qed

text \<open>Taking the first message of the queue in slot \<open>i\<close>, as pulling and stealing do.\<close>

definition dequeued :: "nat \<Rightarrow> nat \<Rightarrow> sk_buff list \<Rightarrow> rakaia \<Rightarrow> rakaia" where
  "dequeued i a rest rk =
     (let rk1 = upd_sock a (\<lambda>s. s\<lparr>k_rx_q := rest\<rparr>) rk
      in if rest = [] then rk1\<lparr>r_rx_nonempty_bm := unset_bit i (r_rx_nonempty_bm rk1)\<rparr> else rk1)"

lemma dequeued_sel [simp]:
  "r_socks (dequeued i a rest rk) = r_socks rk" "r_waiters (dequeued i a rest rk) = r_waiters rk"
  "r_waiters_bm (dequeued i a rest rk) = r_waiters_bm rk"
  "r_heap (dequeued i a rest rk) = r_heap (upd_sock a (\<lambda>s. s\<lparr>k_rx_q := rest\<rparr>) rk)"
  by (simp_all add: dequeued_def Let_def)

lemma queue_of_dequeued:
  assumes "socks_inv rk" "at_slot rk i a k" "j < 20"
  shows "queue_of (dequeued i a rest rk) j = (if j = i then rest else queue_of rk j)"
  using queue_of_upd [OF assms, of "\<lambda>s. s\<lparr>k_rx_q := rest\<rparr>"]
    queue_of_frame [of "dequeued i a rest rk" "upd_sock a (\<lambda>s. s\<lparr>k_rx_q := rest\<rparr>) rk"]
  by simp

lemma sched_inv_dequeued:
  assumes inv: "sched_inv rk" and c: "at_slot rk i a k" and q: "k_rx_q k = m # rest"
  shows "sched_inv (dequeued i a rest rk)"
proof -
  note I = sched_invD [OF inv]
  have i: "i < 20" using c by (simp add: at_slot_def)
  have w: "r_waiters rk = []" using I(4) i q queue_of_at [OF c] by (auto simp: work_inv_def)
  have "socks_inv (dequeued i a rest rk)"
    using socks_inv_upd [OF I(1), of "\<lambda>s. s\<lparr>k_rx_q := rest\<rparr>" a]
      socks_inv_frame [of "dequeued i a rest rk" "upd_sock a (\<lambda>s. s\<lparr>k_rx_q := rest\<rparr>) rk"] by simp
  moreover have "bit (r_rx_nonempty_bm (dequeued i a rest rk)) j \<longleftrightarrow>
      j < 20 \<and> queue_of (dequeued i a rest rk) j \<noteq> []" for j
    using I(2) i q queue_of_at [OF c] queue_of_dequeued [OF I(1) c]
    by (cases "j < 20") (auto simp: bm_inv_def dequeued_def Let_def)
  ultimately show ?thesis
    using I(3) w by (simp add: inv_defs)
qed

lemma waiters_inv_take:
  assumes "socks_inv rk" "waiters_inv rk" "at_slot rk j w k"
    and "r_socks rk' = r_socks rk" "r_waiters rk' = remove1 w (r_waiters rk)"
    and "r_waiters_bm rk' = unset_bit j (r_waiters_bm rk)"
  shows "waiters_inv rk'"
  unfolding waiters_inv_def
proof (intro conjI allI)
  show "distinct (r_waiters rk')" using assms(2,5) by (simp add: waiters_inv_def)
next
  fix l show "bit (r_waiters_bm rk') l \<longrightarrow> l < 20" using assms(2,6) by (simp add: waiters_inv_def)
next
  fix b
  have "b = w" if "r_socks rk ! j = Some b" using that assms(3) by (simp add: at_slot_def)
  moreover have "l = j" if "l < 20" "r_socks rk ! l = Some w" for l
    using slot_index_unique [OF assms(1) that(1) _ that(2)] assms(3) by (simp add: at_slot_def)
  ultimately show "b \<in> set (r_waiters rk') \<longleftrightarrow>
      (\<exists>l<20. r_socks rk' ! l = Some b \<and> bit (r_waiters_bm rk') l)"
    using assms(2,4-6) by (auto simp: waiters_inv_def)
qed

lemma sched_inv_wake:
  assumes inv: "sched_inv rk" and w: "at_slot rk j w k" "w \<in> set (r_waiters rk)"
    and all: "\<forall>i<20. queue_of rk i = []"
  shows "sched_inv (rk\<lparr>r_waiters := remove1 w (r_waiters rk),
                 r_waiters_bm := unset_bit j (r_waiters_bm rk),
                 r_rx_nonempty_bm := unset_bit i (r_rx_nonempty_bm rk),
                 r_push_cnt := n\<rparr>)" (is "sched_inv ?rk")
proof -
  note I = sched_invD [OF inv]
  have q: "queue_of ?rk l = queue_of rk l" for l by (rule queue_of_frame) simp_all
  have "socks_inv ?rk" using I(1) socks_inv_frame [of ?rk rk] by simp
  moreover have "bm_inv ?rk" using I(2) all by (auto simp: bm_inv_def q)
  moreover have "waiters_inv ?rk" by (rule waiters_inv_take [OF I(1,3) w(1)]) simp_all
  moreover have "work_inv ?rk" using all by (simp add: work_inv_def q)
  ultimately show ?thesis by (simp add: sched_inv_def)
qed

lemma go_idle_frame [simp]:
  "r_socks (rakaia_go_idle a k rk) = r_socks rk" "r_heap (rakaia_go_idle a k rk) = r_heap rk"
  "r_rx_nonempty_bm (rakaia_go_idle a k rk) = r_rx_nonempty_bm rk"
  by (simp_all add: rakaia_go_idle_def)

lemma waiters_inv_go_idle:
  assumes I: "socks_inv rk" "waiters_inv rk" and a: "at_slot rk i a k"
  shows "waiters_inv (rakaia_go_idle a k rk)" (is "waiters_inv ?rk")
proof (cases "bit (r_waiters_bm rk) i")
  case True
  then show ?thesis using a I(2) by (simp add: rakaia_go_idle_def at_slot_def)
next
  case False
  have i: "i < 20" "nat (k_index k) = i" "r_socks rk ! i = Some a" using a by (auto simp: at_slot_def)
  have mem: "b \<in> set (r_waiters ?rk) \<longleftrightarrow>
      (\<exists>l<20. r_socks ?rk ! l = Some b \<and> bit (r_waiters_bm ?rk) l)" for b
  proof -
    have lst: "r_waiters ?rk = r_waiters rk @ [a]"
      and bm: "r_waiters_bm ?rk = set_bit i (r_waiters_bm rk)"
      using False i(2) by (simp_all add: rakaia_go_idle_def)
    have "r_socks rk ! i = Some b \<longleftrightarrow> b = a" using i(3) by auto
    then have "(\<exists>l<20. r_socks rk ! l = Some b \<and> (l = i \<or> bit (r_waiters_bm rk) l)) \<longleftrightarrow>
        b = a \<or> (\<exists>l<20. r_socks rk ! l = Some b \<and> bit (r_waiters_bm rk) l)"
      using i(1) by blast
    with i(1) I(2) show ?thesis
      by (simp add: lst bm bit_set_bit_bitmap waiters_inv_def)
  qed
  moreover have "distinct (r_waiters ?rk)"
  proof -
    have "distinct (r_waiters rk)" "a \<notin> set (r_waiters rk)"
      using False I(2) waiting_bit_iff [OF I a] by (simp_all add: waiters_inv_def)
    with False i(2) show ?thesis by (simp add: rakaia_go_idle_def)
  qed
  moreover have "bit (r_waiters_bm ?rk) l \<Longrightarrow> l < 20" for l
    using False I(2) i by (auto simp: rakaia_go_idle_def waiters_inv_def bit_set_bit_bitmap)
  ultimately show ?thesis by (simp add: waiters_inv_def)
qed

lemma sched_inv_go_idle:
  assumes inv: "sched_inv rk" and a: "at_slot rk i a k" and zero: "r_rx_nonempty_bm rk = 0"
  shows "sched_inv (rakaia_go_idle a k rk)" (is "sched_inv ?rk")
proof -
  note I = sched_invD [OF inv]
  have q: "queue_of ?rk l = queue_of rk l" for l by (rule queue_of_frame) simp_all
  have all: "\<forall>l<20. queue_of rk l = []" using I(2) zero by (auto simp: bm_inv_def)
  have "socks_inv ?rk" using I(1) socks_inv_frame [of ?rk rk] by simp
  with waiters_inv_go_idle [OF I(1,3) a] show ?thesis
    using I(2) all by (simp add: sched_inv_def bm_inv_def work_inv_def q)
qed

section \<open>What a pull does\<close>

lemma pick_walk_nth: "k < length bs \<Longrightarrow> pick_walk (int k) bs = int (bs ! k)"
  by (induction bs arbitrary: k) (auto simp: nth_Cons split: nat.split)

lemma pick_random_nth:
  assumes "msk \<noteq> 0"
  shows "pick_random_set_bit rnd msk = int (set_bits msk ! (unat rnd mod hweight_long msk))"
  using assms hweight_pos [of msk]
  by (simp add: pick_random_set_bit_def Let_def pick_walk_nth hweight_long_def)

lemma pick_random_bit:
  assumes "msk \<noteq> 0"
  obtains i where "pick_random_set_bit rnd msk = int i" "bit msk i"
proof -
  have "unat rnd mod hweight_long msk < length (set_bits msk)"
    using hweight_pos [of msk] assms by (simp add: hweight_long_def)
  then have "set_bits msk ! (unat rnd mod hweight_long msk) \<in> set (set_bits msk)" by (rule nth_mem)
  with that pick_random_nth [OF assms] show ?thesis by (simp add: set_set_bits)
qed

lemma pick_other_bit:
  assumes "msk \<noteq> 0" "pick_other n rnd p msk v1 = Some (v2, p2)"
  obtains i where "v2 = int i" "bit msk i"
  using assms(2)
proof (induction n arbitrary: p thesis)
  case 0
  then show ?case by simp
next
  case (Suc n)
  from pick_random_bit [OF assms(1)] obtain i where
    i: "pick_random_set_bit (rnd p) msk = int i" "bit msk i" .
  show ?case
  proof (cases "int i = v1")
    case True
    with Suc.prems(2) i(1) have "pick_other n rnd (Suc p) msk v1 = Some (v2, p2)" by simp
    then show ?thesis using Suc.IH Suc.prems(1) by blast
  next
    case False
    with Suc.prems(2) i have "v2 = int i" by simp
    with Suc.prems(1) i(2) show ?thesis by blast
  qed
qed

lemma pick_second_bit:
  assumes "msk \<noteq> 0" "pick_second n rnd p msk (int i) = Some (v2, p2)" "bit msk i"
  obtains j where "v2 = int j" "bit msk j"
proof (cases "hweight_long msk > 1")
  case True
  with assms(2) have "pick_other n rnd p msk (int i) = Some (v2, p2)" by (simp add: pick_second_def)
  with pick_other_bit [OF assms(1)] that show ?thesis by blast
next
  case False
  with assms(2) have "v2 = int i" by (simp add: pick_second_def)
  with assms(3) that show ?thesis by blast
qed

lemma steal_first_try:
  assumes inv: "sched_inv rk" and ne: "r_rx_nonempty_bm rk \<noteq> 0"
    and run: "rakaia_steal_skb n rnd p ksk rk = Some R"
  obtains n' v1 v2 p2 i va v m rest where "pick_random_set_bit (rnd p) (r_rx_nonempty_bm rk) = int v1"
    "pick_second n' rnd (Suc p) (r_rx_nonempty_bm rk) (int v1) = Some (v2, p2)"
    "longer_queue rk (int v1) v2 = Inr (int i)" "at_slot rk i va v" "k_rx_q v = m # rest"
    "steal_from ksk (int i) rk = Inr (Some m, upd_sock ksk (\<lambda>s. s\<lparr>k_steal_cnt := k_steal_cnt s + 1\<rparr>)
                        (dequeued i va rest rk))"
    "R = Inr (Some m, upd_sock ksk (\<lambda>s. s\<lparr>k_steal_cnt := k_steal_cnt s + 1\<rparr>)
                        (dequeued i va rest rk), p2)"
proof -
  note I = sched_invD [OF inv]
  let ?msk = "r_rx_nonempty_bm rk"
  from run obtain n' where n: "n = Suc n'" by (cases n) auto
  obtain i1 where i1: "pick_random_set_bit (rnd p) ?msk = int i1" "bit ?msk i1"
    by (rule pick_random_bit [OF ne])
  obtain v2 p2 where v2: "pick_second n' rnd (Suc p) ?msk (int i1) = Some (v2, p2)"
    using run n i1 ne by (auto simp: Let_def split: option.splits)
  obtain i2 where i2: "v2 = int i2" "bit ?msk i2" by (rule pick_second_bit [OF ne v2 i1(2)])
  have lt: "i1 < 20" "i2 < 20" and full: "queue_of rk i1 \<noteq> []" "queue_of rk i2 \<noteq> []"
    using I(2) i1 i2 by (auto simp: bm_inv_def)
  obtain a1 k1 a2 k2 where s: "at_slot rk i1 a1 k1" "at_slot rk i2 a2 k2"
    using socks_inv_slot [OF I(1)] lt by metis
  define i va v where "i = (if length (k_rx_q k2) > length (k_rx_q k1) then i2 else i1)"
    and "va = (if length (k_rx_q k2) > length (k_rx_q k1) then a2 else a1)"
    and "v = (if length (k_rx_q k2) > length (k_rx_q k1) then k2 else k1)"
  have at: "at_slot rk i va v" using s by (simp add: i_def va_def v_def)
  have lq: "longer_queue rk (int i1) v2 = Inr (int i)"
    using sock_slot_at [OF I(1) s(1)] sock_slot_at [OF I(1) s(2)]
    by (simp add: longer_queue_def i2 i_def)
  have "k_rx_q v \<noteq> []" using full queue_of_at [OF s(1)] queue_of_at [OF s(2)] by (simp add: v_def)
  then obtain m rest where q: "k_rx_q v = m # rest" by (cases "k_rx_q v") auto
  have st: "steal_from ksk (int i) rk =
      Inr (Some m, upd_sock ksk (\<lambda>s. s\<lparr>k_steal_cnt := k_steal_cnt s + 1\<rparr>) (dequeued i va rest rk))"
    using sock_slot_at [OF I(1) at] q
    by (simp add: steal_from_def dequeued_def Let_def)
  show ?thesis using run n i1 ne v2 lq st that [OF i1(1) v2 lq at q st] by (auto simp: Let_def)
qed

lemma steal_success:
  assumes inv: "sched_inv rk" and ne: "r_rx_nonempty_bm rk \<noteq> 0"
    and run: "rakaia_steal_skb n rnd p ksk rk = Some R"
  obtains i va v m rest p' where "at_slot rk i va v" "k_rx_q v = m # rest"
    "R = Inr (Some m, upd_sock ksk (\<lambda>s. s\<lparr>k_steal_cnt := k_steal_cnt s + 1\<rparr>)
                        (dequeued i va rest rk), p')"
  by (rule steal_first_try [OF assms]) (rule that)

lemma pull_cases:
  assumes inv: "sched_inv rk" and at: "at_slot rk i a k"
    and run: "rakaia_pull n rnd p sched_ok a rk = Some R"
  obtains
    (own) m rest where "k_rx_q k = m # rest"
      "R = rakaia_queue_rcv_skb sched_ok a m (dequeued i a rest rk)"
  | (steal) j va v m rest where "at_slot rk j va v" "k_rx_q v = m # rest" "k_rx_q k = []"
      "R = rakaia_queue_rcv_skb sched_ok a m
             (upd_sock a (\<lambda>s. s\<lparr>k_steal_cnt := k_steal_cnt s + 1\<rparr>) (dequeued j va rest rk))"
  | (idle) "r_rx_nonempty_bm rk = 0" "R = Inr (0, rakaia_go_idle a k rk)"
proof -
  from run obtain n' where n: "n = Suc n'" by (cases n) auto
  have d: "deref rk a = Inr k" "nat (k_index k) = i" using at by (auto simp: deref_def at_slot_def)
  show ?thesis
  proof (cases "k_rx_q k")
    case (Cons m rest)
    then have "rakaia_queue_rcv_skb sched_ok a m (dequeued i a rest rk) = R"
      using run n d(1) by (cases rest) (simp_all add: dequeued_def Let_def d(2))
    with Cons own show ?thesis by blast
  next
    case Nil
    then obtain S where S: "rakaia_steal_skb n' rnd p a rk = Some S"
      using run n d by (cases "rakaia_steal_skb n' rnd p a rk") auto
    show ?thesis
    proof (cases "r_rx_nonempty_bm rk = 0")
      case True
      moreover obtain n'' where "n' = Suc n''" using S by (cases n') auto
      ultimately have "Inr (0, rakaia_go_idle a k rk) = R" using run n d Nil by simp
      with True idle show ?thesis by blast
    next
      case False
      obtain j va v m rest p' where
        st: "at_slot rk j va v" "k_rx_q v = m # rest"
          "S = Inr (Some m, upd_sock a (\<lambda>s. s\<lparr>k_steal_cnt := k_steal_cnt s + 1\<rparr>)
                              (dequeued j va rest rk), p')"
        by (rule steal_success [OF inv False S])
      then have "rakaia_queue_rcv_skb sched_ok a m
          (upd_sock a (\<lambda>s. s\<lparr>k_steal_cnt := k_steal_cnt s + 1\<rparr>) (dequeued j va rest rk)) = R"
        using run n d Nil S by simp
      with st(1,2) Nil steal show ?thesis by blast
    qed
  qed
qed

end
