(* ===== verification/Sched_Refine.thy ===== *)
theory Sched_Refine
  imports Sched_Correct
begin

text \<open>
  The contract of the scheduler: it behaves like one central pool of messages that never
  lets a socket wait while the pool holds a message. The per-socket queues, the two random
  choices, the bitmaps and the stealing of \<open>Scheduler\<close> implement this pool; the proof is a
  simulation, stated once for every pair of transition systems in the locale
  \<open>simulation\<close> and interpreted on the handlers.
\<close>

section \<open>Runs and simulations\<close>

inductive run :: "('s \<Rightarrow> 'e \<Rightarrow> 's \<Rightarrow> bool) \<Rightarrow> 's \<Rightarrow> 'e list \<Rightarrow> 's \<Rightarrow> bool"
  for step :: "'s \<Rightarrow> 'e \<Rightarrow> 's \<Rightarrow> bool" where
  run_nil: "run step s [] s"
| run_cons: "step s e s1 \<Longrightarrow> run step s1 es s2 \<Longrightarrow> run step s (e # es) s2"

inductive_simps run_nil_iff [simp]: "run step s [] s'"
inductive_simps run_cons_iff: "run step s (e # es) s'"

locale simulation =
  fixes inv :: "'c \<Rightarrow> bool" and abs :: "'c \<Rightarrow> 'a"
    and cstep :: "'c \<Rightarrow> 'e \<Rightarrow> 'c \<Rightarrow> bool" and astep :: "'a \<Rightarrow> 'e \<Rightarrow> 'a \<Rightarrow> bool"
  assumes sim_inv: "inv s \<Longrightarrow> cstep s e s' \<Longrightarrow> inv s'"
    and sim_step: "inv s \<Longrightarrow> cstep s e s' \<Longrightarrow> astep (abs s) e (abs s')"
begin

lemma run_inv: "run cstep s es s' \<Longrightarrow> inv s \<Longrightarrow> inv s'"
  by (induction rule: run.induct) (auto dest: sim_inv)

lemma run_refines: "run cstep s es s' \<Longrightarrow> inv s \<Longrightarrow> run astep (abs s) es (abs s')"
  by (induction rule: run.induct) (auto intro: run.intros sim_step sim_inv)

end

section \<open>The central pool\<close>

text \<open>
  Events carry the value the handler returns: 0, or a negative error number when the
  receiving socket refused the message.
\<close>

datatype sched_event = Push sk_buff int | Pull nat int | Free nat sk_buff

record central =
  c_socks :: "nat set"
  c_pool :: "sk_buff multiset"
  c_idle :: "nat set"
  c_inbox :: "nat \<Rightarrow> sk_buff list"

inductive central_step :: "central \<Rightarrow> sched_event \<Rightarrow> central \<Rightarrow> bool" where
  push_wake: "w \<in> c_idle c \<Longrightarrow> c_pool c = {#} \<Longrightarrow>
     central_step c (Push m 0)
       (c\<lparr>c_idle := c_idle c - {w}, c_inbox := (c_inbox c)(w := c_inbox c w @ [m])\<rparr>)"
| push_refused: "w \<in> c_idle c \<Longrightarrow> c_pool c = {#} \<Longrightarrow> e < 0 \<Longrightarrow>
     central_step c (Push m e) (c\<lparr>c_idle := c_idle c - {w}\<rparr>)"
| push_pool: "c_idle c = {} \<Longrightarrow>
     central_step c (Push m 0) (c\<lparr>c_pool := add_mset m (c_pool c)\<rparr>)"
| pull_take: "m \<in># c_pool c \<Longrightarrow> a \<in> c_socks c \<Longrightarrow>
     central_step c (Pull a 0)
       (c\<lparr>c_pool := c_pool c - {#m#}, c_inbox := (c_inbox c)(a := c_inbox c a @ [m])\<rparr>)"
| pull_refused: "m \<in># c_pool c \<Longrightarrow> a \<in> c_socks c \<Longrightarrow> e < 0 \<Longrightarrow>
     central_step c (Pull a e) (c\<lparr>c_pool := c_pool c - {#m#}\<rparr>)"
| pull_idle: "c_pool c = {#} \<Longrightarrow> a \<in> c_socks c \<Longrightarrow>
     central_step c (Pull a 0) (c\<lparr>c_idle := insert a (c_idle c)\<rparr>)"
| freed: "central_step c (Free a m) c"

inductive_cases central_pushE: "central_step c (Push m e) c'"
inductive_cases central_pullE: "central_step c (Pull a e) c'"
inductive_cases central_freeE: "central_step c (Free a m) c'"

section \<open>The handlers as a transition system\<close>

inductive sched_step :: "rakaia \<Rightarrow> sched_event \<Rightarrow> rakaia \<Rightarrow> bool" where
  step_push: "rakaia_push_skb_single_queue rnd1 rnd2 sched_ok skb psock rk = Inr (r, rk') \<Longrightarrow>
     sched_step rk (Push (skb\<lparr>sb_cb0 := CbPsock psock\<rparr>) r) rk'"
| step_pull: "Some a \<in> set (r_socks rk) \<Longrightarrow>
     rakaia_pull n rnd p sched_ok a rk = Some (Inr (r, rk')) \<Longrightarrow> sched_step rk (Pull a r) rk'"
| step_free: "rakaia_rfree a m rk = Inr rk' \<Longrightarrow> sched_step rk (Free a m) rk'"

definition sched_pool :: "rakaia \<Rightarrow> sk_buff multiset" where
  "sched_pool rk = (\<Sum>i<20. mset (queue_of rk i))"

definition inbox_of :: "rakaia \<Rightarrow> nat \<Rightarrow> sk_buff list" where
  "inbox_of rk a = (case r_heap rk a of None \<Rightarrow> [] | Some k \<Rightarrow> k_recvq k)"

definition central_of :: "rakaia \<Rightarrow> central" where
  "central_of rk =
     \<lparr>c_socks = {a. Some a \<in> set (r_socks rk)}, c_pool = sched_pool rk,
      c_idle = set (r_waiters rk), c_inbox = inbox_of rk\<rparr>"

lemma sched_pool_upd:
  assumes "i < 20" "\<And>j. j < 20 \<Longrightarrow> queue_of rk' j = (if j = i then q else queue_of rk j)"
  shows "sched_pool rk' + mset (queue_of rk i) = sched_pool rk + mset q"
proof -
  have i: "i \<in> {..<20}" using assms(1) by simp
  have "(\<Sum>j\<in>{..<20} - {i}. mset (queue_of rk' j)) = (\<Sum>j\<in>{..<20} - {i}. mset (queue_of rk j))"
    by (rule sum.cong) (auto simp: assms(2))
  then show ?thesis
    using assms(2) [OF assms(1)]
    by (simp add: sched_pool_def sum.remove [OF finite_lessThan i] ac_simps)
qed

lemma sched_pool_cong: "(\<And>j. j < 20 \<Longrightarrow> queue_of rk' j = queue_of rk j) \<Longrightarrow> sched_pool rk' = sched_pool rk"
  by (simp add: sched_pool_def)

lemma sched_pool_empty_iff: "sched_pool rk = {#} \<longleftrightarrow> (\<forall>i<20. queue_of rk i = [])"
proof
  assume "sched_pool rk = {#}"
  then show "\<forall>i<20. queue_of rk i = []"
    using sum.remove [OF finite_lessThan, of _ 20 "\<lambda>i. mset (queue_of rk i)"]
    by (auto simp: sched_pool_def)
qed (simp add: sched_pool_def)

lemma at_slot_mem: "socks_inv rk \<Longrightarrow> at_slot rk i a k \<Longrightarrow> Some a \<in> set (r_socks rk)"
  by (metis at_slot_def nth_mem socks_inv_def)

lemma mem_at_slot:
  assumes "socks_inv rk" "Some a \<in> set (r_socks rk)"
  obtains i k where "at_slot rk i a k"
proof -
  from assms obtain i where i: "i < 20" "r_socks rk ! i = Some a"
    by (metis in_set_conv_nth socks_inv_def)
  with socks_inv_slot [OF assms(1) i(1)] that show ?thesis by (metis at_slot_def option.inject)
qed

text \<open>Handing the message to the chosen socket, or being refused, touches only its inbox.\<close>

lemma central_of_frame:
  assumes "r_socks rk' = r_socks rk" "r_waiters rk' = r_waiters rk"
    "\<And>j. j < 20 \<Longrightarrow> queue_of rk' j = queue_of rk j" "inbox_of rk' = inbox_of rk"
  shows "central_of rk' = central_of rk"
  using assms sched_pool_cong [OF assms(3)] by (simp add: central_of_def)

lemma queue_rcv_effect:
  assumes "sched_inv rk" "at_slot rk i a k"
  obtains (taken) rk' where "rakaia_queue_rcv_skb sched_ok a m rk = Inr (0, rk')" "sched_inv rk'"
      "central_of rk' = (central_of rk)\<lparr>c_inbox := (inbox_of rk)(a := inbox_of rk a @ [m])\<rparr>"
  | (dropped) e where "rakaia_queue_rcv_skb sched_ok a m rk = Inr (e, rk)" "e < 0"
proof -
  have h: "r_heap rk a = Some k" using assms(2) by (simp add: at_slot_def)
  show ?thesis
    using h
  proof (cases rule: queue_rcv_cases [where sched_ok = sched_ok and m = m])
    case ok
    let ?f = "\<lambda>s. s\<lparr>k_rmem_alloc := k_rmem_alloc s + sb_truesize m,
               k_mem_charged := k_mem_charged s + sb_truesize m, k_recvq := k_recvq s @ [m],
               k_wakeups := (if k_dead s then k_wakeups s else k_wakeups s + 1)\<rparr>"
    have "queue_of (upd_sock a ?f rk) j = queue_of rk j" for j
      by (auto simp: queue_of_def split: option.split)
    then have "sched_pool (upd_sock a ?f rk) = sched_pool rk" by (simp add: sched_pool_def)
    moreover have "inbox_of (upd_sock a ?f rk) = (inbox_of rk)(a := inbox_of rk a @ [m])"
      using h by (auto simp: inbox_of_def fun_eq_iff)
    ultimately show ?thesis
      using ok sched_inv_neutral [OF assms(1), of ?f a] taken by (simp add: central_of_def)
  next
    case (refused e)
    with dropped show ?thesis by blast
  qed
qed

lemma inbox_of_dequeued: "inbox_of (dequeued i a rest rk) = inbox_of rk"
  by (auto simp: inbox_of_def fun_eq_iff split: option.split)

lemma central_of_dequeued:
  assumes "sched_inv rk" "at_slot rk i a k" "k_rx_q k = m # rest"
  shows "central_of (dequeued i a rest rk) = (central_of rk)\<lparr>c_pool := sched_pool rk - {#m#}\<rparr>"
    and "m \<in># sched_pool rk"
proof -
  have i: "i < 20" using assms(2) by (simp add: at_slot_def)
  have "sched_pool (dequeued i a rest rk) + mset (queue_of rk i) = sched_pool rk + mset rest"
    by (rule sched_pool_upd [OF i queue_of_dequeued [OF sched_invD(1) [OF assms(1)] assms(2)]])
  then have p: "sched_pool rk = add_mset m (sched_pool (dequeued i a rest rk))"
    using assms(3) queue_of_at [OF assms(2)] by simp
  then show "m \<in># sched_pool rk" by simp
  show "central_of (dequeued i a rest rk) = (central_of rk)\<lparr>c_pool := sched_pool rk - {#m#}\<rparr>"
    using p by (simp add: central_of_def inbox_of_dequeued)
qed

lemma central_of_enqueue:
  assumes "sched_inv rk" "at_slot rk i a k"
  shows "central_of ((upd_sock a (\<lambda>s. s\<lparr>k_rx_q := k_rx_q s @ [m]\<rparr>) rk)\<lparr>r_rx_nonempty_bm := bm\<rparr>) =
     (central_of rk)\<lparr>c_pool := add_mset m (sched_pool rk)\<rparr>"
proof -
  let ?f = "\<lambda>s. s\<lparr>k_rx_q := k_rx_q s @ [m]\<rparr>"
  let ?rk = "(upd_sock a ?f rk)\<lparr>r_rx_nonempty_bm := bm\<rparr>"
  have i: "i < 20" using assms(2) by (simp add: at_slot_def)
  have "queue_of ?rk j = (if j = i then k_rx_q k @ [m] else queue_of rk j)" if "j < 20" for j
    using queue_of_upd [OF sched_invD(1) [OF assms(1)] assms(2) that, of ?f]
      queue_of_frame [of ?rk "upd_sock a ?f rk"] by simp
  then have "sched_pool ?rk + mset (queue_of rk i) = sched_pool rk + mset (k_rx_q k @ [m])"
    by (rule sched_pool_upd [OF i])
  then have "sched_pool ?rk = add_mset m (sched_pool rk)"
    using queue_of_at [OF assms(2)] by simp
  moreover have "inbox_of ?rk = inbox_of rk"
    by (auto simp: inbox_of_def fun_eq_iff split: option.split)
  ultimately show ?thesis by (simp add: central_of_def)
qed

section \<open>Every handler is a step of the central pool\<close>

lemma push_refines:
  assumes inv: "sched_inv rk"
  obtains r rk' where "rakaia_push_skb_single_queue rnd1 rnd2 sched_ok skb psock rk = Inr (r, rk')"
    "sched_inv rk'"
    "central_step (central_of rk) (Push (skb\<lparr>sb_cb0 := CbPsock psock\<rparr>) r) (central_of rk')"
  using inv
proof (cases rule: push_cases [where skb = skb and psock = psock and ?rnd1.0 = rnd1
      and ?rnd2.0 = rnd2 and sched_ok = sched_ok])
  case (busy i ca c)
  let ?m = "skb\<lparr>sb_cb0 := CbPsock psock\<rparr>"
  let ?rk = "upd_sock ca (\<lambda>s. s\<lparr>k_rx_q := k_rx_q s @ [?m]\<rparr>) rk"
  have same: "?rk\<lparr>r_rx_nonempty_bm := r_rx_nonempty_bm rk\<rparr> = ?rk" by (simp add: upd_sock_def)
  have "sched_inv ?rk"
    using sched_inv_enqueue [OF inv busy(1,3), where m = ?m and bm = "r_rx_nonempty_bm rk"] busy(2) same by simp
  moreover have "central_of ?rk = (central_of rk)\<lparr>c_pool := add_mset ?m (sched_pool rk)\<rparr>"
    using central_of_enqueue [OF inv busy(1), where m = ?m and bm = "r_rx_nonempty_bm rk"] same by simp
  ultimately show ?thesis
    using that [OF busy(4)] push_pool [of "central_of rk" ?m] busy(3) by (simp add: central_of_def)
next
  case (first i ca c)
  let ?m = "skb\<lparr>sb_cb0 := CbPsock psock\<rparr>"
  show ?thesis
    using that [OF first(4)] sched_inv_enqueue [OF inv first(1,3)] central_of_enqueue [OF inv first(1)]
      push_pool [of "central_of rk" ?m] first(3) by (simp add: central_of_def)
next
  case (idle i j w k)
  let ?m = "skb\<lparr>sb_cb0 := CbPsock psock\<rparr>"
  let ?rk = "rk\<lparr>r_waiters := remove1 w (r_waiters rk),
                 r_waiters_bm := unset_bit j (r_waiters_bm rk),
                 r_rx_nonempty_bm := unset_bit i (r_rx_nonempty_bm rk),
                 r_push_cnt := r_push_cnt rk + 1\<rparr>"
  have inv': "sched_inv ?rk" by (rule sched_inv_wake [OF inv idle(3,4,1)])
  have at: "at_slot ?rk j w k" using idle(3) by (simp add: at_slot_def)
  have "queue_of ?rk l = queue_of rk l" for l by (rule queue_of_frame) simp_all
  then have "sched_pool ?rk = sched_pool rk" by (simp add: sched_pool_def)
  moreover have "set (remove1 w (r_waiters rk)) = set (r_waiters rk) - {w}"
    using sched_invD(3) [OF inv] by (simp add: waiters_inv_def)
  ultimately have c: "central_of ?rk = (central_of rk)\<lparr>c_idle := c_idle (central_of rk) - {w}\<rparr>"
    and box: "inbox_of ?rk = inbox_of rk"
    by (simp_all add: central_of_def inbox_of_def fun_eq_iff)
  have w: "w \<in> c_idle (central_of rk)" "c_pool (central_of rk) = {#}"
    using idle(1,4) by (simp_all add: central_of_def sched_pool_empty_iff)
  show ?thesis
    using inv' at
  proof (cases rule: queue_rcv_effect [where sched_ok = sched_ok and m = ?m])
    case (taken rk')
    then show ?thesis
      using that [of 0 rk'] idle(5) push_wake [OF w, of ?m] c box by (simp add: central_of_def)
  next
    case (dropped e)
    then show ?thesis using that [of e ?rk] idle(5) push_refused [OF w] c inv' by simp
  qed
qed

lemma pull_refines:
  assumes inv: "sched_inv rk" and at: "at_slot rk i a k"
    and run: "rakaia_pull n rnd p sched_ok a rk = Some R"
  obtains r rk' where "R = Inr (r, rk')" "sched_inv rk'"
    "central_step (central_of rk) (Pull a r) (central_of rk')"
proof -
  note finish = that
  have a: "a \<in> c_socks (central_of rk)"
    using at_slot_mem [OF sched_invD(1) [OF inv] at] by (simp add: central_of_def)
  have deliver: thesis
    if inv1: "sched_inv rk1" and at1: "at_slot rk1 i a k1" and R: "R = rakaia_queue_rcv_skb sched_ok a m rk1"
      and c1: "central_of rk1 = (central_of rk)\<lparr>c_pool := sched_pool rk - {#m#}\<rparr>"
      and m: "m \<in># sched_pool rk" for rk1 k1 m
  proof -
    have pool: "m \<in># c_pool (central_of rk)" and box: "inbox_of rk1 = c_inbox (central_of rk)"
      using m c1 by (simp_all add: central_of_def)
    show thesis
      using inv1 at1
    proof (cases rule: queue_rcv_effect [where sched_ok = sched_ok and m = m])
      case (taken rk')
      then show thesis
        using finish [of 0 rk'] R pull_take [OF pool a] c1 box by (simp add: central_of_def)
    next
      case (dropped e)
      then show thesis
        using finish [of e rk1] R pull_refused [OF pool a] c1 inv1 by (simp add: central_of_def)
    qed
  qed
  show thesis
    using inv at run
  proof (cases rule: pull_cases)
    case (own m rest)
    have "at_slot (dequeued i a rest rk) i a (k\<lparr>k_rx_q := rest\<rparr>)"
      using at by (simp add: at_slot_def)
    then show thesis
      using deliver [OF sched_inv_dequeued [OF inv at own(1)] _ own(2)]
        central_of_dequeued [OF inv at own(1)] by blast
  next
    case (steal j va v m rest)
    let ?f = "\<lambda>s. s\<lparr>k_steal_cnt := k_steal_cnt s + 1\<rparr>"
    let ?d = "dequeued j va rest rk"
    have "at_slot ?d i a (if a = va then k\<lparr>k_rx_q := rest\<rparr> else k)"
      using at by (auto simp: at_slot_def)
    then obtain kd where "at_slot ?d i a kd" by blast
    then have "at_slot (upd_sock a ?f ?d) i a (?f kd)" by (simp add: at_slot_def)
    moreover have "sched_inv (upd_sock a ?f ?d)"
      by (rule sched_inv_neutral [OF sched_inv_dequeued [OF inv steal(1,2)]]) simp_all
    moreover have "central_of (upd_sock a ?f ?d) = central_of ?d"
      by (rule central_of_frame)
        (auto simp: queue_of_def inbox_of_def fun_eq_iff split: option.split)
    ultimately show thesis
      using deliver [OF _ _ steal(4)] central_of_dequeued [OF inv steal(1,2)] by simp
  next
    case idle
    have q: "\<forall>l<20. queue_of rk l = []"
      using sched_invD(2) [OF inv] idle(1) by (auto simp: bm_inv_def)
    have "central_of (rakaia_go_idle a k rk) =
        (central_of rk)\<lparr>c_idle := insert a (c_idle (central_of rk))\<rparr>"
    proof -
      have "queue_of (rakaia_go_idle a k rk) l = queue_of rk l" for l
        by (rule queue_of_frame) (simp_all add: rakaia_go_idle_def)
      then have "sched_pool (rakaia_go_idle a k rk) = sched_pool rk" by (simp add: sched_pool_def)
      moreover have "set (r_waiters (rakaia_go_idle a k rk)) = insert a (set (r_waiters rk))"
        using waiting_bit_iff [OF sched_invD(1) [OF inv] sched_invD(3) [OF inv] at] at
        by (auto simp: rakaia_go_idle_def at_slot_def)
      ultimately show ?thesis
        by (simp add: central_of_def rakaia_go_idle_def inbox_of_def fun_eq_iff)
    qed
    moreover have "c_pool (central_of rk) = {#}"
      using q by (simp add: central_of_def sched_pool_empty_iff)
    ultimately show thesis
      using that [OF idle(2) sched_inv_go_idle [OF inv at idle(1)]] pull_idle [of "central_of rk" a] a
      by simp
  qed
qed

lemma rfree_refines:
  assumes inv: "sched_inv rk" and run: "rakaia_rfree a m rk = Inr rk'"
  shows "sched_inv rk'" "central_of rk' = central_of rk"
proof -
  let ?f = "\<lambda>s. s\<lparr>k_mem_charged := k_mem_charged s - sb_truesize m,
                 k_rmem_alloc := k_rmem_alloc s - sb_truesize m\<rparr>"
  have rk': "rk' = upd_sock a ?f rk" using run by (simp add: rakaia_rfree_def split: sum.splits)
  show "sched_inv rk'" unfolding rk' by (rule sched_inv_neutral [OF inv]) simp_all
  show "central_of rk' = central_of rk"
    unfolding rk' by (rule central_of_frame)
      (auto simp: queue_of_def inbox_of_def fun_eq_iff split: option.split)
qed

interpretation sch: simulation sched_inv central_of sched_step central_step
proof
  fix rk e rk'
  assume inv: "sched_inv rk" and "sched_step rk e rk'"
  from this(2) have "sched_inv rk' \<and> central_step (central_of rk) e (central_of rk')"
  proof cases
    case (step_push rnd1 rnd2 sched_ok skb psock r)
    with push_refines [OF inv, of rnd1 rnd2 sched_ok skb psock] show ?thesis
      by (metis old.sum.inject(2) prod.inject)
  next
    case (step_pull a n rnd p sched_ok r)
    obtain i k where "at_slot rk i a k"
      by (rule mem_at_slot [OF sched_invD(1) [OF inv] step_pull(2)])
    from pull_refines [OF inv this step_pull(3)] step_pull(1) show ?thesis
      by (metis old.sum.inject(2) prod.inject)
  next
    case (step_free a m)
    with rfree_refines [OF inv, of a m rk'] show ?thesis by (simp add: freed)
  qed
  then show "sched_inv rk'" "central_step (central_of rk) e (central_of rk')" by simp_all
qed

section \<open>Conservation of messages\<close>

definition central_wf :: "central \<Rightarrow> bool" where
  "central_wf c \<longleftrightarrow> finite (c_socks c) \<and> c_idle c \<subseteq> c_socks c"

definition held :: "central \<Rightarrow> sk_buff multiset" where
  "held c = c_pool c + (\<Sum>a\<in>c_socks c. mset (c_inbox c a))"

fun pushed :: "sched_event list \<Rightarrow> sk_buff list" where
  "pushed [] = []"
| "pushed (Push m r # es) = m # pushed es"
| "pushed (Pull a r # es) = pushed es"
| "pushed (Free a m # es) = pushed es"

fun refusals :: "sched_event list \<Rightarrow> nat" where
  "refusals [] = 0"
| "refusals (Push m r # es) = (if r < 0 then 1 else 0) + refusals es"
| "refusals (Pull a r # es) = (if r < 0 then 1 else 0) + refusals es"
| "refusals (Free a m # es) = refusals es"

lemma held_deliver:
  assumes "finite (c_socks c)" "a \<in> c_socks c" "c_socks c' = c_socks c" "c_pool c' = p"
    "c_inbox c' = (c_inbox c)(a := c_inbox c a @ [m])"
  shows "held c' + c_pool c = add_mset m (held c) + p"
proof -
  have "(\<Sum>b\<in>c_socks c - {a}. mset (c_inbox c' b)) = (\<Sum>b\<in>c_socks c - {a}. mset (c_inbox c b))"
    using assms(5) by (intro sum.cong) auto
  then show ?thesis
    using assms by (simp add: held_def sum.remove [OF assms(1,2)] ac_simps)
qed

lemma central_step_held:
  assumes "central_step c e c'" "central_wf c"
  shows "central_wf c'" "\<exists>D. held c' + D = held c + mset (pushed [e]) \<and> size D = refusals [e]"
proof -
  show "central_wf c'" using assms by (cases rule: central_step.cases) (auto simp: central_wf_def)
  have fin: "finite (c_socks c)" and idle: "c_idle c \<subseteq> c_socks c"
    using assms(2) by (auto simp: central_wf_def)
  show "\<exists>D. held c' + D = held c + mset (pushed [e]) \<and> size D = refusals [e]"
    using assms(1)
  proof cases
    case (push_wake w m)
    then have "held c' + c_pool c = add_mset m (held c) + c_pool c"
      using held_deliver [OF fin, of w c' _ m] idle by auto
    with push_wake show ?thesis by simp
  next
    case (push_refused w r m)
    then show ?thesis by (intro exI [of _ "{#m#}"]) (simp add: held_def)
  next
    case (pull_take m a)
    then have "held c' + c_pool c = add_mset m (held c) + (c_pool c - {#m#})"
      using held_deliver [OF fin, of a c' _ m] by auto
    with pull_take show ?thesis by simp
  next
    case (pull_refused m a r)
    then show ?thesis by (intro exI [of _ "{#m#}"]) (simp add: held_def)
  qed (simp_all add: held_def)
qed

lemma pushed_Cons: "mset (pushed (e # es)) = mset (pushed [e]) + mset (pushed es)"
  by (cases e) simp_all

lemma refusals_Cons: "refusals (e # es) = refusals [e] + refusals es"
  by (cases e) simp_all

lemma central_run_held:
  assumes "run central_step c es c'" "central_wf c"
  shows "\<exists>D. held c' + D = held c + mset (pushed es) \<and> size D = refusals es"
  using assms
proof (induction rule: run.induct)
  case (run_nil s)
  then show ?case by simp
next
  case (run_cons s e s1 es s2)
  note st = central_step_held [OF run_cons.hyps(1) run_cons.prems]
  from st(2) obtain D1 where
    1: "held s1 + D1 = held s + mset (pushed [e])" "size D1 = refusals [e]" by blast
  from run_cons.IH [OF st(1)] obtain D2 where
    2: "held s2 + D2 = held s1 + mset (pushed es)" "size D2 = refusals es" by blast
  have "held s2 + (D1 + D2) = held s + mset (pushed (e # es))"
    using 1(1) 2(1) by (metis add.assoc add.commute pushed_Cons)
  with 1(2) 2(2) refusals_Cons [of e es] show ?case by (metis size_union)
qed

lemma central_wf_of: "sched_inv rk \<Longrightarrow> central_wf (central_of rk)"
proof -
  assume inv: "sched_inv rk"
  have "finite {a. Some a \<in> set (r_socks rk)}"
    using finite_vimageI [OF finite_set inj_Some, of "r_socks rk"] by (simp add: vimage_def)
  moreover have "set (r_waiters rk) \<subseteq> {a. Some a \<in> set (r_socks rk)}"
  proof
    fix a assume "a \<in> set (r_waiters rk)"
    then obtain i k where "at_slot rk i a k" by (rule waiter_slot [OF sched_invD(1) [OF inv] sched_invD(3) [OF inv]])
    then show "a \<in> {a. Some a \<in> set (r_socks rk)}"
      using at_slot_mem [OF sched_invD(1) [OF inv]] by simp
  qed
  ultimately show "central_wf (central_of rk)"
    by (simp add: central_wf_def central_of_def)
qed

section \<open>Pulling ends\<close>

text \<open>
  The loop that draws a second victim ends as soon as the random bytes pick another bit;
  under the invariant the retry loops around it are never entered twice.
\<close>

definition draws_differ :: "(nat \<Rightarrow> u8) \<Rightarrow> bool" where
  "draws_differ rnd \<longleftrightarrow>
     (\<forall>msk v p. 1 < hweight_long msk \<longrightarrow> (\<exists>q\<ge>p. pick_random_set_bit (rnd q) msk \<noteq> v))"

lemma pick_other_ends:
  assumes "pick_random_set_bit (rnd q) msk \<noteq> v1" "p \<le> q" "q - p < n"
  shows "\<exists>r. pick_other n rnd p msk v1 = Some r"
  using assms
proof (induction n arbitrary: p)
  case 0
  then show ?case by simp
next
  case (Suc n)
  show ?case
  proof (cases "pick_random_set_bit (rnd p) msk = v1")
    case True
    with Suc.prems(1) have "p \<noteq> q" by auto
    with Suc.prems have "Suc p \<le> q" "q - Suc p < n" by auto
    from Suc.IH [OF Suc.prems(1) this] True show ?thesis by simp
  qed simp
qed

lemma pick_second_ends:
  assumes "draws_differ rnd"
  obtains n0 where "\<And>n. n0 \<le> n \<Longrightarrow> \<exists>r. pick_second n rnd p msk v1 = Some r"
proof (cases "1 < hweight_long msk")
  case True
  with assms obtain q where "q \<ge> p" "pick_random_set_bit (rnd q) msk \<noteq> v1"
    unfolding draws_differ_def by blast
  then have "\<exists>r. pick_second n rnd p msk v1 = Some r" if "Suc (q - p) \<le> n" for n
    using that True pick_other_ends [of rnd q msk v1 p n] by (simp add: pick_second_def)
  with that show ?thesis by blast
next
  case False
  then have "\<exists>r. pick_second n rnd p msk v1 = Some r" for n by (simp add: pick_second_def)
  with that show ?thesis by blast
qed

lemma steal_ends:
  assumes inv: "sched_inv rk" and rnd: "draws_differ rnd"
  obtains n0 where "\<And>n. n0 \<le> n \<Longrightarrow> \<exists>r. rakaia_steal_skb n rnd p ksk rk = Some r"
proof (cases "r_rx_nonempty_bm rk = 0")
  case True
  have "\<exists>r. rakaia_steal_skb n rnd p ksk rk = Some r" if "1 \<le> n" for n
    using that True by (cases n) auto
  with that show ?thesis by blast
next
  case ne: False
  note I = sched_invD [OF inv]
  let ?msk = "r_rx_nonempty_bm rk"
  obtain i1 where i1: "pick_random_set_bit (rnd p) ?msk = int i1" "bit ?msk i1"
    by (rule pick_random_bit [OF ne])
  obtain n0 where n0: "\<And>n. n0 \<le> n \<Longrightarrow> \<exists>r. pick_second n rnd (Suc p) ?msk (int i1) = Some r"
    using pick_second_ends [OF rnd, of "Suc p" ?msk "int i1"] by blast
  have "\<exists>r. rakaia_steal_skb n rnd p ksk rk = Some r" if "Suc n0 \<le> n" for n
  proof -
    obtain n' where n: "n = Suc n'" "n0 \<le> n'" using \<open>Suc n0 \<le> n\<close> by (cases n) auto
    then obtain v2 p2 where v2: "pick_second n' rnd (Suc p) ?msk (int i1) = Some (v2, p2)"
      using n0 by (metis surj_pair)
    obtain i2 where i2: "v2 = int i2" "bit ?msk i2" by (rule pick_second_bit [OF ne v2 i1(2)])
    have lt: "i1 < 20" "i2 < 20" and full: "queue_of rk i1 \<noteq> []" "queue_of rk i2 \<noteq> []"
      using I(2) i1 i2 by (auto simp: bm_inv_def)
    obtain a1 k1 a2 k2 where s: "at_slot rk i1 a1 k1" "at_slot rk i2 a2 k2"
      using socks_inv_slot [OF I(1)] lt by metis
    define v where "v = (if length (k_rx_q k2) > length (k_rx_q k1) then i2 else i1)"
    have v: "longer_queue rk (int i1) v2 = Inr (int v)" "v = i1 \<or> v = i2"
      using sock_slot_at [OF I(1) s(1)] sock_slot_at [OF I(1) s(2)] i2
      by (simp_all add: longer_queue_def v_def)
    have "\<exists>m rk'. steal_from ksk (int v) rk = Inr (Some m, rk')"
      using v(2) sock_slot_at [OF I(1) s(1)] sock_slot_at [OF I(1) s(2)] full
        queue_of_at [OF s(1)] queue_of_at [OF s(2)]
      by (auto simp: steal_from_def Let_def neq_Nil_conv)
    then show ?thesis using n(1) i1 ne v2 v(1) by (auto simp: Let_def)
  qed
  with that show ?thesis by blast
qed

lemma pull_ends:
  assumes inv: "sched_inv rk" and rnd: "draws_differ rnd" and at: "at_slot rk i a k"
  obtains n0 where "\<And>n. n0 \<le> n \<Longrightarrow> \<exists>r rk'. rakaia_pull n rnd p sched_ok a rk = Some (Inr (r, rk'))"
proof -
  obtain n0 where n0: "\<And>n. n0 \<le> n \<Longrightarrow> \<exists>r. rakaia_steal_skb n rnd p a rk = Some r"
    using steal_ends [OF inv rnd] by metis
  have "\<exists>r rk'. rakaia_pull n rnd p sched_ok a rk = Some (Inr (r, rk'))" if "Suc n0 \<le> n" for n
  proof -
    obtain n' where n: "n = Suc n'" "n0 \<le> n'" using \<open>Suc n0 \<le> n\<close> by (cases n) auto
    then obtain S where S: "rakaia_steal_skb n' rnd p a rk = Some S" using n0 by blast
    have d: "deref rk a = Inr k" by (rule deref_at [OF at])
    have "\<exists>R. rakaia_pull n rnd p sched_ok a rk = Some R"
    proof (cases "k_rx_q k = [] \<and> r_rx_nonempty_bm rk \<noteq> 0")
      case True
      then have "r_rx_nonempty_bm rk \<noteq> 0" by simp
      then obtain m rk1 p1 where "S = Inr (Some m, rk1, p1)" using steal_success [OF inv _ S] by metis
      with True n(1) d S show ?thesis by simp
    next
      case False
      moreover have "S = Inr (None, rk, p)" if "r_rx_nonempty_bm rk = 0"
        using S that by (cases n') auto
      ultimately show ?thesis using n(1) d S by (cases "k_rx_q k") (simp_all add: Let_def)
    qed
    then show ?thesis using pull_refines [OF inv at] by metis
  qed
  with that show thesis by blast
qed

text \<open>A counter is a source of bytes that is good enough.\<close>

lemma counter_draws_differ: "draws_differ (\<lambda>q. word_of_nat q)"
  unfolding draws_differ_def
proof (intro allI impI)
  fix msk :: bitmap and v :: int and p :: nat
  assume two: "1 < hweight_long msk"
  then have ne: "msk \<noteq> 0" using hweight_zero_iff [of msk] by fastforce
  let ?pick = "\<lambda>q. pick_random_set_bit (word_of_nat q :: u8) msk"
  have "unat (word_of_nat (256 * p) :: u8) = 0" "unat (word_of_nat (256 * p + 1) :: u8) = 1"
    unfolding unat_of_nat by (simp_all add: mod_mult_right_eq)
  then have "?pick (256 * p) = int (set_bits msk ! 0)" "?pick (256 * p + 1) = int (set_bits msk ! 1)"
    using two pick_random_nth [OF ne] by simp_all
  moreover have "set_bits msk ! 0 \<noteq> set_bits msk ! 1"
    using two nth_eq_iff_index_eq [OF distinct_set_bits, of 0 msk 1]
    by (cases "set_bits msk") (simp_all add: hweight_long_def)
  ultimately have "?pick (256 * p) \<noteq> v \<or> ?pick (256 * p + 1) \<noteq> v" by auto
  moreover have "p \<le> 256 * p" "p \<le> 256 * p + 1" by simp_all
  ultimately show "\<exists>q\<ge>p. ?pick q \<noteq> v" by blast
qed

end
