(* ===== verification/Sockets.thy ===== *)
theory Sockets
  imports World Sched_Refine
begin

text \<open>
  The life cycle of \<open>rakaia/plain-tcp/rakaiasock.c\<close>: creating and releasing rakaia
  sockets, attaching TCP sockets, the ioctl and socket option calls, and loading and
  unloading the module.
\<close>

section \<open>Creating and releasing rakaia sockets\<close>

abbreviation (input) RAKAIAPROTO_CONNECTED :: int where "RAKAIAPROTO_CONNECTED \<equiv> 0"

definition new_rakaia_sock :: "int \<Rightarrow> int \<Rightarrow> rakaia_sock" where
  "new_rakaia_sock index rcvbuf =
     \<lparr>k_index = index, k_rx_q = [], k_recvq = [], k_writeq = [], k_rmem_alloc = 0,
      k_rcvbuf = rcvbuf, k_mem_charged = 0, k_wmem_queued = 0, k_dead = False, k_wakeups = 0,
      k_err = 0, k_send_shutdown = False, k_last_psock = None, k_msg_cnt = 0, k_accumu_cnt = 0,
      k_snd_cnt = 0, k_steal_cnt = 0\<rparr>"

text \<open>
  \<open>alloc\<close> is the address \<open>sk_alloc\<close> returns and \<open>rcvbuf\<close> the buffer size that
  \<open>sock_init_data\<close> sets. The new socket starts on the waiting list.
\<close>

definition rakaia_create ::
  "sock_type \<Rightarrow> int \<Rightarrow> nat option \<Rightarrow> int \<Rightarrow> rakaia \<Rightarrow> fault + int \<times> rakaia" where
  "rakaia_create ty protocol alloc rcvbuf rk =
     (if ty \<noteq> SOCK_DGRAM \<and> ty \<noteq> SOCK_SEQPACKET then Inr (- ESOCKTNOSUPPORT, rk)
      else if protocol \<noteq> RAKAIAPROTO_CONNECTED then Inr (- EPROTONOSUPPORT, rk)
      else
        (case alloc of
           None \<Rightarrow> Inr (- ENOMEM, rk)
         | Some a \<Rightarrow>
             if r_cnt rk \<ge> int NUM_RAKAIA_SOCKETS then Inr (- ENOMEM, rk)
             else if r_cnt rk < 0 then Inl OutOfBounds
             else Inr (0, rk\<lparr>r_socks := (r_socks rk)[nat (r_cnt rk) := Some a],
                             r_heap := (r_heap rk)(a := Some (new_rakaia_sock (r_cnt rk) rcvbuf)),
                             r_cnt := r_cnt rk + 1,
                             r_waiters_bm := set_bit (nat (r_cnt rk)) (r_waiters_bm rk),
                             r_waiters := r_waiters rk @ [a]\<rparr>)))"

text \<open>\<open>free_psock\<close> runs after a grace period, when no reader is left.\<close>

definition free_psock :: "nat \<Rightarrow> world \<Rightarrow> world" where
  "free_psock p w = w\<lparr>w_psocks := (w_psocks w)(p := None)\<rparr>"

definition release_psock :: "nat \<Rightarrow> world \<Rightarrow> fault + world" where
  "release_psock p w =
     bind_fault (psock_at w p) (\<lambda>ps.
       let w1 = w\<lparr>w_rk := (w_rk w)\<lparr>r_psock_list := remove1 p (r_psock_list (w_rk w))\<rparr>\<rparr> in
       bind_fault (lower_at w1 (p_sk ps)) (\<lambda>(c, l).
         let l1 = l\<lparr>lw_user_data := None, lw_data_ready := p_save_data_ready ps,
                    lw_write_space := p_save_write_space ps,
                    lw_state_change := p_save_state_change ps\<rparr>;
             ps1 = ps\<lparr>p_strp := strp_done (strp_stop (p_strp ps))\<rparr>
         in Inr (free_psock p (set_psock p ps1 (set_lower c l1 w1)))))"

fun release_psocks :: "nat list \<Rightarrow> world \<Rightarrow> fault + world" where
  "release_psocks [] w = Inr w"
| "release_psocks (p # ps) w = bind_fault (release_psock p w) (release_psocks ps)"

text \<open>
  The slot of the socket is cleared and its counters are added up; the socket is not
  taken off the waiting list and its queue is not emptied. Dropping the last reference
  frees it.
\<close>

definition rakaia_release :: "nat option \<Rightarrow> world \<Rightarrow> fault + int \<times> world" where
  "rakaia_release sk w =
     (case sk of
        None \<Rightarrow> Inr (0, w)
      | Some a \<Rightarrow>
          bind_fault (deref (w_rk w) a) (\<lambda>k.
            let rk1 = upd_sock a (\<lambda>s. s\<lparr>k_dead := True, k_writeq := []\<rparr>) (w_rk w) in
            bind_fault
              (if k_index k \<le> int NUM_RAKAIA_SOCKETS
               then (if 0 \<le> k_index k \<and> nat (k_index k) < length (r_socks rk1)
                     then Inr (rk1\<lparr>r_socks := (r_socks rk1)[nat (k_index k) := None],
                                   r_cnt := r_cnt rk1 - 1,
                                   r_all_msg_cnt := r_all_msg_cnt rk1 + k_msg_cnt k,
                                   r_accumu_cnt := r_accumu_cnt rk1 + k_accumu_cnt k,
                                   r_snd_cnt := r_snd_cnt rk1 + k_snd_cnt k,
                                   r_all_steal_cnt := r_all_steal_cnt rk1 + k_steal_cnt k\<rparr>)
                     else Inl OutOfBounds)
               else Inr rk1)
              (\<lambda>rk2.
                 bind_fault
                   (if r_cnt rk2 = 0 then release_psocks (r_psock_list rk2) (w\<lparr>w_rk := rk2\<rparr>)
                    else Inr (w\<lparr>w_rk := rk2\<rparr>))
                   (\<lambda>w3. Inr (0, w3\<lparr>w_rk := (w_rk w3)\<lparr>r_heap := (r_heap (w_rk w3))(a := None)\<rparr>\<rparr>)))))"

section \<open>Attaching a TCP socket\<close>

abbreviation (input) AF_INET :: nat where "AF_INET \<equiv> 2"
abbreviation (input) AF_INET6 :: nat where "AF_INET6 \<equiv> 10"
abbreviation (input) IPPROTO_TCP :: nat where "IPPROTO_TCP \<equiv> 6"
abbreviation (input) TCP_CLOSE :: nat where "TCP_CLOSE \<equiv> 7"
abbreviation (input) TCP_LISTEN :: nat where "TCP_LISTEN \<equiv> 10"

definition zero_psock :: rakaia_psock where
  "zero_psock =
     \<lparr>p_sk = None, p_strp = zero_strp None, p_tx_in_use = 0, p_tx_wait_queue = [],
      p_tx_tmp_queue = [], p_accumu = 0, p_process_backlog = 0, p_save_data_ready = KernelCb 0,
      p_save_write_space = KernelCb 0, p_save_state_change = KernelCb 0\<rparr>"

definition attachable :: "lower \<Rightarrow> bool" where
  "attachable l \<longleftrightarrow>
     (lw_family l = AF_INET \<or> lw_family l = AF_INET6) \<and> lw_protocol l = IPPROTO_TCP \<and>
     ts_state (lw_tcp l) \<noteq> TCP_LISTEN \<and> ts_state (lw_tcp l) \<noteq> TCP_CLOSE"

text \<open>
  The psock is on the global list before any of the checks; a failed check leaves it
  there, freed in the last two cases.
\<close>

definition rakaia_attach ::
  "(unit, 'u) strp_callbacks \<Rightarrow> nat option \<Rightarrow> nat option \<Rightarrow> world \<Rightarrow> fault + int \<times> world" where
  "rakaia_attach cb alloc csk w =
     (case alloc of
        None \<Rightarrow> Inr (- ENOMEM, w)
      | Some p \<Rightarrow>
          (let w1 = set_psock p zero_psock (w\<lparr>w_rk := (w_rk w)\<lparr>r_psock_list := p # r_psock_list (w_rk w)\<rparr>\<rparr>);
               freed = free_psock p w1
           in case csk of
                None \<Rightarrow> Inr (- EINVAL, w1)
              | Some c \<Rightarrow>
                  bind_fault (lower_at w1 (Some c)) (\<lambda>(_, l).
                    if \<not> attachable l then Inr (- EOPNOTSUPP, w1)
                    else if lw_user_data l \<noteq> None then Inr (- EALREADY, freed)
                    else
                      (case strp_init (Some (lw_view l)) (Some cb) of
                         Inl err \<Rightarrow> Inr (err, freed)
                       | Inr (strp, _) \<Rightarrow>
                           Inr (0,
                             set_psock p (zero_psock\<lparr>p_sk := Some c, p_strp := strp_check_rcv strp,
                                 p_save_data_ready := lw_data_ready l,
                                 p_save_write_space := lw_write_space l,
                                 p_save_state_change := lw_state_change l\<rparr>)
                               (set_lower c (l\<lparr>lw_user_data := Some p, lw_data_ready := PsockDataReady,
                                   lw_write_space := PsockWriteSpace,
                                   lw_state_change := PsockStateChange,
                                   lw_refs := lw_refs l + 1\<rparr>) w1))))))"

text \<open>
  \<open>sockfd_lookup\<close> is kernel code: \<open>None\<close> when the descriptor is not a socket, otherwise it
  takes a reference on the file, which \<open>sockfd_put\<close> drops.
\<close>

definition file_ref :: "int \<Rightarrow> nat option \<Rightarrow> world \<Rightarrow> world" where
  "file_ref d csk w =
     (case csk of
        None \<Rightarrow> w
      | Some c \<Rightarrow> w\<lparr>w_lower := (w_lower w)(c :=
                      map_option (\<lambda>l. l\<lparr>lw_file_refs := lw_file_refs l + d\<rparr>) (w_lower w c))\<rparr>)"

definition rakaia_attach_ioctl ::
  "(unit, 'u) strp_callbacks \<Rightarrow> nat option \<Rightarrow> nat option option \<Rightarrow> world \<Rightarrow> fault + int \<times> world" where
  "rakaia_attach_ioctl cb alloc lookup w =
     (case lookup of
        None \<Rightarrow> Inr (- ENOENT, w)
      | Some csk \<Rightarrow>
          bind_fault (rakaia_attach cb alloc csk (file_ref 1 csk w))
            (\<lambda>(err, w1). Inr (err, if err \<noteq> 0 then file_ref (- 1) csk w1 else w1)))"

section \<open>Control calls\<close>

abbreviation (input) SIOCRAKAIAATTACH :: nat where "SIOCRAKAIAATTACH \<equiv> 0x89E0"
abbreviation (input) SIOCRAKAIAPULL :: nat where "SIOCRAKAIAPULL \<equiv> 0x89E3"

record ioctl_call =
  ic_copy_fails :: bool
  ic_lookup :: "nat option option"
  ic_alloc :: "nat option"
  ic_rnd :: "nat \<Rightarrow> u8"
  ic_sched_ok :: bool

definition rakaia_ioctl ::
  "nat \<Rightarrow> (unit, 'u) strp_callbacks \<Rightarrow> ioctl_call \<Rightarrow> nat \<Rightarrow> nat \<Rightarrow> world \<Rightarrow> (fault + int \<times> world) option" where
  "rakaia_ioctl n cb I a cmd w =
     (if cmd = SIOCRAKAIAATTACH then
        Some (if ic_copy_fails I then Inr (- EFAULT, w)
              else rakaia_attach_ioctl cb (ic_alloc I) (ic_lookup I) w)
      else if cmd = SIOCRAKAIAPULL then
        map_option (map_sum id (\<lambda>(r, rk). (r, w\<lparr>w_rk := rk\<rparr>)))
          (rakaia_pull n (ic_rnd I) 0 (ic_sched_ok I) a (w_rk w))
      else Some (Inr (- ENOIOCTLCMD, w)))"

text \<open>No socket option exists; the arguments only decide which error is returned.\<close>

definition rakaia_setsockopt :: "bool \<Rightarrow> nat \<Rightarrow> bool \<Rightarrow> int" where
  "rakaia_setsockopt sol_rakaia optlen copy_fails =
     (if \<not> sol_rakaia then - ENOPROTOOPT
      else if optlen < 4 then - EINVAL
      else if copy_fails then - EFAULT
      else - ENOPROTOOPT)"

definition rakaia_getsockopt :: "bool \<Rightarrow> int option \<Rightarrow> int" where
  "rakaia_getsockopt sol_rakaia len =
     (if \<not> sol_rakaia then - ENOPROTOOPT
      else (case len of
              None \<Rightarrow> - EFAULT
            | Some n \<Rightarrow> if n < 0 then - EINVAL else - ENOPROTOOPT))"

section \<open>Loading and unloading\<close>

text \<open>
  The resources the module acquires. The answers of the kernel's registration functions
  are the fields of \<open>init_call\<close>.
\<close>

record module_res =
  mr_strp_wq :: bool
  mr_psockp :: bool
  mr_wq :: bool
  mr_proto :: bool
  mr_pernet :: bool
  mr_family :: bool

record init_call =
  in_strp_wq :: bool
  in_psockp :: bool
  in_wq :: bool
  in_proto :: int
  in_pernet :: int
  in_family :: int

definition no_res :: module_res where
  "no_res = \<lparr>mr_strp_wq = False, mr_psockp = False, mr_wq = False, mr_proto = False,
             mr_pernet = False, mr_family = False\<rparr>"

definition rakaia_proc_init :: int where "rakaia_proc_init = 0"

definition init_fail :: "module_res \<Rightarrow> module_res" where
  "init_fail m = m\<lparr>mr_psockp := False, mr_wq := False\<rparr>"

definition init_net_ops_fail :: "module_res \<Rightarrow> module_res" where
  "init_net_ops_fail m = init_fail (m\<lparr>mr_proto := False\<rparr>)"

definition init_sock_register_fail :: "module_res \<Rightarrow> module_res" where
  "init_sock_register_fail m = init_net_ops_fail (m\<lparr>mr_pernet := False\<rparr>)"

definition rakaia_init :: "init_call \<Rightarrow> module_res \<Rightarrow> int \<times> module_res" where
  "rakaia_init I m =
     (if \<not> in_strp_wq I then (- ENOMEM, m)
      else
        (let m1 = m\<lparr>mr_strp_wq := True\<rparr> in
         if \<not> in_psockp I then (- ENOMEM, init_fail m1)
         else
           (let m2 = m1\<lparr>mr_psockp := True\<rparr> in
            if \<not> in_wq I then (- ENOMEM, init_fail m2)
            else
              (let m3 = m2\<lparr>mr_wq := True\<rparr> in
               if in_proto I \<noteq> 0 then (in_proto I, init_fail m3)
               else
                 (let m4 = m3\<lparr>mr_proto := True\<rparr> in
                  if in_pernet I \<noteq> 0 then (in_pernet I, init_net_ops_fail m4)
                  else
                    (let m5 = m4\<lparr>mr_pernet := True\<rparr> in
                     if in_family I \<noteq> 0 then (in_family I, init_sock_register_fail m5)
                     else
                       (let m6 = m5\<lparr>mr_family := True\<rparr> in
                        if rakaia_proc_init \<noteq> 0
                        then (rakaia_proc_init, init_sock_register_fail (m6\<lparr>mr_family := False\<rparr>))
                        else (0, m6))))))))"

definition rakaia_exit :: "module_res \<Rightarrow> module_res" where
  "rakaia_exit m =
     m\<lparr>mr_family := False, mr_pernet := False, mr_proto := False, mr_wq := False, mr_psockp := False\<rparr>"

section \<open>Booting: twenty sockets\<close>

fun create_all :: "int \<Rightarrow> nat list \<Rightarrow> rakaia \<Rightarrow> fault + rakaia" where
  "create_all rcvbuf [] rk = Inr rk"
| "create_all rcvbuf (a # as) rk =
     bind_fault (rakaia_create SOCK_DGRAM RAKAIAPROTO_CONNECTED (Some a) rcvbuf rk)
       (\<lambda>(_, rk1). create_all rcvbuf as rk1)"

definition boot_inv :: "nat list \<Rightarrow> rakaia \<Rightarrow> bool" where
  "boot_inv as rk \<longleftrightarrow>
     r_cnt rk = int (length as) \<and> distinct as \<and> length as \<le> 20 \<and>
     r_socks rk = map Some as @ replicate (20 - length as) None \<and>
     (\<forall>i<length as. \<exists>k. r_heap rk (as ! i) = Some k \<and> k_index k = int i \<and> k_rx_q k = []) \<and>
     r_waiters rk = as \<and> (\<forall>i. bit (r_waiters_bm rk) i \<longleftrightarrow> i < length as) \<and> r_rx_nonempty_bm rk = 0"

lemma boot_init: "boot_inv [] rakaia_data_init"
  by (simp add: boot_inv_def rakaia_data_init_def NUM_RAKAIA_SOCKETS_def)

lemma boot_step:
  assumes inv: "boot_inv as rk" and a: "a \<notin> set as" and len: "length as < 20"
  obtains rk' where "rakaia_create SOCK_DGRAM 0 (Some a) rcvbuf rk = Inr (0, rk')" "boot_inv (as @ [a]) rk'"
proof -
  let ?n = "length as"
  let ?rk = "rk\<lparr>r_socks := (r_socks rk)[?n := Some a],
        r_heap := (r_heap rk)(a := Some (new_rakaia_sock (int ?n) rcvbuf)), r_cnt := int ?n + 1,
        r_waiters_bm := set_bit ?n (r_waiters_bm rk), r_waiters := r_waiters rk @ [a]\<rparr>"
  have cnt: "r_cnt rk = int ?n" and socks: "r_socks rk = map Some as @ replicate (20 - ?n) None"
    and heap: "\<And>i. i < ?n \<Longrightarrow> \<exists>k. r_heap rk (as ! i) = Some k \<and> k_index k = int i \<and> k_rx_q k = []"
    and bm: "\<And>i. bit (r_waiters_bm rk) i \<longleftrightarrow> i < ?n"
    using inv by (auto simp: boot_inv_def)
  have "20 - ?n = Suc (20 - Suc ?n)" using len by simp
  then have "(r_socks rk)[?n := Some a] = map Some (as @ [a]) @ replicate (20 - Suc ?n) None"
    using socks by (simp add: list_update_append)
  moreover have "\<exists>k. ((r_heap rk)(a := Some (new_rakaia_sock (int ?n) rcvbuf))) ((as @ [a]) ! i) = Some k \<and>
      k_index k = int i \<and> k_rx_q k = []" if "i < Suc ?n" for i
    using that heap a by (cases "i = ?n") (auto simp: nth_append new_rakaia_sock_def)
  moreover have "bit (set_bit ?n (r_waiters_bm rk)) i \<longleftrightarrow> i < Suc ?n" for i
    using len bm by (auto simp: bit_set_bit_bitmap less_Suc_eq)
  ultimately have "boot_inv (as @ [a]) ?rk" using inv a len by (simp add: boot_inv_def)
  moreover have "rakaia_create SOCK_DGRAM 0 (Some a) rcvbuf rk = Inr (0, ?rk)"
    using cnt len by (simp add: rakaia_create_def NUM_RAKAIA_SOCKETS_def)
  ultimately show ?thesis using that by blast
qed

lemma boot_all:
  assumes "boot_inv as rk" "distinct (as @ bs)" "length as + length bs \<le> 20"
  shows "\<exists>rk'. create_all rcvbuf bs rk = Inr rk' \<and> boot_inv (as @ bs) rk'"
  using assms
proof (induction bs arbitrary: as rk)
  case Nil
  then show ?case by simp
next
  case (Cons b bs)
  from Cons.prems obtain rk1 where
    "rakaia_create SOCK_DGRAM 0 (Some b) rcvbuf rk = Inr (0, rk1)" "boot_inv (as @ [b]) rk1"
    using boot_step [of as rk b rcvbuf] by auto
  with Cons.IH [of "as @ [b]" rk1] Cons.prems show ?case by simp
qed

lemma boot_sched_inv:
  assumes inv: "boot_inv as rk" and len: "length as = 20"
  shows "sched_inv rk"
proof -
  have socks: "r_socks rk = map Some as" and d: "distinct as" and w: "r_waiters rk = as"
    and bm: "\<And>i. bit (r_waiters_bm rk) i \<longleftrightarrow> i < 20" and z: "r_rx_nonempty_bm rk = 0"
    and heap: "\<And>i. i < 20 \<Longrightarrow> \<exists>k. r_heap rk (as ! i) = Some k \<and> k_index k = int i \<and> k_rx_q k = []"
    using inv len by (auto simp: boot_inv_def)
  have q: "queue_of rk i = []" if "i < 20" for i
    using heap [OF that] that len by (auto simp: queue_of_def socks)
  have "socks_inv rk" unfolding socks_inv_def using heap len d by (auto simp: socks distinct_map)
  moreover have "bm_inv rk" using q by (simp add: bm_inv_def z)
  moreover have "waiters_inv rk"
    unfolding waiters_inv_def using d len by (auto simp: w bm socks in_set_conv_nth)
  moreover have "work_inv rk" using q by (simp add: work_inv_def)
  ultimately show ?thesis by (simp add: sched_inv_def)
qed

section \<open>Releasing a socket\<close>

lemma release_psocks_slots:
  "release_psocks ps w = Inr w' \<Longrightarrow>
     r_socks (w_rk w') = r_socks (w_rk w) \<and> r_waiters (w_rk w') = r_waiters (w_rk w) \<and>
     r_heap (w_rk w') = r_heap (w_rk w) \<and> r_waiters_bm (w_rk w') = r_waiters_bm (w_rk w)"
proof (induction ps arbitrary: w)
  case Nil
  then show ?case by simp
next
  case (Cons p ps)
  then obtain w1 where w1: "release_psock p w = Inr w1" "release_psocks ps w1 = Inr w'"
    by (auto simp: bind_fault_Inr)
  from w1(1) have "r_socks (w_rk w1) = r_socks (w_rk w)" "r_waiters (w_rk w1) = r_waiters (w_rk w)"
    "r_heap (w_rk w1) = r_heap (w_rk w)" "r_waiters_bm (w_rk w1) = r_waiters_bm (w_rk w)"
    by (auto simp: release_psock_def bind_fault_Inr Let_def free_psock_def set_psock_def set_lower_def)
  with Cons.IH [OF w1(2)] show ?case by simp
qed

text \<open>After a release the slot is empty and the waiting list still names the freed socket.\<close>

lemma release_effect:
  assumes inv: "sched_inv (w_rk w)" and at: "at_slot (w_rk w) i a k"
    and rel: "rakaia_release (Some a) w = Inr (r, w')"
  shows "r_socks (w_rk w') = (r_socks (w_rk w))[i := None]" "r_heap (w_rk w') = (r_heap (w_rk w))(a := None)"
    "r_waiters (w_rk w') = r_waiters (w_rk w)" "r_waiters_bm (w_rk w') = r_waiters_bm (w_rk w)"
proof -
  have len: "length (r_socks (w_rk w)) = 20" using sched_invD(1) [OF inv] by (simp add: socks_inv_def)
  have i: "i < 20" "k_index k = int i" "deref (w_rk w) a = Inr k"
    using at by (auto simp: at_slot_def deref_def)
  define rk2 where "rk2 = (upd_sock a (\<lambda>s. s\<lparr>k_dead := True, k_writeq := []\<rparr>) (w_rk w))
      \<lparr>r_socks := (r_socks (w_rk w))[i := None], r_cnt := r_cnt (w_rk w) - 1,
       r_all_msg_cnt := r_all_msg_cnt (w_rk w) + k_msg_cnt k,
       r_accumu_cnt := r_accumu_cnt (w_rk w) + k_accumu_cnt k,
       r_snd_cnt := r_snd_cnt (w_rk w) + k_snd_cnt k,
       r_all_steal_cnt := r_all_steal_cnt (w_rk w) + k_steal_cnt k\<rparr>"
  have rk2: "r_socks rk2 = (r_socks (w_rk w))[i := None]" "r_waiters rk2 = r_waiters (w_rk w)"
    "r_waiters_bm rk2 = r_waiters_bm (w_rk w)" "(r_heap rk2)(a := None) = (r_heap (w_rk w))(a := None)"
    by (auto simp: rk2_def)
  have "bind_fault (if r_cnt rk2 = 0 then release_psocks (r_psock_list rk2) (w\<lparr>w_rk := rk2\<rparr>)
           else Inr (w\<lparr>w_rk := rk2\<rparr>))
        (\<lambda>w3. Inr (0, w3\<lparr>w_rk := (w_rk w3)\<lparr>r_heap := (r_heap (w_rk w3))(a := None)\<rparr>\<rparr>)) = Inr (r, w')"
    using rel i len
    by (cases "r_cnt (w_rk w) = 1") (simp_all add: rakaia_release_def rk2_def Let_def NUM_RAKAIA_SOCKETS_def)
  then have "\<exists>w3. (if r_cnt rk2 = 0 then release_psocks (r_psock_list rk2) (w\<lparr>w_rk := rk2\<rparr>)
           else Inr (w\<lparr>w_rk := rk2\<rparr>)) = Inr w3 \<and>
        w' = w3\<lparr>w_rk := (w_rk w3)\<lparr>r_heap := (r_heap (w_rk w3))(a := None)\<rparr>\<rparr>"
    unfolding bind_fault_Inr by auto
  then obtain w3 where
    w3: "w3 = w\<lparr>w_rk := rk2\<rparr> \<or> release_psocks (r_psock_list rk2) (w\<lparr>w_rk := rk2\<rparr>) = Inr w3"
    and w': "w' = w3\<lparr>w_rk := (w_rk w3)\<lparr>r_heap := (r_heap (w_rk w3))(a := None)\<rparr>\<rparr>"
    by (metis old.sum.inject(2))
  from w3 have "r_socks (w_rk w3) = r_socks rk2" "r_waiters (w_rk w3) = r_waiters rk2"
    "r_heap (w_rk w3) = r_heap rk2" "r_waiters_bm (w_rk w3) = r_waiters_bm rk2"
    using release_psocks_slots [of "r_psock_list rk2" "w\<lparr>w_rk := rk2\<rparr>" w3] by auto
  with w' rk2 show "r_socks (w_rk w') = (r_socks (w_rk w))[i := None]" "r_heap (w_rk w') = (r_heap (w_rk w))(a := None)"
    "r_waiters (w_rk w') = r_waiters (w_rk w)" "r_waiters_bm (w_rk w') = r_waiters_bm (w_rk w)"
    by simp_all
qed

lemma push_null_slot:
  assumes "length (r_socks rk) = 20" "r_socks rk ! (unat rnd1 mod 20) = None"
  shows "rakaia_push_skb_single_queue rnd1 rnd2 sched_ok skb psock rk = Inl NullDeref"
proof -
  have "sock_slot rk (int (unat rnd1 mod 20)) = Inl NullDeref"
    using assms by (simp add: sock_slot_def nat_int zmod_int [symmetric])
  then show ?thesis
    by (simp add: rakaia_push_skb_single_queue_def shorter_queue_def NUM_RAKAIA_SOCKETS_def Let_def)
qed

section \<open>Attaching and releasing lower sockets\<close>

definition full_callbacks :: "(unit, 'u) strp_callbacks \<Rightarrow> bool" where
  "full_callbacks cb \<longleftrightarrow> cb_parse_msg cb \<noteq> None \<and> cb_rcv_msg cb \<noteq> None"

lemma strp_init_full:
  assumes "full_callbacks cb"
  obtains H where "strp_init (Some v) (Some cb) = Inr (zero_strp (Some v), H)"
  using assms by (auto simp: full_callbacks_def strp_init_def)

lemma attach_success:
  assumes "full_callbacks cb" "w_lower w c = Some l" "attachable l" "lw_user_data l = None"
  obtains ps w' where "rakaia_attach cb (Some p) (Some c) w = Inr (0, w')"
    "w_psocks w' = (w_psocks w)(p := Some ps)" "p_sk ps = Some c"
    "p_save_data_ready ps = lw_data_ready l" "p_save_write_space ps = lw_write_space l"
    "p_save_state_change ps = lw_state_change l"
    "w_lower w' = (w_lower w)(c := Some (l\<lparr>lw_user_data := Some p, lw_data_ready := PsockDataReady,
        lw_write_space := PsockWriteSpace, lw_state_change := PsockStateChange,
        lw_refs := lw_refs l + 1\<rparr>))"
    "w_rk w' = (w_rk w)\<lparr>r_psock_list := p # r_psock_list (w_rk w)\<rparr>"
proof -
  obtain H where H: "strp_init (Some (lw_view l)) (Some cb) = Inr (zero_strp (Some (lw_view l)), H)"
    by (rule strp_init_full [OF assms(1)])
  show ?thesis
    using assms that H
    by (auto simp: rakaia_attach_def access_defs Let_def)
qed

lemma attach_refused:
  assumes "w_lower w c = Some l" "attachable l" "lw_user_data l \<noteq> None"
  shows "\<exists>w'. rakaia_attach cb (Some p) (Some c) w = Inr (- EALREADY, w') \<and>
           r_psock_list (w_rk w') = p # r_psock_list (w_rk w) \<and> w_psocks w' p = None"
  using assms
  by (auto simp: rakaia_attach_def access_defs free_psock_def Let_def)

lemma attach_unsupported:
  assumes "w_lower w c = Some l" "\<not> attachable l"
  shows "\<exists>w'. rakaia_attach cb (Some p) (Some c) w = Inr (- EOPNOTSUPP, w') \<and>
           r_psock_list (w_rk w') = p # r_psock_list (w_rk w) \<and> w_psocks w' p = Some zero_psock"
  using assms by (auto simp: rakaia_attach_def access_defs Let_def)

end
