(* ===== verification/Sched_Theorems.thy ===== *)
theory Sched_Theorems
  imports Sockets
begin

text \<open>
  What the scheduler promises, stated over the handlers of \<open>Scheduler\<close>: the properties rest
  on the simulation of \<open>Sched_Refine\<close> and hold from the creation of the twenty sockets on.
\<close>

section \<open>A booted module\<close>

definition booted :: rakaia where
  "booted = (case create_all 212992 [0..<20] rakaia_data_init of Inl _ \<Rightarrow> rakaia_data_init | Inr rk \<Rightarrow> rk)"

lemma booted_create: "create_all 212992 [0..<20] rakaia_data_init = Inr booted"
  and booted_boot: "boot_inv [0..<20] booted"
  using boot_all [OF boot_init, of "[0..<20]" 212992] by (auto simp: booted_def)

lemma booted_inv: "sched_inv booted"
  using boot_sched_inv [OF booted_boot] by simp

lemma booted_slot: "i < 20 \<Longrightarrow> r_socks booted ! i = Some i"
  using booted_boot by (simp add: boot_inv_def)

lemma booted_at: "i < 20 \<Longrightarrow> \<exists>k. at_slot booted i i k"
  using socks_inv_slot [OF sched_invD(1) [OF booted_inv]] booted_slot
  by (metis at_slot_def option.inject)

lemma booted_mem: "i < 20 \<Longrightarrow> Some i \<in> set (r_socks booted)"
  using booted_at at_slot_mem [OF sched_invD(1) [OF booted_inv]] by blast

lemma booted_waiters: "r_waiters booted = [0..<20]"
  using booted_boot by (simp add: boot_inv_def)

definition sample_msg :: sk_buff where
  "sample_msg =
     \<lparr>sb_bytes = [1, 2], sb_len = 2, sb_data_len = 0, sb_truesize = 768, sb_frag_list = False,
      sb_next = False, sb_cb0 = CbPsock 0, sb_full_len = 2, sb_offset = 0, sb_accum_len = 0\<rparr>"

lemma sample_push:
  obtains r rk' where "sched_step booted (Push sample_msg r) rk'"
proof -
  obtain r rk' where "rakaia_push_skb_single_queue 0 1 True sample_msg 0 booted = Inr (r, rk')"
    using push_refines [OF booted_inv] by metis
  from step_push [OF this] that show ?thesis by (simp add: sample_msg_def)
qed

section \<open>Refinement and invariants\<close>

text \<open>
  C2. The per-socket queues with two random choices, the bitmaps, the waiting list and stealing
  implement one central pool of messages that hands a message to an idle socket as soon as
  there is one: every run of the push, pull and free handlers from a state that satisfies the
  invariant is a run of the central pool, and the invariant holds again at its end.
\<close>

theorem sched_refines_central:
  assumes "run sched_step rk es rk'" "sched_inv rk"
  shows "run central_step (central_of rk) es (central_of rk') \<and> sched_inv rk'"
  using sch.run_refines [OF assms] sch.run_inv [OF assms] by simp

theorem sched_refines_central_witness:
  "\<exists>r rk'. run central_step (central_of booted) [Push sample_msg r] (central_of rk') \<and> sched_inv rk'"
proof -
  obtain r rk' where "sched_step booted (Push sample_msg r) rk'" by (rule sample_push)
  then have "run sched_step booted [Push sample_msg r] rk'" by (simp add: run_cons_iff)
  from sched_refines_central [OF this booted_inv] show ?thesis by blast
qed

text \<open>
  C6. Work conservation, from the creation of the sockets on: after any run of the handlers a
  bit of \<open>rx_nonempty_bm\<close> is set exactly for the queues that hold a message, the waiting list
  holds exactly the sockets whose bit is set in \<open>waiters_bm\<close>, once each, and no socket waits
  while any queue holds a message.
\<close>

theorem no_waiter_while_queued:
  assumes "create_all rcvbuf as rakaia_data_init = Inr rk0" "distinct as" "length as = 20"
    and "run sched_step rk0 es rk"
  shows "(\<forall>i. bit (r_rx_nonempty_bm rk) i = (i < 20 \<and> queue_of rk i \<noteq> [])) \<and>
    distinct (r_waiters rk) \<and>
    (\<forall>a. a \<in> set (r_waiters rk) = (\<exists>i<20. r_socks rk ! i = Some a \<and> bit (r_waiters_bm rk) i)) \<and>
    (r_waiters rk = [] \<or> sched_pool rk = {#})"
proof -
  obtain rk1 where "create_all rcvbuf as rakaia_data_init = Inr rk1" "boot_inv as rk1"
    using boot_all [OF boot_init, of as rcvbuf] assms(2,3) by auto
  with assms(1,3) have "sched_inv rk0" using boot_sched_inv by simp
  then have inv: "sched_inv rk" by (rule sch.run_inv [OF assms(4)])
  show ?thesis
    using sched_invD(2,3,4) [OF inv]
    by (simp add: bm_inv_def waiters_inv_def work_inv_def sched_pool_empty_iff) blast
qed

theorem no_waiter_while_queued_witness:
  "\<exists>r rk. run sched_step booted [Push sample_msg r] rk \<and> (r_waiters rk = [] \<or> sched_pool rk = {#})"
proof -
  obtain r rk' where "sched_step booted (Push sample_msg r) rk'" by (rule sample_push)
  then have run: "run sched_step booted [Push sample_msg r] rk'" by (simp add: run_cons_iff)
  from no_waiter_while_queued [OF booted_create _ _ this] have "r_waiters rk' = [] \<or> sched_pool rk' = {#}"
    by simp
  with run show ?thesis by blast
qed

text \<open>
  C7. No message is lost or duplicated: after any run, the messages in the queues and the
  receive queues of the sockets, plus one discarded message for each call that returned a
  negative number, are those held before plus those pushed.
\<close>

theorem messages_conserved:
  assumes "run sched_step rk es rk'" "sched_inv rk"
  shows "\<exists>D. held (central_of rk') + D = held (central_of rk) + mset (pushed es) \<and> size D = refusals es"
  using central_run_held [OF sch.run_refines [OF assms] central_wf_of [OF assms(2)]] .

theorem messages_conserved_witness:
  "\<exists>r rk' D. held (central_of rk') + D = held (central_of booted) + {#sample_msg#} \<and>
     size D = refusals [Push sample_msg r]"
proof -
  obtain r rk' where "sched_step booted (Push sample_msg r) rk'" by (rule sample_push)
  then have "run sched_step booted [Push sample_msg r] rk'" by (simp add: run_cons_iff)
  from messages_conserved [OF this booted_inv] show ?thesis by (auto simp del: refusals.simps)
qed

text \<open>
  C17. Pulling ends: when the random bytes do not pick the same of several bits for ever, the
  pull handler of every socket returns, without touching a pointer it must not follow,
  whatever the fuel beyond some bound.
\<close>

theorem pull_terminates:
  assumes "sched_inv rk" "draws_differ rnd" "Some a \<in> set (r_socks rk)"
  shows "\<exists>n0. \<forall>n\<ge>n0. \<exists>r rk'. rakaia_pull n rnd p sched_ok a rk = Some (Inr (r, rk'))"
proof -
  obtain i k where "at_slot rk i a k" using mem_at_slot [OF sched_invD(1) [OF assms(1)] assms(3)] by blast
  from pull_ends [OF assms(1,2) this] show ?thesis by metis
qed

theorem pull_terminates_witness:
  "\<exists>n0. \<forall>n\<ge>n0. \<exists>r rk'. rakaia_pull n word_of_nat 0 True 3 booted = Some (Inr (r, rk'))"
  using pull_terminates [OF booted_inv counter_draws_differ booted_mem, of 3 0 True] by simp

section \<open>Placing a message\<close>

lemma push_no_waiter:
  fixes skb :: sk_buff
  assumes inv: "sched_inv rk" and none: "r_waiters rk = []"
  defines "m \<equiv> (\<lambda>p. skb\<lparr>sb_cb0 := CbPsock p\<rparr>)"
  shows "\<exists>i rk'. rakaia_push_skb_single_queue rnd1 rnd2 sched_ok skb psock rk = Inr (0, rk') \<and>
    (i = unat rnd1 mod 20 \<or> i = unat rnd2 mod 20) \<and>
    length (queue_of rk i) \<le> length (queue_of rk (unat rnd1 mod 20)) \<and>
    length (queue_of rk i) \<le> length (queue_of rk (unat rnd2 mod 20)) \<and>
    (\<forall>j<20. queue_of rk' j = (if j = i then queue_of rk i @ [m psock] else queue_of rk j))"
proof -
  note I = sched_invD [OF inv]
  obtain i a k where s: "shorter_queue rk rnd1 rnd2 = Inr (a, k)" "at_slot rk i a k"
    "i = unat rnd1 mod 20 \<or> i = unat rnd2 mod 20"
    "length (k_rx_q k) \<le> length (queue_of rk (unat rnd1 mod 20))"
    "length (k_rx_q k) \<le> length (queue_of rk (unat rnd2 mod 20))"
    by (rule shorter_queue_slot [OF I(1)])
  let ?rk1 = "upd_sock a (\<lambda>s. s\<lparr>k_rx_q := k_rx_q s @ [m psock]\<rparr>) rk"
  let ?bm = "if k_rx_q k = [] then set_bit i (r_rx_nonempty_bm rk) else r_rx_nonempty_bm rk"
  have "rakaia_push_skb_single_queue rnd1 rnd2 sched_ok skb psock rk =
      Inr (0, ?rk1\<lparr>r_rx_nonempty_bm := ?bm\<rparr>)"
    using s(1,2) none
    by (auto simp: rakaia_push_skb_single_queue_def m_def skb_queue_tail_def Let_def
        rakaia_get_avail_sk_def at_slot_def upd_sock_def Suc_le_eq)
  moreover have "queue_of (?rk1\<lparr>r_rx_nonempty_bm := ?bm\<rparr>) j =
      (if j = i then queue_of rk i @ [m psock] else queue_of rk j)" if "j < 20" for j
    using queue_of_upd [OF I(1) s(2) that, of "\<lambda>s. s\<lparr>k_rx_q := k_rx_q s @ [m psock]\<rparr>"] queue_of_at [OF s(2)]
      queue_of_frame [of "?rk1\<lparr>r_rx_nonempty_bm := ?bm\<rparr>" ?rk1 j] by simp
  ultimately show ?thesis using s(3-5) queue_of_at [OF s(2)] by auto
qed

text \<open>
  C18. The power of two choices: with no idle socket a pushed message is appended to one of the
  two queues drawn at random, to one that is not longer than the other, and no other queue
  changes.
\<close>

theorem push_takes_shorter_queue:
  assumes "sched_inv rk" "r_waiters rk = []"
  shows "\<exists>i rk'. rakaia_push_skb_single_queue rnd1 rnd2 sched_ok skb psock rk = Inr (0, rk') \<and>
    (i = unat rnd1 mod 20 \<or> i = unat rnd2 mod 20) \<and>
    length (queue_of rk i) \<le> length (queue_of rk (unat rnd1 mod 20)) \<and>
    length (queue_of rk i) \<le> length (queue_of rk (unat rnd2 mod 20)) \<and>
    (\<forall>j<20. queue_of rk' j =
       (if j = i then queue_of rk i @ [skb\<lparr>sb_cb0 := CbPsock psock\<rparr>] else queue_of rk j))"
  using push_no_waiter [OF assms] .

definition all_busy :: rakaia where
  "all_busy = booted\<lparr>r_waiters := [], r_waiters_bm := 0\<rparr>"

lemma all_busy_inv: "sched_inv all_busy"
proof -
  have q: "queue_of all_busy i = queue_of booted i" for i by (simp add: all_busy_def queue_of_def split: option.split)
  have "socks_inv all_busy"
    using sched_invD(1) [OF booted_inv] socks_inv_frame [of all_busy booted] by (simp add: all_busy_def)
  moreover have "bm_inv all_busy"
    using sched_invD(2) [OF booted_inv] by (simp add: bm_inv_def q) (simp add: all_busy_def)
  ultimately show ?thesis by (simp add: sched_inv_def waiters_inv_def work_inv_def) (simp add: all_busy_def)
qed

theorem push_takes_shorter_queue_witness:
  "\<exists>i rk'. rakaia_push_skb_single_queue 3 7 True sample_msg 0 all_busy = Inr (0, rk') \<and> (i = 3 \<or> i = 7) \<and>
    queue_of rk' i = queue_of all_busy i @ [sample_msg]"
proof -
  have "r_waiters all_busy = []" by (simp add: all_busy_def)
  from push_takes_shorter_queue [OF all_busy_inv this, of 3 7 True sample_msg 0]
  obtain i rk' where "rakaia_push_skb_single_queue 3 7 True sample_msg 0 all_busy = Inr (0, rk')"
    "i = 3 \<or> i = 7" "\<forall>j<20. queue_of rk' j = (if j = i then queue_of all_busy i @
        [sample_msg\<lparr>sb_cb0 := CbPsock 0\<rparr>] else queue_of all_busy j)"
    by auto
  moreover from this have "queue_of rk' i = queue_of all_busy i @ [sample_msg]"
    by (auto simp: sample_msg_def)
  ultimately show ?thesis by blast
qed

section \<open>How even the random choice is\<close>

lemma card_residue:
  assumes "k < (t :: nat)"
  shows "card {n. n < N \<and> n mod t = k} = N div t + (if k < N mod t then 1 else 0)"
proof -
  have "{n. n < N \<and> n mod t = k} = (\<lambda>q. q * t + k) ` {q. q * t + k < N}"
    using assms by (auto simp: image_iff) (metis div_mult_mod_eq)
  moreover have "inj_on (\<lambda>q. q * t + k) S" for S using assms by (auto simp: inj_on_def)
  moreover have "{q. q * t + k < N} = {..<N div t + (if k < N mod t then 1 else 0)}"
  proof -
    have "q * t + k < N \<longleftrightarrow> q < N div t + (if k < N mod t then 1 else 0)" for q
    proof -
      have N: "N = (N div t) * t + N mod t" "N mod t < t" using assms by simp_all
      show ?thesis
      proof (cases "q < N div t")
        case True
        then have "Suc q * t \<le> (N div t) * t" by (intro mult_le_mono1) simp
        then have "q * t + k < N" using N(1) assms unfolding mult_Suc by linarith
        with True show ?thesis by simp
      next
        case False
        then consider "q = N div t" | "Suc (N div t) \<le> q" by linarith
        then show ?thesis
        proof cases
          case 1
          from N(1) have "(N div t) * t + k < N \<longleftrightarrow> k < N mod t" by linarith
          with 1 show ?thesis by (simp only: less_add_same_cancel1) simp
        next
          case 2
          then have "Suc (N div t) * t \<le> q * t" by (intro mult_le_mono1)
          then have "\<not> q * t + k < N" using N unfolding mult_Suc by linarith
          with 2 show ?thesis by simp
        qed
      qed
    qed
    then show ?thesis by auto
  qed
  ultimately show ?thesis by (simp add: card_image)
qed

text \<open>
  C35. Of the 256 values of the random byte, the number that make \<open>pick_random_set_bit\<close> choose a
  given set bit is \<open>256 div n\<close> or one more, where \<open>n\<close> bits are set: the choice is uniform when
  \<open>n\<close> divides 256 and otherwise prefers the lowest \<open>256 mod n\<close> bits by one value each.
\<close>

theorem pick_random_set_bit_even:
  assumes "i < hweight_long msk"
  shows "card {rnd. pick_random_set_bit rnd msk = int (set_bits msk ! i)} =
    256 div hweight_long msk + (if i < 256 mod hweight_long msk then 1 else 0)"
proof -
  let ?t = "hweight_long msk"
  have ne: "msk \<noteq> 0" using assms by (metis hweight_zero_iff not_less_zero)
  have lt: "unat rnd mod ?t < length (set_bits msk)" for rnd :: u8
    using assms unfolding hweight_long_def by (intro mod_less_divisor) linarith
  have "pick_random_set_bit rnd msk = int (set_bits msk ! i) \<longleftrightarrow> unat rnd mod ?t = i" for rnd
  proof -
    have "set_bits msk ! (unat rnd mod ?t) = set_bits msk ! i \<longleftrightarrow> unat rnd mod ?t = i"
      by (rule nth_eq_iff_index_eq [OF distinct_set_bits lt]) (use assms in \<open>simp add: hweight_long_def\<close>)
    then show ?thesis by (simp only: pick_random_nth [OF ne] of_nat_eq_iff)
  qed
  then have "{rnd. pick_random_set_bit rnd msk = int (set_bits msk ! i)} = {rnd :: u8. unat rnd mod ?t = i}"
    by simp
  moreover have "unat ` {rnd :: u8. unat rnd mod ?t = i} = {n. n < 256 \<and> n mod ?t = i}"
  proof (intro equalityI subsetI)
    fix n assume n: "n \<in> {n. n < 256 \<and> n mod ?t = i}"
    then have "unat (word_of_nat n :: u8) = n" unfolding unat_of_nat by simp
    with n show "n \<in> unat ` {rnd :: u8. unat rnd mod ?t = i}" by (intro image_eqI [of _ _ "word_of_nat n"]) simp_all
  next
    fix n assume "n \<in> unat ` {rnd :: u8. unat rnd mod ?t = i}"
    then obtain rnd :: u8 where "n = unat rnd" "unat rnd mod ?t = i" by blast
    with unat_u8_bound(1) [of rnd] show "n \<in> {n. n < 256 \<and> n mod ?t = i}" by simp
  qed
  moreover have "card (unat ` S) = card S" for S :: "u8 set"
    by (rule card_image) (simp add: inj_on_def word_unat_eq_iff)
  from this [of "{rnd :: u8. unat rnd mod ?t = i}"]
  have "card {rnd :: u8. unat rnd mod ?t = i} = card (unat ` {rnd :: u8. unat rnd mod ?t = i})" by (rule sym)
  ultimately show ?thesis using card_residue [OF assms, of 256] by (simp only:)
qed

lemma set_bits_7: "set_bits 7 = [0, 1, 2]"
  by code_simp

theorem pick_random_set_bit_even_witness:
  "card {rnd. pick_random_set_bit rnd 7 = 2} = 85"
  using pick_random_set_bit_even [of 2 7]
  by (simp add: hweight_long_def set_bits_7)
end
