(* ===== verification/Socket_Theorems.thy ===== *)
theory Socket_Theorems
  imports Sched_Theorems
begin

text \<open>
  The life cycle of sockets in the plain variant: attaching and releasing a TCP socket,
  releasing rakaia sockets while others are in use, and loading and unloading the module.
\<close>

section \<open>Sample worlds\<close>

definition sample_tcp :: tcp_sock where
  "sample_tcp =
     \<lparr>ts_write_queue = [], ts_write_seq = 1000, ts_pushed_seq = 1000, ts_max_window = 65535,
      ts_snd_up = 0, ts_nonagle = 0, ts_gso_segs = 0, ts_gso_max_size = 65536,
      ts_gso_max_segs = 65535, ts_state = 1, ts_err = 0, ts_send_shutdown = False,
      ts_wmem_queued = 0, ts_mem_charged = 0, ts_forward_alloc = 0, ts_nospace = False\<rparr>"

definition tcp_lower :: "nat option \<Rightarrow> nat \<Rightarrow> lower" where
  "tcp_lower user state =
     \<lparr>lw_tcp = sample_tcp\<lparr>ts_state := state\<rparr>, lw_family = 2, lw_protocol = 6, lw_user_data = user,
      lw_data_ready = KernelCb 1, lw_write_space = KernelCb 2, lw_state_change = KernelCb 3,
      lw_refs = 1, lw_file_refs = 1, lw_view = sample_lower\<rparr>"

definition world_of :: "rakaia \<Rightarrow> lower \<Rightarrow> world" where
  "world_of rk l = \<lparr>w_rk = rk, w_psocks = (\<lambda>_. None), w_lower = [0 \<mapsto> l], w_tx_work = []\<rparr>"

definition plain_callbacks :: "(sk_buff \<Rightarrow> 'u \<Rightarrow> 'u \<times> bool) \<Rightarrow> (unit, 'u) strp_callbacks" where
  "plain_callbacks rcv =
     \<lparr>cb_parse_msg = Some rakaia_parse_func_strparser, cb_rcv_msg = Some rcv,
      cb_read_sock_done = None, cb_abort_parser = None, cb_lock = False, cb_unlock = False\<rparr>"

lemma plain_callbacks_full [simp]: "full_callbacks (plain_callbacks rcv)"
  by (simp add: full_callbacks_def plain_callbacks_def)

definition quiet_callbacks :: "(unit, unit) strp_callbacks" where
  "quiet_callbacks = plain_callbacks (\<lambda>_ u. (u, True))"

lemma quiet_callbacks_full [simp]: "full_callbacks quiet_callbacks"
  by (simp add: quiet_callbacks_def)

lemma world_of_sel [simp]:
  "w_rk (world_of rk l) = rk" "w_psocks (world_of rk l) p = None"
  "w_lower (world_of rk l) c = (if c = 0 then Some l else None)"
  by (simp_all add: world_of_def)

lemma tcp_lower_sel [simp]:
  "attachable (tcp_lower user state) \<longleftrightarrow> state \<noteq> 10 \<and> state \<noteq> 7"
  "lw_user_data (tcp_lower user state) = user" "lw_refs (tcp_lower user state) = 1"
  "lw_file_refs (tcp_lower user state) = 1" "lw_data_ready (tcp_lower user state) = KernelCb 1"
  by (auto simp: tcp_lower_def attachable_def)

section \<open>Attaching and releasing\<close>

text \<open>
  C25. Attaching a connected TCP socket and releasing its psock restores the module, the psock
  store and the socket with its three callbacks, except that the reference on the socket and
  the reference on its file that the attach took are never dropped.
\<close>

theorem attach_release_roundtrip:
  assumes "full_callbacks cb" "w_lower w c = Some l" "attachable l" "lw_user_data l = None"
    and "w_psocks w p = None"
  shows "\<exists>w1 w2. rakaia_attach_ioctl cb (Some p) (Some (Some c)) w = Inr (0, w1) \<and>
    release_psock p w1 = Inr w2 \<and> w_rk w2 = w_rk w \<and> w_psocks w2 = w_psocks w \<and>
    w_lower w2 = (w_lower w)(c \<mapsto> l\<lparr>lw_refs := lw_refs l + 1, lw_file_refs := lw_file_refs l + 1\<rparr>)"
proof -
  let ?l = "l\<lparr>lw_file_refs := lw_file_refs l + 1\<rparr>"
  let ?w = "file_ref 1 (Some c) w"
  have w: "w_lower ?w = (w_lower w)(c \<mapsto> ?l)" "w_rk ?w = w_rk w" "w_psocks ?w = w_psocks w"
    using assms(2) by (simp_all add: file_ref_def)
  have at: "attachable ?l" "lw_user_data ?l = None" "w_lower ?w c = Some ?l"
    using assms(3,4) w by (simp_all add: attachable_def)
  obtain ps w1 where
    a: "rakaia_attach cb (Some p) (Some c) ?w = Inr (0, w1)"
    "w_psocks w1 = (w_psocks ?w)(p \<mapsto> ps)" "p_sk ps = Some c"
    "p_save_data_ready ps = lw_data_ready l" "p_save_write_space ps = lw_write_space l"
    "p_save_state_change ps = lw_state_change l"
    "w_lower w1 = (w_lower ?w)(c \<mapsto> ?l\<lparr>lw_user_data := Some p, lw_data_ready := PsockDataReady,
        lw_write_space := PsockWriteSpace, lw_state_change := PsockStateChange,
        lw_refs := lw_refs l + 1\<rparr>)"
    "w_rk w1 = (w_rk ?w)\<lparr>r_psock_list := p # r_psock_list (w_rk ?w)\<rparr>"
    by (rule attach_success [OF assms(1) at(3,1,2), of p]) (rule that; simp)
  have "rakaia_attach_ioctl cb (Some p) (Some (Some c)) w = Inr (0, w1)"
    using a(1) by (simp add: rakaia_attach_ioctl_def)
  moreover have "\<exists>w2. release_psock p w1 = Inr w2 \<and> w_rk w2 = w_rk w \<and> w_psocks w2 = w_psocks w \<and>
      w_lower w2 = (w_lower w)(c \<mapsto> l\<lparr>lw_refs := lw_refs l + 1, lw_file_refs := lw_file_refs l + 1\<rparr>)"
    using a(2-8) w assms(4,5)
    by (auto simp: release_psock_def access_defs Let_def free_psock_def fun_upd_idem)
  ultimately show ?thesis by blast
qed

theorem attach_release_roundtrip_witness:
  "\<exists>w1 w2. rakaia_attach_ioctl quiet_callbacks (Some 5) (Some (Some 0))
       (world_of booted (tcp_lower None 1)) = Inr (0, w1) \<and>
     release_psock 5 w1 = Inr w2 \<and> map_option lw_refs (w_lower w2 0) = Some 2 \<and>
     map_option lw_data_ready (w_lower w2 0) = Some (KernelCb 1)"
  using attach_release_roundtrip [of quiet_callbacks "world_of booted (tcp_lower None 1)"
      0 "tcp_lower None 1" 5] by auto

lemma refused_attach:
  assumes "w_lower w c = Some l" "\<not> attachable l \<or> lw_user_data l \<noteq> None"
  obtains w' where "rakaia_attach_ioctl cb (Some p) (Some (Some c)) w =
      Inr (if attachable l then - EALREADY else - EOPNOTSUPP, w')"
    "w_rk w' = (w_rk w)\<lparr>r_psock_list := p # r_psock_list (w_rk w)\<rparr>"
    "w_psocks w' p = (if attachable l then None else Some zero_psock)"
proof -
  let ?l = "l\<lparr>lw_file_refs := lw_file_refs l + 1\<rparr>" and ?w = "file_ref 1 (Some c) w"
  have w: "w_lower ?w c = Some ?l" "w_rk ?w = w_rk w" "attachable ?l = attachable l"
    using assms(1) by (simp_all add: file_ref_def attachable_def)
  obtain w1 where w1: "rakaia_attach cb (Some p) (Some c) ?w =
      Inr (if attachable l then - EALREADY else - EOPNOTSUPP, w1)"
    "w_psocks w1 p = (if attachable l then None else Some zero_psock)"
    "w_rk w1 = (w_rk w)\<lparr>r_psock_list := p # r_psock_list (w_rk w)\<rparr>"
    using w assms(2) by (auto simp: rakaia_attach_def access_defs free_psock_def Let_def)
  show ?thesis
    by (rule that [of "file_ref (- 1) (Some c) w1"])
      (use w1 in \<open>auto simp: rakaia_attach_ioctl_def file_ref_def\<close>)
qed

text \<open>
  C39. A refused attach leaves its psock on the global list, freed when the TCP socket already
  had user data and without a socket when it is not a connected TCP socket. When the last
  rakaia socket is released after that, the clean-up follows the dangling entry, or locks a
  null socket.
\<close>

theorem refused_attach_breaks_release:
  assumes "w_lower w c = Some l" "\<not> attachable l \<or> lw_user_data l \<noteq> None"
    and "rakaia_attach_ioctl cb (Some p) (Some (Some c)) w = Inr (err, w')"
    and "r_heap (w_rk w) a = Some k" "k_index k = 0" "r_cnt (w_rk w) = 1" "length (r_socks (w_rk w)) = 20"
  shows "err = (if attachable l then - EALREADY else - EOPNOTSUPP) \<and>
    rakaia_release (Some a) w' = Inl (if attachable l then UseAfterFree else NullDeref)"
proof -
  obtain w1 where w1: "rakaia_attach_ioctl cb (Some p) (Some (Some c)) w =
      Inr (if attachable l then - EALREADY else - EOPNOTSUPP, w1)"
    "w_rk w1 = (w_rk w)\<lparr>r_psock_list := p # r_psock_list (w_rk w)\<rparr>"
    "w_psocks w1 p = (if attachable l then None else Some zero_psock)"
    by (rule refused_attach [OF assms(1,2), of cb p])
  with assms(4-7) have "rakaia_release (Some a) w1 = Inl (if attachable l then UseAfterFree else NullDeref)"
    by (simp add: rakaia_release_def deref_def Let_def NUM_RAKAIA_SOCKETS_def release_psock_def access_defs
        zero_psock_def)
  with w1(1) assms(3) show ?thesis by auto
qed

definition one_socket :: rakaia where
  "one_socket =
     (case create_all 212992 [0] rakaia_data_init of Inl _ \<Rightarrow> rakaia_data_init | Inr rk \<Rightarrow> rk)"

lemma one_socket_sel:
  "r_heap one_socket 0 = Some (new_rakaia_sock 0 212992)" "r_cnt one_socket = 1"
  "length (r_socks one_socket) = 20"
  by (simp_all add: one_socket_def rakaia_create_def rakaia_data_init_def NUM_RAKAIA_SOCKETS_def)

theorem refused_attach_breaks_release_witness:
  "\<exists>w1 w2. rakaia_attach_ioctl quiet_callbacks (Some 5) (Some (Some 0))
       (world_of one_socket (tcp_lower (Some 9) 1)) = Inr (- EALREADY, w1) \<and>
     rakaia_release (Some 0) w1 = Inl UseAfterFree \<and>
     rakaia_attach_ioctl quiet_callbacks (Some 5) (Some (Some 0))
       (world_of one_socket (tcp_lower None 10)) = Inr (- EOPNOTSUPP, w2) \<and>
     rakaia_release (Some 0) w2 = Inl NullDeref"
proof -
  obtain w1 where w1: "rakaia_attach_ioctl quiet_callbacks (Some 5) (Some (Some 0))
      (world_of one_socket (tcp_lower (Some 9) 1)) = Inr (- EALREADY, w1)"
    by (rule refused_attach [of "world_of one_socket (tcp_lower (Some 9) 1)" 0 "tcp_lower (Some 9) 1"
        quiet_callbacks 5]) simp_all
  obtain w2 where w2: "rakaia_attach_ioctl quiet_callbacks (Some 5) (Some (Some 0))
      (world_of one_socket (tcp_lower None 10)) = Inr (- EOPNOTSUPP, w2)"
    by (rule refused_attach [of "world_of one_socket (tcp_lower None 10)" 0 "tcp_lower None 10"
        quiet_callbacks 5]) simp_all
  show ?thesis
    using refused_attach_breaks_release [OF _ _ w1, of "tcp_lower (Some 9) 1" 0 "new_rakaia_sock 0 212992"]
      refused_attach_breaks_release [OF _ _ w2, of "tcp_lower None 10" 0 "new_rakaia_sock 0 212992"] w1 w2
    by (simp add: one_socket_sel new_rakaia_sock_def)
qed

section \<open>Releasing a rakaia socket\<close>

text \<open>
  C40. Releasing one rakaia socket while the others go on clears its slot but not its place on
  the waiting list: the next message whose first random choice is that slot dereferences a
  null pointer, and when the released socket was the only idle one, a message placed
  elsewhere follows the list to freed memory.
\<close>

theorem released_socket_faults:
  assumes "sched_inv (w_rk w)" "at_slot (w_rk w) i a k" "rakaia_release (Some a) w = Inr (r, w')"
  shows "(unat rnd1 mod 20 = i \<longrightarrow>
      rakaia_push_skb_single_queue rnd1 rnd2 sched_ok skb psock (w_rk w') = Inl NullDeref) \<and>
    (unat rnd1 mod 20 \<noteq> i \<and> unat rnd2 mod 20 \<noteq> i \<and> r_waiters (w_rk w) = [a] \<longrightarrow>
      rakaia_push_skb_single_queue rnd1 rnd2 sched_ok skb psock (w_rk w') = Inl UseAfterFree)"
proof -
  note e = release_effect [OF assms] and I = sched_invD [OF assms(1)]
  have len: "length (r_socks (w_rk w)) = 20" using I(1) by (simp add: socks_inv_def)
  have i: "i < 20" using assms(2) by (simp add: at_slot_def)
  have "rakaia_push_skb_single_queue rnd1 rnd2 sched_ok skb psock (w_rk w') = Inl NullDeref"
    if "unat rnd1 mod 20 = i"
    by (rule push_null_slot) (use e(1) len i that in simp_all)
  moreover have "rakaia_push_skb_single_queue rnd1 rnd2 sched_ok skb psock (w_rk w') = Inl UseAfterFree"
    if d: "unat rnd1 mod 20 \<noteq> i" "unat rnd2 mod 20 \<noteq> i" and ws: "r_waiters (w_rk w) = [a]"
  proof -
    have slot: "\<exists>b q. sock_slot (w_rk w') (int j) = Inr (b, q) \<and> b \<noteq> a \<and> r_heap (w_rk w) b = Some q \<and>
        k_rx_q q = [] \<and> \<not> bit (r_waiters_bm (w_rk w)) (nat (k_index q))" if j: "j < 20" "j \<noteq> i" for j
    proof -
      obtain b q where b: "at_slot (w_rk w) j b q" using socks_inv_slot [OF I(1) j(1)] by blast
      have "b \<noteq> a"
      proof
        assume "b = a"
        with b assms(2) j(2) show False by (simp add: at_slot_def)
      qed
      moreover have "sock_slot (w_rk w') (int j) = Inr (b, q)"
        using b e(1,2) len j \<open>b \<noteq> a\<close> by (simp add: sock_slot_def at_slot_def deref_def)
      moreover have "k_rx_q q = []"
        using I(4) ws queue_of_at [OF b] j(1) by (auto simp: work_inv_def)
      moreover have "b \<notin> set (r_waiters (w_rk w))" using ws \<open>b \<noteq> a\<close> by simp
      then have "\<not> bit (r_waiters_bm (w_rk w)) j"
        using I(3) b j(1) by (auto simp: waiters_inv_def at_slot_def)
      ultimately show ?thesis using b by (auto simp: at_slot_def)
    qed
    from slot [OF _ d(1)] slot [OF _ d(2)] obtain b q where
      b: "shorter_queue (w_rk w') rnd1 rnd2 = Inr (b, q)" "b \<noteq> a" "r_heap (w_rk w) b = Some q"
      "k_rx_q q = []" "\<not> bit (r_waiters_bm (w_rk w)) (nat (k_index q))"
      by (auto simp: shorter_queue_def NUM_RAKAIA_SOCKETS_def Let_def)
    have "r_heap (w_rk w') b = Some q" "r_heap (w_rk w') a = None" using e(2) b(2,3) by simp_all
    then show ?thesis
      using b e(3,4) ws
      by (simp add: rakaia_push_skb_single_queue_def rakaia_get_avail_sk_def deref_def Let_def)
  qed
  ultimately show ?thesis by blast
qed

definition one_idle :: rakaia where
  "one_idle = booted\<lparr>r_waiters := [0], r_waiters_bm := set_bit 0 0\<rparr>"

lemma one_idle_inv: "sched_inv one_idle"
proof -
  have q: "queue_of one_idle i = queue_of booted i" for i by (simp add: one_idle_def queue_of_def split: option.split)
  have "socks_inv one_idle"
    using sched_invD(1) [OF booted_inv] socks_inv_frame [of one_idle booted] by (simp add: one_idle_def)
  moreover have "bm_inv one_idle"
    using sched_invD(2) [OF booted_inv] by (simp add: bm_inv_def q) (simp add: one_idle_def)
  moreover have "waiters_inv one_idle"
    using booted_slot unfolding waiters_inv_def by (auto simp: one_idle_def bit_1_iff intro!: exI [of _ 0])
  moreover have "work_inv one_idle"
    using sched_invD(4) [OF booted_inv] booted_waiters by (simp add: work_inv_def q)
  ultimately show ?thesis by (simp add: sched_inv_def)
qed

theorem released_socket_faults_witness:
  "\<exists>r w'. rakaia_release (Some 0) (world_of one_idle (tcp_lower None 1)) = Inr (r, w') \<and>
     rakaia_push_skb_single_queue 0 1 True sample_msg 0 (w_rk w') = Inl NullDeref \<and>
     rakaia_push_skb_single_queue 1 2 True sample_msg 0 (w_rk w') = Inl UseAfterFree"
proof -
  obtain k where k: "at_slot one_idle 0 0 k"
    using booted_at [of 0] by (auto simp: one_idle_def at_slot_def)
  have "\<exists>r w'. rakaia_release (Some 0) (world_of one_idle (tcp_lower None 1)) = Inr (r, w')"
    using k booted_boot sched_invD(1) [OF one_idle_inv]
    by (simp add: rakaia_release_def at_slot_def deref_def Let_def NUM_RAKAIA_SOCKETS_def boot_inv_def socks_inv_def
        one_idle_def)
  then obtain r w' where rel: "rakaia_release (Some 0) (world_of one_idle (tcp_lower None 1)) = Inr (r, w')" by blast
  have at: "at_slot (w_rk (world_of one_idle (tcp_lower None 1))) 0 0 k"
    "sched_inv (w_rk (world_of one_idle (tcp_lower None 1)))" using k one_idle_inv by simp_all
  show ?thesis
    using released_socket_faults [OF at(2,1) rel, of 0 1 True sample_msg 0]
      released_socket_faults [OF at(2,1) rel, of 1 2 True sample_msg 0] rel
    by (auto simp: one_idle_def)
qed

section \<open>Loading and unloading\<close>

text \<open>
  C26. Loading the module succeeds exactly when every registration does, and then holds all
  six resources. A load that fails, and unloading after a successful one, give back every
  resource but one: the work queue of the stream parser stays allocated.
\<close>

theorem init_exit_resources:
  "case rakaia_init I no_res of (err, m) \<Rightarrow>
     (err = 0 \<longleftrightarrow> in_strp_wq I \<and> in_psockp I \<and> in_wq I \<and> in_proto I = 0 \<and> in_pernet I = 0 \<and> in_family I = 0) \<and>
     (if err = 0
      then mr_psockp m \<and> mr_wq m \<and> mr_proto m \<and> mr_pernet m \<and> mr_family m \<and>
           rakaia_exit m = no_res\<lparr>mr_strp_wq := True\<rparr>
      else m = no_res\<lparr>mr_strp_wq := in_strp_wq I\<rparr>)"
  by (simp add: rakaia_init_def no_res_def init_fail_def init_net_ops_fail_def init_sock_register_fail_def
      rakaia_exit_def rakaia_proc_init_def Let_def)

end
