(* ===== verification/H2.thy ===== *)
theory H2
  imports Framing Tcp_Send
begin

text \<open>
  The HTTP/2 stream parser of the gRPC variant (\<open>rakaia/grpc/strparser.c\<close> and
  \<open>strparser.h\<close>): frames are cut by the engine of \<open>Strparser\<close>, with the nine-byte
  HTTP/2 header as message header. Complete frames are handled in the kernel: DATA,
  HEADERS, CONTINUATION and RST_STREAM frames are chained per stream in a hash table until
  the stream ends, PING and SETTINGS are acknowledged, WINDOW_UPDATE adjusts the send
  quota, and received data is credited back with WINDOW_UPDATE frames.
\<close>

section \<open>Frames\<close>

abbreviation (input) FRAME_TYPE_DATA :: u8 where "FRAME_TYPE_DATA \<equiv> 0x0"
abbreviation (input) FRAME_TYPE_HEADERS :: u8 where "FRAME_TYPE_HEADERS \<equiv> 0x1"
abbreviation (input) FRAME_TYPE_RST_STREAM :: u8 where "FRAME_TYPE_RST_STREAM \<equiv> 0x3"
abbreviation (input) FRAME_TYPE_SETTINGS :: u8 where "FRAME_TYPE_SETTINGS \<equiv> 0x4"
abbreviation (input) FRAME_TYPE_PING :: u8 where "FRAME_TYPE_PING \<equiv> 0x6"
abbreviation (input) FRAME_TYPE_WINDOW_UPDATE :: u8 where "FRAME_TYPE_WINDOW_UPDATE \<equiv> 0x8"
abbreviation (input) FRAME_TYPE_CONTINUATION :: u8 where "FRAME_TYPE_CONTINUATION \<equiv> 0x9"
abbreviation (input) FLAG_END_STREAM :: u8 where "FLAG_END_STREAM \<equiv> 0x1"
abbreviation (input) FLAG_ACK :: u8 where "FLAG_ACK \<equiv> 0x1"

text \<open>\<open>struct strp_msg\<close> of this variant adds three fields to the control block.\<close>

record h2_skb = sk_buff +
  h2_stream_id :: u32
  h2_type :: u8
  h2_flag :: u8

definition be24 :: "u8 \<Rightarrow> u8 \<Rightarrow> u8 \<Rightarrow> int" where
  "be24 a b c = int (unat a) * 65536 + int (unat b) * 256 + int (unat c)"

definition parse_msg_http2 :: "h2_skb \<Rightarrow> h2_skb \<times> int" where
  "parse_msg_http2 skb =
     (case skb_header_pointer skb (sb_offset skb) 9 of
        None \<Rightarrow> (skb, - EFAULT)
      | Some hdr \<Rightarrow>
          (skb\<lparr>sb_full_len := be24 (hdr ! 0) (hdr ! 1) (hdr ! 2) + 9, h2_type := hdr ! 3,
               h2_flag := hdr ! 4,
               h2_stream_id := be32 (hdr ! 5) (hdr ! 6) (hdr ! 7) (hdr ! 8) AND 0x7FFFFFFF\<rparr>, 0))"

text \<open>The call in \<open>__strp_recv\<close>: a missing header gives length 0.\<close>

definition h2_call_parse :: "h2_skb \<Rightarrow> h2_skb \<times> int" where
  "h2_call_parse skb =
     (case parse_msg_http2 skb of (skb1, err) \<Rightarrow> (skb1, if err = 0 then sb_full_len skb1 else 0))"

definition h2_clear :: "h2_skb \<Rightarrow> h2_skb" where
  "h2_clear skb =
     skb\<lparr>sb_full_len := 0, sb_offset := 0, sb_accum_len := 0, h2_stream_id := 0, h2_type := 0,
         h2_flag := 0\<rparr>"

definition h2_len :: "bytes \<Rightarrow> int" where
  "h2_len s = (if length s < 9 then 0 else be24 (s ! 0) (s ! 1) (s ! 2) + 9)"

section \<open>State of a connection\<close>

text \<open>
  \<open>hs_chain\<close> is the chain of buffers linked by \<open>strp_next\<close>, head first. The hash table has
  sixteen buckets; the hash function is the kernel's and therefore a parameter.
\<close>

record h2_stream_buffer =
  hs_stream_id :: u32
  hs_chain :: "h2_skb list"
  hs_complete :: bool

type_synonym stream_storage = "nat \<Rightarrow> h2_stream_buffer list"

record h2_conn =
  hc_streams :: stream_storage
  hc_rcvd :: "h2_skb list list"
  hc_unacked :: int
  hc_recv_conn_window :: int
  hc_send_quota :: int
  hc_flow_stalled :: bool
  hc_tx_wait_queue :: "tx_skb list"
  hc_wmem_queued :: int
  hc_mem_charged :: int
  hc_tx_work :: bool

text \<open>
  What the kernel answers while one frame is handled: the hash function, whether a stream
  entry and a control buffer (with which true size and tail room) can be allocated, whether
  \<open>skb_header_pointer\<close> finds the payload in linear memory, in which case it does not fill
  the caller's buffer, and the bytes that buffer held before.
\<close>

record h2_kernel =
  hk_hash :: "u32 \<Rightarrow> nat"
  hk_alloc_stream :: bool
  hk_alloc_ctrl :: "int option"
  hk_tailroom :: int
  hk_linear :: bool
  hk_stack :: bytes

section \<open>The table of streams\<close>

definition stream_lookup :: "(u32 \<Rightarrow> nat) \<Rightarrow> u32 \<Rightarrow> stream_storage \<Rightarrow> h2_stream_buffer option" where
  "stream_lookup hash sid st = find (\<lambda>s. hs_stream_id s = sid) (st (hash sid))"

text \<open>\<open>hash_add\<close> links the new entry at the front of its bucket.\<close>

definition create_stream_head ::
  "(u32 \<Rightarrow> nat) \<Rightarrow> bool \<Rightarrow> u32 \<Rightarrow> h2_skb \<Rightarrow> stream_storage \<Rightarrow> int \<times> stream_storage" where
  "create_stream_head hash alloc_ok sid skb st =
     (if \<not> alloc_ok then (- ENOMEM, st)
      else (0, st(hash sid := \<lparr>hs_stream_id = sid, hs_chain = [skb], hs_complete = False\<rparr> # st (hash sid))))"

text \<open>Appending at the end of the chain; the head's accounting grows with it.\<close>

fun add_skbs_to_head :: "h2_skb list \<Rightarrow> h2_skb \<Rightarrow> h2_skb list" where
  "add_skbs_to_head [] skb = []"
| "add_skbs_to_head (head # rest) skb =
     head\<lparr>sb_len := sb_len head + sb_len skb, sb_data_len := sb_data_len head + sb_len skb,
          sb_truesize := sb_truesize head + sb_truesize skb\<rparr> # rest @ [skb]"

fun upd_first :: "('b \<Rightarrow> bool) \<Rightarrow> ('b \<Rightarrow> 'b) \<Rightarrow> 'b list \<Rightarrow> 'b list" where
  "upd_first P f [] = []"
| "upd_first P f (x # xs) = (if P x then f x # xs else x # upd_first P f xs)"

fun remove_first :: "('b \<Rightarrow> bool) \<Rightarrow> 'b list \<Rightarrow> 'b list" where
  "remove_first P [] = []"
| "remove_first P (x # xs) = (if P x then xs else x # remove_first P xs)"

definition upd_stream ::
  "(u32 \<Rightarrow> nat) \<Rightarrow> u32 \<Rightarrow> (h2_stream_buffer \<Rightarrow> h2_stream_buffer) \<Rightarrow> stream_storage \<Rightarrow> stream_storage" where
  "upd_stream hash sid f st =
     st(hash sid := upd_first (\<lambda>s. hs_stream_id s = sid) f (st (hash sid)))"

definition delete_stream :: "(u32 \<Rightarrow> nat) \<Rightarrow> u32 \<Rightarrow> stream_storage \<Rightarrow> int \<times> stream_storage" where
  "delete_stream hash sid st =
     (case stream_lookup hash sid st of
        None \<Rightarrow> (- ENOENT, st)
      | Some _ \<Rightarrow>
          (0, st(hash sid := remove_first (\<lambda>s. hs_stream_id s = sid) (st (hash sid)))))"

definition flush_stream :: "(u32 \<Rightarrow> nat) \<Rightarrow> u32 \<Rightarrow> h2_conn \<Rightarrow> int \<times> h2_conn" where
  "flush_stream hash sid c =
     (case stream_lookup hash sid (hc_streams c) of
        None \<Rightarrow> (- ENOENT, c)
      | Some s \<Rightarrow>
          (let st1 = upd_stream hash sid (\<lambda>s. s\<lparr>hs_complete := True\<rparr>) (hc_streams c);
               c1 = c\<lparr>hc_streams := st1, hc_rcvd := hc_rcvd c @ [hs_chain s]\<rparr>
           in case delete_stream hash sid (hc_streams c1) of
                (r, st2) \<Rightarrow> (r, c1\<lparr>hc_streams := st2\<rparr>)))"

definition add_skb_to_stream ::
  "(u32 \<Rightarrow> nat) \<Rightarrow> bool \<Rightarrow> u32 \<Rightarrow> h2_skb \<Rightarrow> stream_storage \<Rightarrow> int \<times> stream_storage" where
  "add_skb_to_stream hash alloc_ok sid skb st =
     (case stream_lookup hash sid st of
        Some _ \<Rightarrow> (0, upd_stream hash sid (\<lambda>s. s\<lparr>hs_chain := add_skbs_to_head (hs_chain s) skb\<rparr>) st)
      | None \<Rightarrow> create_stream_head hash alloc_ok sid skb st)"

text \<open>The walk that empties the table when the parser is torn down.\<close>

definition strp_cleanup_streams :: "stream_storage \<Rightarrow> stream_storage" where
  "strp_cleanup_streams st = (\<lambda>b. if b < 16 then [] else st b)"

section \<open>Control frames\<close>

definition ctrl_skb :: "int \<Rightarrow> bytes \<Rightarrow> tx_skb" where
  "ctrl_skb truesize d =
     \<lparr>tx_data = d, tx_truesize = truesize, tx_seq = word_of_nat (length d), tx_end_seq = 0,
      tx_tcp_flags = TCPHDR_ACK, tx_frags = [], tx_reserved = True, tx_tx_flags = 0,
      tx_txstamp_ack = False, tx_tskey = 0\<rparr>"

text \<open>
  The common end of the three senders: without a buffer, or with too little tail room,
  nothing is sent; otherwise the frame is charged, queued, and the work item scheduled.
\<close>

definition queue_ctrl :: "h2_kernel \<Rightarrow> bytes \<Rightarrow> h2_conn \<Rightarrow> h2_conn" where
  "queue_ctrl K d c =
     (case hk_alloc_ctrl K of
        None \<Rightarrow> c
      | Some ts \<Rightarrow>
          if hk_tailroom K < int (length d) then c
          else c\<lparr>hc_wmem_queued := hc_wmem_queued c + ts, hc_mem_charged := hc_mem_charged c + ts,
                 hc_tx_wait_queue := hc_tx_wait_queue c @ [ctrl_skb ts d], hc_tx_work := True\<rparr>)"

text \<open>
  The payload is copied from the local buffer, which \<open>skb_header_pointer\<close> fills only when
  the payload is not linear. Without a payload the frame is freed and then freed again.
\<close>

definition send_pingack :: "h2_kernel \<Rightarrow> h2_skb \<Rightarrow> h2_conn \<Rightarrow> fault + h2_conn" where
  "send_pingack K skb c =
     (let p = skb_header_pointer skb (sb_offset skb + 9) 8;
          buf = (case p of
                   None \<Rightarrow> hk_stack K
                 | Some payload \<Rightarrow> if hk_linear K then hk_stack K else payload);
          d = [0, 0, 8, 0x06, 0x01, 0, 0, 0, 0] @ take 8 buf
      in if p = None \<and> hk_alloc_ctrl K \<noteq> None \<and> 17 \<le> hk_tailroom K then Inl UseAfterFree
         else Inr (queue_ctrl K d c))"

definition inc_bytes :: "int \<Rightarrow> bytes" where
  "inc_bytes inc =
     (let w = word_of_int inc :: u32
      in [ucast (drop_bit 24 w) AND 0x7F, ucast (drop_bit 16 w), ucast (drop_bit 8 w), ucast w])"

definition send_window_update :: "h2_kernel \<Rightarrow> int \<Rightarrow> h2_conn \<Rightarrow> h2_conn" where
  "send_window_update K inc c = queue_ctrl K ([0, 0, 4, 0x08, 0x00, 0, 0, 0, 0] @ inc_bytes inc) c"

definition send_settings_ack :: "h2_kernel \<Rightarrow> h2_conn \<Rightarrow> h2_conn" where
  "send_settings_ack K c = queue_ctrl K [0, 0, 0, FRAME_TYPE_SETTINGS, FLAG_ACK, 0, 0, 0, 0] c"

text \<open>The quota is an \<open>int\<close>; the kernel is built so that signed overflow wraps.\<close>

definition process_incoming_window_update :: "h2_skb \<Rightarrow> h2_conn \<Rightarrow> h2_conn" where
  "process_incoming_window_update skb c =
     (if h2_stream_id skb \<noteq> 0 then c
      else
        (case skb_header_pointer skb (sb_offset skb + 9) 4 of
           None \<Rightarrow> c
         | Some p \<Rightarrow>
             (let inc = be32 (p ! 0) (p ! 1) (p ! 2) (p ! 3) AND 0x7fffffff in
              if inc = 0 then c
              else
                (let c1 = c\<lparr>hc_send_quota := sint (word_of_int (hc_send_quota c) + inc :: u32)\<rparr>
                 in if hc_flow_stalled c1 \<and> hc_send_quota c1 > 0
                    then c1\<lparr>hc_flow_stalled := False, hc_tx_work := True\<rparr> else c1))))"

section \<open>Handling a complete frame\<close>

definition carries_stream :: "u8 \<Rightarrow> bool" where
  "carries_stream ty \<longleftrightarrow>
     ty = FRAME_TYPE_RST_STREAM \<or> ty = FRAME_TYPE_DATA \<or> ty = FRAME_TYPE_HEADERS \<or>
     ty = FRAME_TYPE_CONTINUATION"

text \<open>The flow control case falls through to the stream case, for RST_STREAM as well.\<close>

definition h2_flow_control :: "h2_kernel \<Rightarrow> h2_skb \<Rightarrow> h2_conn \<Rightarrow> h2_conn" where
  "h2_flow_control K skb c =
     (if h2_type skb = FRAME_TYPE_RST_STREAM \<or> h2_type skb = FRAME_TYPE_DATA
      then (let c1 = c\<lparr>hc_unacked := hc_unacked c + (sb_full_len skb - 9)\<rparr>
            in if hc_unacked c1 \<ge> hc_recv_conn_window c1 div 4
               then (send_window_update K (hc_unacked c1) c1)\<lparr>hc_unacked := 0\<rparr> else c1)
      else c)"

definition ends_stream :: "h2_skb \<Rightarrow> bool" where
  "ends_stream skb \<longleftrightarrow>
     h2_flag skb AND FLAG_END_STREAM \<noteq> 0 \<or> h2_type skb = FRAME_TYPE_RST_STREAM"

definition h2_stream_frame :: "h2_kernel \<Rightarrow> h2_skb \<Rightarrow> h2_conn \<Rightarrow> int \<times> h2_conn" where
  "h2_stream_frame K skb c =
     (case add_skb_to_stream (hk_hash K) (hk_alloc_stream K) (h2_stream_id skb) skb (hc_streams c) of
        (res, st) \<Rightarrow>
          (let c1 = c\<lparr>hc_streams := st\<rparr> in
           if res \<noteq> 0 then (res, c1)
           else if ends_stream skb then flush_stream (hk_hash K) (h2_stream_id skb) c1
           else (0, c1)))"

definition handle_h2_frame :: "h2_kernel \<Rightarrow> h2_skb \<Rightarrow> h2_conn \<Rightarrow> fault + int \<times> h2_conn" where
  "handle_h2_frame K skb c =
     (if carries_stream (h2_type skb) then Inr (h2_stream_frame K skb (h2_flow_control K skb c))
      else if h2_type skb = FRAME_TYPE_PING then map_sum id (\<lambda>c1. (0, c1)) (send_pingack K skb c)
      else if h2_type skb = FRAME_TYPE_WINDOW_UPDATE then Inr (0, process_incoming_window_update skb c)
      else if h2_type skb = FRAME_TYPE_SETTINGS
        then Inr (0, if h2_stream_id skb = 0 \<and> h2_flag skb AND FLAG_ACK = 0
                     then send_settings_ack K c else c)
      else Inr (0, c))"

end
