(* ===== verification/H2_Streams.thy ===== *)
theory H2_Streams
  imports H2
begin

text \<open>
  Correctness of the per-stream reassembly. The locale \<open>stream_table\<close> states what the
  frame handler needs of the table: appending to one stream and deleting one stream act
  on that stream only. The demultiplexing theorem is proved in the locale and interpreted
  on the hash table of \<open>H2\<close>.
\<close>

section \<open>One stream\<close>

text \<open>
  The specification: the frames of one stream are collected until one of them ends the
  stream; \<open>acc\<close> is what has been collected so far.
\<close>

fun assemble :: "'y list \<Rightarrow> ('y \<times> bool) list \<Rightarrow> 'y list list \<times> 'y list" where
  "assemble acc [] = ([], acc)"
| "assemble acc ((y, fin) # fs) =
     (if fin then (case assemble [] fs of (out, acc') \<Rightarrow> ((acc @ [y]) # out, acc'))
      else assemble (acc @ [y]) fs)"

section \<open>The interface\<close>

locale stream_table =
  fixes inv :: "'s \<Rightarrow> bool" and contents :: "'s \<Rightarrow> 'k \<Rightarrow> 'y list"
    and put :: "'k \<Rightarrow> 'x \<Rightarrow> 's \<Rightarrow> 's" and del :: "'k \<Rightarrow> 's \<Rightarrow> 's" and val :: "'x \<Rightarrow> 'y"
  assumes put_inv: "inv s \<Longrightarrow> inv (put k x s)" and del_inv: "inv s \<Longrightarrow> inv (del k s)"
    and put_contents:
      "inv s \<Longrightarrow> contents (put k x s) k' = (if k' = k then contents s k @ [val x] else contents s k')"
    and del_contents: "inv s \<Longrightarrow> contents (del k s) k' = (if k' = k then [] else contents s k')"
begin

definition demux_step :: "'k \<times> 'x \<times> bool \<Rightarrow> 's \<times> ('k \<times> 'y list) list \<Rightarrow> 's \<times> ('k \<times> 'y list) list" where
  "demux_step f st =
     (case (f, st) of ((k, x, fin), (s, out)) \<Rightarrow>
        if fin then (del k (put k x s), out @ [(k, contents (put k x s) k)]) else (put k x s, out))"

definition demux :: "('k \<times> 'x \<times> bool) list \<Rightarrow> 's \<times> ('k \<times> 'y list) list \<Rightarrow> 's \<times> ('k \<times> 'y list) list" where
  "demux fs st = fold demux_step fs st"

definition of_stream :: "'k \<Rightarrow> ('k \<times> 'x \<times> bool) list \<Rightarrow> ('y \<times> bool) list" where
  "of_stream k fs = map (\<lambda>(_, x, fin). (val x, fin)) (filter (\<lambda>f. fst f = k) fs)"

lemma demux_step_inv: "inv s \<Longrightarrow> inv (fst (demux_step f (s, out)))"
  by (auto simp: demux_step_def put_inv del_inv split: prod.split)

text \<open>
  What comes out for a stream is the assembly of the frames of that stream, whatever the
  other streams do in between.
\<close>

theorem demux_stream:
  assumes "inv s" "demux fs (s, out) = (s', out')"
  shows "inv s' \<and> (\<exists>more. out' = out @ more \<and>
     (map snd (filter (\<lambda>o1. fst o1 = k) more), contents s' k) = assemble (contents s k) (of_stream k fs))"
  using assms
proof (induction fs arbitrary: s out)
  case Nil
  then show ?case by (simp add: demux_def of_stream_def)
next
  case (Cons f fs)
  obtain k1 x fin where f: "f = (k1, x, fin)" by (cases f) auto
  obtain s1 o1 where d1: "demux_step f (s, out) = (s1, o1)" by (cases "demux_step f (s, out)")
  have inv1: "inv s1" using demux_step_inv [OF Cons.prems(1), of f out] d1 by simp
  have "demux fs (s1, o1) = (s', out')" using Cons.prems(2) d1 by (simp add: demux_def)
  from Cons.IH [OF inv1 this] obtain more where
    IH: "inv s'" "out' = o1 @ more"
    "(map snd (filter (\<lambda>o1. fst o1 = k) more), contents s' k) = assemble (contents s1 k) (of_stream k fs)"
    by blast
  have put: "contents (put k1 x s) k' = (if k' = k1 then contents s k1 @ [val x] else contents s k')" for k'
    by (rule put_contents [OF Cons.prems(1)])
  have del: "contents (del k1 (put k1 x s)) k' = (if k' = k1 then [] else contents (put k1 x s) k')" for k'
    by (rule del_contents [OF put_inv [OF Cons.prems(1)]])
  show ?case
  proof (cases "k1 = k")
    case other: False
    then have "contents s1 k = contents s k" and "of_stream k (f # fs) = of_stream k fs"
      and "\<exists>p. o1 = out @ p \<and> filter (\<lambda>o1. fst o1 = k) p = []"
      using d1 f put [of k] del [of k] by (auto simp: demux_step_def of_stream_def split: if_splits)
    with IH show ?thesis by auto
  next
    case True
    have of: "of_stream k (f # fs) = (val x, fin) # of_stream k fs" using True f by (simp add: of_stream_def)
    show ?thesis
    proof (cases fin)
      case True
      then have "s1 = del k (put k x s)" "o1 = out @ [(k, contents s k @ [val x])]"
        using d1 f \<open>k1 = k\<close> put [of k] by (auto simp: demux_step_def)
      moreover have "contents s1 k = []" using calculation(1) del [of k] \<open>k1 = k\<close> by simp
      moreover have "assemble (contents s k) (of_stream k (f # fs)) =
          (case assemble [] (of_stream k fs) of (out, acc') \<Rightarrow> ((contents s k @ [val x]) # out, acc'))"
        using True of by simp
      ultimately show ?thesis
        using IH by (intro conjI exI [of _ "(k, contents s k @ [val x]) # more"])
          (auto split: prod.splits simp: prod_eq_iff)
    next
      case False
      then have "s1 = put k x s" "o1 = out" using d1 f \<open>k1 = k\<close> by (auto simp: demux_step_def)
      moreover have "contents s1 k = contents s k @ [val x]"
        using calculation(1) put [of k] \<open>k1 = k\<close> by simp
      ultimately show ?thesis using IH False of by auto
    qed
  qed
qed

end

section \<open>The hash table\<close>

definition bucket_inv :: "(u32 \<Rightarrow> nat) \<Rightarrow> nat \<Rightarrow> h2_stream_buffer list \<Rightarrow> bool" where
  "bucket_inv hash b ss \<longleftrightarrow>
     distinct (map hs_stream_id ss) \<and>
     (\<forall>s \<in> set ss. hash (hs_stream_id s) = b \<and> hs_chain s \<noteq> [] \<and>
        h2_stream_id (hd (hs_chain s)) = hs_stream_id s)"

definition streams_inv :: "(u32 \<Rightarrow> nat) \<Rightarrow> stream_storage \<Rightarrow> bool" where
  "streams_inv hash st \<longleftrightarrow> (\<forall>b. bucket_inv hash b (st b))"

definition stream_contents :: "(u32 \<Rightarrow> nat) \<Rightarrow> stream_storage \<Rightarrow> u32 \<Rightarrow> bytes list" where
  "stream_contents hash st sid =
     (case stream_lookup hash sid st of None \<Rightarrow> [] | Some s \<Rightarrow> map msg_bytes (hs_chain s))"

text \<open>Only frames that carry the stream's own number are put into a stream.\<close>

definition put_frame :: "(u32 \<Rightarrow> nat) \<Rightarrow> u32 \<Rightarrow> h2_skb \<Rightarrow> stream_storage \<Rightarrow> stream_storage" where
  "put_frame hash sid skb st = snd (add_skb_to_stream hash True sid (skb\<lparr>h2_stream_id := sid\<rparr>) st)"

definition del_frames :: "(u32 \<Rightarrow> nat) \<Rightarrow> u32 \<Rightarrow> stream_storage \<Rightarrow> stream_storage" where
  "del_frames hash sid st = snd (delete_stream hash sid st)"

lemma find_upd_first:
  assumes "\<And>x. P x \<Longrightarrow> P (f x)"
  shows "find P (upd_first P f xs) = map_option f (find P xs)"
  using assms by (induction xs) auto

lemma find_upd_first_other:
  assumes "\<And>x. P x \<Longrightarrow> \<not> Q x" "\<And>x. P x \<Longrightarrow> \<not> Q (f x)"
  shows "find Q (upd_first P f xs) = find Q xs"
  using assms by (induction xs) auto

lemma find_remove_first_other:
  assumes "\<And>x. P x \<Longrightarrow> \<not> Q x"
  shows "find Q (remove_first P xs) = find Q xs"
  using assms by (induction xs) auto

lemma find_remove_first:
  "distinct (map g xs) \<Longrightarrow> find (\<lambda>x. g x = k) (remove_first (\<lambda>x. g x = k) xs) = None"
  by (induction xs) (auto simp: find_None_iff image_iff)

lemma set_remove_first: "set (remove_first P xs) \<subseteq> set xs"
  by (induction xs) auto

lemma distinct_remove_first: "distinct (map g xs) \<Longrightarrow> distinct (map g (remove_first P xs))"
  by (induction xs) (use set_remove_first [of P] in fastforce)+

lemma map_upd_first: "(\<And>x. P x \<Longrightarrow> g (f x) = g x) \<Longrightarrow> map g (upd_first P f xs) = map g xs"
  by (induction xs) auto

lemma set_upd_first: "y \<in> set (upd_first P f xs) \<Longrightarrow> y \<in> set xs \<or> (\<exists>x \<in> set xs. P x \<and> y = f x)"
  by (induction xs) (auto split: if_splits)

lemma bucket_upd:
  assumes "bucket_inv hash b ss" "\<And>s. hs_stream_id (f s) = hs_stream_id s"
    "\<And>s. hs_chain s \<noteq> [] \<Longrightarrow> hs_chain (f s) \<noteq> [] \<and> h2_stream_id (hd (hs_chain (f s))) = h2_stream_id (hd (hs_chain s))"
  shows "bucket_inv hash b (upd_first P f ss)"
  unfolding bucket_inv_def
proof (intro conjI ballI)
  show "distinct (map hs_stream_id (upd_first P f ss))"
    using assms(1,2) map_upd_first [of P hs_stream_id f ss] by (simp add: bucket_inv_def)
next
  fix s assume "s \<in> set (upd_first P f ss)"
  then obtain x where "x \<in> set ss" "s = x \<or> s = f x" using set_upd_first by metis
  with assms show "hash (hs_stream_id s) = b" "hs_chain s \<noteq> []"
    "h2_stream_id (hd (hs_chain s)) = hs_stream_id s"
    by (auto simp: bucket_inv_def)
qed

lemma chain_add:
  "hs_chain s \<noteq> [] \<Longrightarrow> map msg_bytes (add_skbs_to_head (hs_chain s) skb) = map msg_bytes (hs_chain s) @ [msg_bytes skb]"
  by (cases "hs_chain s") (simp_all add: msg_bytes_def skb_view_def)

lemma lookup_some_id: "stream_lookup hash sid st = Some s \<Longrightarrow> hs_stream_id s = sid"
  by (auto simp: stream_lookup_def find_Some_iff)

lemma lookup_inv:
  assumes "streams_inv hash st" "stream_lookup hash sid st = Some s"
  shows "hs_chain s \<noteq> []" "h2_stream_id (hd (hs_chain s)) = sid"
proof -
  have "s \<in> set (st (hash sid))" using assms(2) by (auto simp: stream_lookup_def find_Some_iff)
  with assms lookup_some_id [OF assms(2)] show "hs_chain s \<noteq> []" "h2_stream_id (hd (hs_chain s)) = sid"
    by (auto simp: streams_inv_def bucket_inv_def)
qed

lemma lookup_upd:
  assumes "\<And>s. hs_stream_id (f s) = hs_stream_id s"
  shows "stream_lookup hash k (upd_stream hash sid f st) =
     (if k = sid then map_option f (stream_lookup hash sid st) else stream_lookup hash k st)"
  using assms
  by (simp add: stream_lookup_def upd_stream_def find_upd_first find_upd_first_other)

lemma lookup_delete:
  assumes "streams_inv hash st"
  shows "stream_lookup hash k (snd (delete_stream hash sid st)) =
     (if k = sid then None else stream_lookup hash k st)"
proof (cases "stream_lookup hash sid st")
  case None
  then show ?thesis by (simp add: delete_stream_def)
next
  case (Some s)
  have "distinct (map hs_stream_id (st (hash sid)))" using assms by (simp add: streams_inv_def bucket_inv_def)
  with Some show ?thesis
    by (auto simp: delete_stream_def stream_lookup_def find_remove_first find_remove_first_other)
qed

lemma delete_inv:
  assumes "streams_inv hash st"
  shows "streams_inv hash (snd (delete_stream hash sid st))"
  using assms distinct_remove_first [of hs_stream_id] set_remove_first
  by (fastforce simp: streams_inv_def bucket_inv_def delete_stream_def split: option.split)

lemma upd_stream_inv:
  assumes "streams_inv hash st" "\<And>s. hs_stream_id (f s) = hs_stream_id s"
    "\<And>s. hs_chain s \<noteq> [] \<Longrightarrow> hs_chain (f s) \<noteq> [] \<and> h2_stream_id (hd (hs_chain (f s))) = h2_stream_id (hd (hs_chain s))"
  shows "streams_inv hash (upd_stream hash sid f st)"
  using assms bucket_upd [of hash _ _ f] by (simp add: streams_inv_def upd_stream_def)

lemma create_inv:
  assumes "streams_inv hash st" "stream_lookup hash sid st = None" "h2_stream_id skb = sid"
  shows "streams_inv hash (snd (create_stream_head hash True sid skb st))"
proof -
  have "sid \<notin> hs_stream_id ` set (st (hash sid))"
    using assms(2) by (auto simp: stream_lookup_def find_None_iff)
  then have "bucket_inv hash (hash sid)
      (\<lparr>hs_stream_id = sid, hs_chain = [skb], hs_complete = False\<rparr> # st (hash sid))"
    using assms(1,3) by (simp add: streams_inv_def bucket_inv_def)
  with assms(1) show ?thesis by (simp add: streams_inv_def create_stream_head_def)
qed

lemma lookup_create:
  "stream_lookup hash k (snd (create_stream_head hash True sid skb st)) =
     (if k = sid then Some \<lparr>hs_stream_id = sid, hs_chain = [skb], hs_complete = False\<rparr>
      else stream_lookup hash k st)"
  by (auto simp: stream_lookup_def create_stream_head_def)

lemma chain_head_id:
  "hs_chain s \<noteq> [] \<Longrightarrow> add_skbs_to_head (hs_chain s) skb \<noteq> [] \<and>
     h2_stream_id (hd (add_skbs_to_head (hs_chain s) skb)) = h2_stream_id (hd (hs_chain s))"
  by (cases "hs_chain s") simp_all

lemma put_frame_inv:
  assumes "streams_inv hash st"
  shows "streams_inv hash (put_frame hash sid skb st)"
proof (cases "stream_lookup hash sid st")
  case None
  with create_inv [OF assms None] show ?thesis by (simp add: put_frame_def add_skb_to_stream_def)
next
  case (Some s)
  have "streams_inv hash (upd_stream hash sid
      (\<lambda>s. s\<lparr>hs_chain := add_skbs_to_head (hs_chain s) (skb\<lparr>h2_stream_id := sid\<rparr>)\<rparr>) st)"
    by (rule upd_stream_inv [OF assms]) (simp_all add: chain_head_id)
  with Some show ?thesis by (simp add: put_frame_def add_skb_to_stream_def)
qed

lemma put_frame_contents:
  assumes "streams_inv hash st"
  shows "stream_contents hash (put_frame hash sid skb st) k =
     (if k = sid then stream_contents hash st sid @ [msg_bytes skb] else stream_contents hash st k)"
proof -
  have same: "msg_bytes (skb\<lparr>h2_stream_id := sid\<rparr>) = msg_bytes skb" by (simp add: msg_bytes_def skb_view_def)
  show ?thesis
  proof (cases "stream_lookup hash sid st")
    case None
    then show ?thesis
      by (auto simp: stream_contents_def put_frame_def add_skb_to_stream_def lookup_create same)
  next
    case (Some s)
    have "map msg_bytes (add_skbs_to_head (hs_chain s) (skb\<lparr>h2_stream_id := sid\<rparr>)) =
        map msg_bytes (hs_chain s) @ [msg_bytes skb]"
      using chain_add [OF lookup_inv(1) [OF assms Some]] by (simp add: same)
    with Some show ?thesis
      by (auto simp: stream_contents_def put_frame_def add_skb_to_stream_def lookup_upd)
  qed
qed

interpretation h2t: stream_table "streams_inv hash" "stream_contents hash" "put_frame hash"
  "del_frames hash" msg_bytes for hash
proof unfold_locales
  fix st :: stream_storage and k k' skb
  assume inv: "streams_inv hash st"
  show "streams_inv hash (put_frame hash k skb st)" by (rule put_frame_inv [OF inv])
  show "streams_inv hash (del_frames hash k st)" unfolding del_frames_def by (rule delete_inv [OF inv])
  show "stream_contents hash (put_frame hash k skb st) k' =
      (if k' = k then stream_contents hash st k @ [msg_bytes skb] else stream_contents hash st k')"
    by (rule put_frame_contents [OF inv])
  show "stream_contents hash (del_frames hash k st) k' = (if k' = k then [] else stream_contents hash st k')"
    by (simp add: stream_contents_def del_frames_def lookup_delete [OF inv])
qed

section \<open>Sequences of frames\<close>

fun h2_frames :: "h2_kernel \<Rightarrow> h2_skb list \<Rightarrow> h2_conn \<Rightarrow> fault + h2_conn" where
  "h2_frames K [] c = Inr c"
| "h2_frames K (f # fs) c =
     (case handle_h2_frame K f c of Inl e \<Rightarrow> Inl e | Inr (_, c1) \<Rightarrow> h2_frames K fs c1)"

definition stream_frames :: "h2_skb list \<Rightarrow> (u32 \<times> h2_skb \<times> bool) list" where
  "stream_frames fs =
     map (\<lambda>f. (h2_stream_id f, f, ends_stream f)) (filter (\<lambda>f. carries_stream (h2_type f)) fs)"

text \<open>The delivered messages with the stream they belong to and their frames' bytes.\<close>

definition rcvd_view :: "h2_skb list list \<Rightarrow> (u32 \<times> bytes list) list" where
  "rcvd_view out = map (\<lambda>ch. (h2_stream_id (hd ch), map msg_bytes ch)) out"

lemma queue_ctrl_frame [simp]:
  "hc_streams (queue_ctrl K d c) = hc_streams c" "hc_rcvd (queue_ctrl K d c) = hc_rcvd c"
  "hc_unacked (queue_ctrl K d c) = hc_unacked c"
  "hc_recv_conn_window (queue_ctrl K d c) = hc_recv_conn_window c"
  by (simp_all add: queue_ctrl_def split: option.split)

lemma flow_control_frame [simp]:
  "hc_streams (h2_flow_control K f c) = hc_streams c" "hc_rcvd (h2_flow_control K f c) = hc_rcvd c"
  "hc_recv_conn_window (h2_flow_control K f c) = hc_recv_conn_window c"
  by (simp_all add: h2_flow_control_def send_window_update_def Let_def)

lemma flush_stream_put:
  assumes inv: "streams_inv hash st"
  shows "flush_stream hash sid (c\<lparr>hc_streams := put_frame hash sid skb st\<rparr>) =
     (0, c\<lparr>hc_streams := snd (delete_stream hash sid (upd_stream hash sid (\<lambda>s. s\<lparr>hs_complete := True\<rparr>) (put_frame hash sid skb st))),
           hc_rcvd := hc_rcvd c @ [hs_chain (the (stream_lookup hash sid (put_frame hash sid skb st)))]\<rparr>)"
proof -
  obtain s where s: "stream_lookup hash sid (put_frame hash sid skb st) = Some s"
    by (cases "stream_lookup hash sid st")
      (simp_all add: put_frame_def add_skb_to_stream_def lookup_create lookup_upd)
  then have "stream_lookup hash sid (upd_stream hash sid (\<lambda>s. s\<lparr>hs_complete := True\<rparr>) (put_frame hash sid skb st)) \<noteq> None"
    by (simp add: lookup_upd)
  with s show ?thesis by (auto simp: flush_stream_def delete_stream_def Let_def)
qed

lemma upd_first_id: "find P xs = None \<Longrightarrow> upd_first P f xs = xs"
  by (induction xs) (auto split: if_splits)

lemma remove_upd_first: "(\<And>x. P x \<Longrightarrow> P (f x)) \<Longrightarrow> remove_first P (upd_first P f xs) = remove_first P xs"
  by (induction xs) auto

lemma delete_upd_stream:
  assumes "\<And>s. hs_stream_id (f s) = hs_stream_id s"
  shows "snd (delete_stream hash sid (upd_stream hash sid f st)) = snd (delete_stream hash sid st)"
proof (cases "stream_lookup hash sid st")
  case None
  then have "upd_first (\<lambda>s. hs_stream_id s = sid) f (st (hash sid)) = st (hash sid)"
    unfolding stream_lookup_def by (rule upd_first_id)
  with None show ?thesis by (simp add: delete_stream_def lookup_upd assms upd_stream_def)
next
  case (Some s)
  then show ?thesis
    using remove_upd_first [of "\<lambda>s. hs_stream_id s = sid" f] assms
    by (simp add: delete_stream_def lookup_upd) (simp add: upd_stream_def)
qed

lemma stream_frame_demux:
  fixes f :: h2_skb
  assumes inv: "streams_inv (hk_hash K) (hc_streams c)" and ok: "hk_alloc_stream K"
    and run: "h2_stream_frame K f c = (r, c')"
  shows "h2t.demux_step (hk_hash K) (h2_stream_id f, f, ends_stream f) (hc_streams c, rcvd_view (hc_rcvd c)) =
     (hc_streams c', rcvd_view (hc_rcvd c'))"
proof -
  let ?h = "hk_hash K" and ?sid = "h2_stream_id f"
  let ?st = "put_frame ?h ?sid f (hc_streams c)"
  have "add_skb_to_stream ?h True ?sid f (hc_streams c) = (0, ?st)"
    by (cases "stream_lookup ?h ?sid (hc_streams c)")
      (simp_all add: put_frame_def add_skb_to_stream_def create_stream_head_def)
  then have body: "(r, c') = (if ends_stream f then flush_stream ?h ?sid (c\<lparr>hc_streams := ?st\<rparr>)
      else (0, c\<lparr>hc_streams := ?st\<rparr>))"
    using run ok by (simp add: h2_stream_frame_def Let_def)
  show ?thesis
  proof (cases "ends_stream f")
    case False
    with body show ?thesis by (simp add: h2t.demux_step_def)
  next
    case True
    let ?s = "the (stream_lookup ?h ?sid ?st)"
    obtain s where s: "stream_lookup ?h ?sid ?st = Some s"
      by (cases "stream_lookup ?h ?sid (hc_streams c)")
        (simp_all add: put_frame_def add_skb_to_stream_def lookup_create lookup_upd)
    note li = lookup_inv [OF put_frame_inv [OF inv] s]
    have "c' = c\<lparr>hc_streams := del_frames ?h ?sid ?st, hc_rcvd := hc_rcvd c @ [hs_chain s]\<rparr>"
      using body True flush_stream_put [OF inv, where sid = ?sid and skb = f and c = c] s
      by (simp add: del_frames_def delete_upd_stream)
    moreover have "stream_contents ?h ?st ?sid = map msg_bytes (hs_chain s)"
      using s by (simp add: stream_contents_def)
    ultimately show ?thesis using True li by (simp add: h2t.demux_step_def rcvd_view_def)
  qed
qed

lemma h2_frames_demux:
  assumes "streams_inv (hk_hash K) (hc_streams c)" "hk_alloc_stream K" "h2_frames K fs c = Inr c'"
  shows "h2t.demux (hk_hash K) (stream_frames fs) (hc_streams c, rcvd_view (hc_rcvd c)) =
     (hc_streams c', rcvd_view (hc_rcvd c'))"
  using assms
proof (induction fs arbitrary: c)
  case Nil
  then show ?case by (simp add: h2t.demux_def stream_frames_def)
next
  case (Cons f fs)
  obtain r c1 where c1: "handle_h2_frame K f c = Inr (r, c1)" and rest: "h2_frames K fs c1 = Inr c'"
    using Cons.prems(3) by (auto split: sum.splits)
  show ?case
  proof (cases "carries_stream (h2_type f)")
    case True
    let ?c = "h2_flow_control K f c"
    have run: "h2_stream_frame K f ?c = (r, c1)" using c1 True by (simp add: handle_h2_frame_def)
    have d: "h2t.demux_step (hk_hash K) (h2_stream_id f, f, ends_stream f)
        (hc_streams c, rcvd_view (hc_rcvd c)) = (hc_streams c1, rcvd_view (hc_rcvd c1))"
      using stream_frame_demux [OF _ Cons.prems(2) run] Cons.prems(1) by simp
    have "streams_inv (hk_hash K) (hc_streams c1)"
      using h2t.demux_step_inv [OF Cons.prems(1)] d by (metis fst_conv)
    from Cons.IH [OF this Cons.prems(2) rest] d True show ?thesis
      by (simp add: h2t.demux_def stream_frames_def)
  next
    case False
    then have "hc_streams c1 = hc_streams c" "hc_rcvd c1 = hc_rcvd c"
      using c1
      by (auto simp: handle_h2_frame_def send_pingack_def send_settings_ack_def Let_def
          process_incoming_window_update_def split: if_splits option.splits)
    with Cons.IH [of c1] Cons.prems rest False show ?thesis by (simp add: stream_frames_def)
  qed
qed

end
