(* ===== verification/H2_Control.thy ===== *)
theory H2_Control
  imports H2_Streams
begin

text \<open>
  The control frames of the gRPC variant: what the kernel sends parses back as the frame
  it is meant to be, the bytes received are credited back exactly once, and the HTTP/2
  parser as a client of the stream parser engine.
\<close>

section \<open>Window increments\<close>

lemma unat_byte_of: "unat (ucast (drop_bit k (w :: u32)) :: u8) = unat w div 2 ^ k mod 256"
  using unsigned_less [of w, where 'a = nat]
  unfolding unsigned_ucast_eq unsigned_drop_bit_eq by (simp add: take_bit_eq_mod drop_bit_eq_div)

lemma unat_and_7F: "unat ((x :: u8) AND 0x7F) = unat x mod 128"
proof -
  have "(0x7F :: u8) = mask 7" by (simp add: mask_eq_exp_minus_1)
  then have "x AND 0x7F = take_bit 7 x" by (simp add: take_bit_eq_mask)
  then have "unat (x AND 0x7F) = take_bit 7 (unat x)" by (simp only: unsigned_take_bit_eq)
  then show ?thesis by (simp add: take_bit_eq_mod)
qed

lemma base256_digits:
  fixes n :: nat
  shows "n div 16777216 * 16777216 + n div 65536 mod 256 * 65536 + n div 256 mod 256 * 256 + n mod 256 = n"
proof -
  define a where "a = n div 256"
  define b where "b = a div 256"
  have e: "n div 65536 = b" "n div 16777216 = b div 256" "n div 256 = a"
    by (simp_all add: a_def b_def div_mult2_eq [symmetric])
  have "a * 256 + n mod 256 = n" "b * 256 + a mod 256 = a"
    by (simp_all add: a_def b_def)
  moreover have "b div 256 * 256 + b mod 256 = b" by (rule div_mult_mod_eq)
  ultimately show ?thesis unfolding e by linarith
qed

lemma inc_bytes_value:
  assumes "0 \<le> inc" "inc < 2 ^ 31"
  shows "inc_bytes inc = [p0, p1, p2, p3] \<Longrightarrow> int (unat (be32 p0 p1 p2 p3)) = inc"
proof -
  assume p: "inc_bytes inc = [p0, p1, p2, p3]"
  define w where "w = (word_of_int inc :: u32)"
  define n where "n = unat w"
  have "uint w = inc" using assms by (simp add: w_def uint_word_of_int)
  then have "int n = inc" by (simp add: n_def)
  moreover from this have "n < 2 ^ 31" using assms(2) by simp
  ultimately have n: "int n = inc" "n < 2 ^ 31" .
  have "unat p0 = n div 2 ^ 24 mod 256 mod 128" "unat p1 = n div 2 ^ 16 mod 256"
    "unat p2 = n div 2 ^ 8 mod 256" "unat p3 = n mod 256"
    using p unat_byte_of [of 24 w] unat_byte_of [of 16 w] unat_byte_of [of 8 w] unat_byte_of [of 0 w]
    by (auto simp: inc_bytes_def Let_def w_def [symmetric] n_def unat_and_7F)
  moreover have "n div 2 ^ 24 mod 256 mod 128 = n div 2 ^ 24" using n(2) by simp
  ultimately have "unat (be32 p0 p1 p2 p3) = n"
    using base256_digits [of n] by (simp add: unat_be32)
  with n(1) show ?thesis by simp
qed

section \<open>What the control frames parse as\<close>

text \<open>A buffer that holds just these bytes.\<close>

definition skb_of :: "bytes \<Rightarrow> h2_skb" where
  "skb_of d =
     \<lparr>sb_bytes = d, sb_len = int (length d), sb_data_len = 0, sb_truesize = 0, sb_frag_list = False,
      sb_next = False, sb_cb0 = CbRaw, sb_full_len = 0, sb_offset = 0, sb_accum_len = 0,
      h2_stream_id = 0, h2_type = 0, h2_flag = 0\<rparr>"

definition window_update_frame :: "int \<Rightarrow> bytes" where
  "window_update_frame inc = [0, 0, 4, 0x08, 0x00, 0, 0, 0, 0] @ inc_bytes inc"

lemma send_window_update_frame: "send_window_update K inc c = queue_ctrl K (window_update_frame inc) c"
  by (simp add: send_window_update_def window_update_frame_def)

lemma inc_bytes_four: obtains p0 p1 p2 p3 where "inc_bytes inc = [p0, p1, p2, p3]"
  by (simp add: inc_bytes_def Let_def)

lemma parse_window_update:
  "fst (parse_msg_http2 (skb_of (window_update_frame inc))) =
     (skb_of (window_update_frame inc))\<lparr>sb_full_len := 13, h2_type := FRAME_TYPE_WINDOW_UPDATE\<rparr>"
  "snd (parse_msg_http2 (skb_of (window_update_frame inc))) = 0"
proof -
  obtain p0 p1 p2 p3 where p: "inc_bytes inc = [p0, p1, p2, p3]" by (rule inc_bytes_four)
  show "fst (parse_msg_http2 (skb_of (window_update_frame inc))) =
     (skb_of (window_update_frame inc))\<lparr>sb_full_len := 13, h2_type := FRAME_TYPE_WINDOW_UPDATE\<rparr>"
    "snd (parse_msg_http2 (skb_of (window_update_frame inc))) = 0"
    by (simp_all add: parse_msg_http2_def skb_of_def window_update_frame_def p skb_header_pointer_def
        be24_def be32_def)
qed

section \<open>Credit\<close>

definition wu_inc :: "tx_skb \<Rightarrow> int" where
  "wu_inc skb =
     (let d = tx_data skb
      in if length d = 13 \<and> d ! 3 = FRAME_TYPE_WINDOW_UPDATE
         then int (unat (be32 (d ! 9) (d ! 10) (d ! 11) (d ! 12))) else 0)"

definition credit :: "h2_conn \<Rightarrow> int" where
  "credit c = sum_list (map wu_inc (hc_tx_wait_queue c))"

definition data_bytes :: "h2_skb \<Rightarrow> int" where
  "data_bytes f =
     (if h2_type f = FRAME_TYPE_RST_STREAM \<or> h2_type f = FRAME_TYPE_DATA then sb_full_len f - 9 else 0)"

definition ctrl_alloc_ok :: "h2_kernel \<Rightarrow> bool" where
  "ctrl_alloc_ok K \<longleftrightarrow> hk_alloc_ctrl K \<noteq> None \<and> 17 \<le> hk_tailroom K"

lemma wu_inc_frame:
  assumes "0 \<le> inc" "inc < 2 ^ 31"
  shows "wu_inc (ctrl_skb ts (window_update_frame inc)) = inc"
proof -
  obtain p0 p1 p2 p3 where p: "inc_bytes inc = [p0, p1, p2, p3]" by (rule inc_bytes_four)
  with inc_bytes_value [OF assms p] show ?thesis
    by (simp add: wu_inc_def ctrl_skb_def window_update_frame_def Let_def)
qed

lemma window_update_length [simp]: "length (window_update_frame inc) = 13"
  by (simp add: window_update_frame_def inc_bytes_def Let_def)

lemma credit_queue_ctrl:
  assumes "ctrl_alloc_ok K" "length d \<le> 17"
  obtains ts where "credit (queue_ctrl K d c) = credit c + wu_inc (ctrl_skb ts d)"
  using assms by (auto simp: ctrl_alloc_ok_def queue_ctrl_def credit_def)

lemma flow_control_credit:
  assumes ok: "ctrl_alloc_ok K" and un: "0 \<le> hc_unacked c" "hc_unacked c + data_bytes f < 2 ^ 31"
    and d: "0 \<le> data_bytes f"
  shows "credit (h2_flow_control K f c) + hc_unacked (h2_flow_control K f c) =
           credit c + hc_unacked c + data_bytes f"
    and "0 \<le> hc_unacked (h2_flow_control K f c)"
proof -
  let ?n = "hc_unacked c + data_bytes f"
  let ?c1 = "c\<lparr>hc_unacked := ?n\<rparr>"
  have cr: "credit ?c1 = credit c" by (simp add: credit_def)
  obtain ts where ts: "credit (queue_ctrl K (window_update_frame ?n) ?c1) =
      credit ?c1 + wu_inc (ctrl_skb ts (window_update_frame ?n))"
    using credit_queue_ctrl [OF ok, of "window_update_frame ?n" ?c1] by auto
  then have "credit (send_window_update K ?n ?c1) = credit c + ?n"
    using un d cr wu_inc_frame [of ?n ts] by (simp add: send_window_update_frame)
  moreover have "credit (c'\<lparr>hc_unacked := x\<rparr>) = credit c'" for c' x by (simp add: credit_def)
  ultimately show "credit (h2_flow_control K f c) + hc_unacked (h2_flow_control K f c) =
           credit c + hc_unacked c + data_bytes f"
    and "0 \<le> hc_unacked (h2_flow_control K f c)"
    using un d cr by (auto simp: h2_flow_control_def data_bytes_def Let_def)
qed

definition window_inv :: "h2_conn \<Rightarrow> bool" where
  "window_inv c \<longleftrightarrow>
     0 \<le> hc_unacked c \<and> (hc_unacked c = 0 \<or> hc_unacked c < hc_recv_conn_window c div 4) \<and>
     hc_recv_conn_window c \<le> INT_MAX"

definition h2_frame_ok :: "h2_skb \<Rightarrow> bool" where
  "h2_frame_ok f \<longleftrightarrow> 9 \<le> sb_full_len f \<and> sb_full_len f < 2 ^ 24 + 9"

lemma flow_control_window:
  assumes "window_inv c" "h2_frame_ok f"
  shows "window_inv (h2_flow_control K f c)"
  using assms
  by (auto simp: window_inv_def h2_flow_control_def h2_frame_ok_def send_window_update_def Let_def)

lemma stream_frame_keeps:
  "hc_unacked (snd (h2_stream_frame K f c)) = hc_unacked c"
  "hc_recv_conn_window (snd (h2_stream_frame K f c)) = hc_recv_conn_window c"
  "credit (snd (h2_stream_frame K f c)) = credit c"
  by (simp_all add: h2_stream_frame_def flush_stream_def credit_def Let_def
      split: prod.split option.split)

lemma credit_other_ctrl:
  assumes "length d \<noteq> 13"
  shows "credit (queue_ctrl K d c) = credit c"
  using assms by (simp add: queue_ctrl_def credit_def wu_inc_def ctrl_skb_def split: option.split)

lemma handle_credit:
  assumes inv: "window_inv c" and ok: "ctrl_alloc_ok K" and f: "h2_frame_ok f"
    and stack: "length (hk_stack K) = 8" and run: "handle_h2_frame K f c = Inr (r, c')"
  shows "credit c' + hc_unacked c' = credit c + hc_unacked c + data_bytes f" "window_inv c'"
proof -
  have d: "0 \<le> data_bytes f" "data_bytes f < 2 ^ 24" using f by (auto simp: data_bytes_def h2_frame_ok_def)
  have un: "0 \<le> hc_unacked c" "hc_unacked c + data_bytes f < 2 ^ 31"
    using inv d by (auto simp: window_inv_def)
  have "credit c' + hc_unacked c' = credit c + hc_unacked c + data_bytes f \<and> window_inv c'"
  proof (cases "carries_stream (h2_type f)")
    case True
    let ?c = "h2_flow_control K f c"
    have c': "c' = snd (h2_stream_frame K f ?c)" using run True by (simp add: handle_h2_frame_def)
    note keeps = stream_frame_keeps [of K f ?c, folded c']
    have "window_inv c'" using flow_control_window [OF inv f, of K] keeps by (simp add: window_inv_def)
    with flow_control_credit(1) [OF ok un d(1)] keeps show ?thesis by simp
  next
    case False
    then have zero: "data_bytes f = 0" by (auto simp: data_bytes_def carries_stream_def)
    have ping: "credit c1 = credit c" "hc_unacked c1 = hc_unacked c"
      "hc_recv_conn_window c1 = hc_recv_conn_window c" if "send_pingack K f c = Inr c1" for c1
      using that stack credit_other_ctrl
      by (auto simp: send_pingack_def Let_def skb_header_pointer_def split: option.splits if_splits)
    have settings: "credit (send_settings_ack K c) = credit c"
      by (simp add: send_settings_ack_def credit_other_ctrl)
    have other: "credit (process_incoming_window_update f c) = credit c"
      "hc_unacked (send_settings_ack K c) = hc_unacked c"
      "hc_unacked (process_incoming_window_update f c) = hc_unacked c"
      "hc_recv_conn_window (send_settings_ack K c) = hc_recv_conn_window c"
      "hc_recv_conn_window (process_incoming_window_update f c) = hc_recv_conn_window c"
      by (simp_all add: send_settings_ack_def process_incoming_window_update_def
          credit_def Let_def split: option.split)
    from run False have "credit c' = credit c \<and> hc_unacked c' = hc_unacked c \<and>
        hc_recv_conn_window c' = hc_recv_conn_window c"
      using ping settings other by (cases "send_pingack K f c") (auto simp: handle_h2_frame_def split: if_splits)
    with zero inv show ?thesis by (simp add: window_inv_def)
  qed
  then show "credit c' + hc_unacked c' = credit c + hc_unacked c + data_bytes f" "window_inv c'" by simp_all
qed

lemma h2_frames_credit:
  assumes "window_inv c" "ctrl_alloc_ok K" "length (hk_stack K) = 8"
    "\<forall>f \<in> set fs. h2_frame_ok f" "h2_frames K fs c = Inr c'"
  shows "credit c' + hc_unacked c' = credit c + hc_unacked c + sum_list (map data_bytes fs) \<and> window_inv c'"
  using assms
proof (induction fs arbitrary: c)
  case Nil
  then show ?case by simp
next
  case (Cons f fs)
  obtain r c1 where c1: "handle_h2_frame K f c = Inr (r, c1)" and rest: "h2_frames K fs c1 = Inr c'"
    using Cons.prems(5) by (auto split: sum.splits)
  have "h2_frame_ok f" using Cons.prems(4) by simp
  note h = handle_credit [OF Cons.prems(1,2) this Cons.prems(3) c1]
  from Cons.IH [OF h(2) Cons.prems(2,3) _ rest] Cons.prems(4) h(1) show ?case by simp
qed

section \<open>The frame parser as a client of the stream parser\<close>

text \<open>
  The upper state is the connection, or the fault that ended it, with the number of frames
  handled so far, which selects the kernel's answers.
\<close>

definition grpc_deliver ::
  "(nat \<Rightarrow> h2_kernel) \<Rightarrow> h2_skb \<Rightarrow> nat \<times> (fault + h2_conn) \<Rightarrow> (nat \<times> (fault + h2_conn)) \<times> bool" where
  "grpc_deliver Ks skb u =
     (case u of (n, s) \<Rightarrow>
        ((Suc n, case s of Inl e \<Rightarrow> Inl e | Inr c \<Rightarrow> map_sum id snd (handle_h2_frame (Ks n) skb c)), False))"

definition grpc_hooks ::
  "(nat \<Rightarrow> h2_kernel) \<Rightarrow> (unit h2_skb_ext, nat \<times> (fault + h2_conn)) strp_hooks" where
  "grpc_hooks Ks =
     \<lparr>h_parse = h2_call_parse, h_clear = h2_clear, h_deliver = grpc_deliver Ks,
      h_abort = strp_abort_strp, h_done = default_read_sock_done\<rparr>"

definition grpc_strp_recv ::
  "(nat \<Rightarrow> h2_kernel) \<Rightarrow> unit h2_skb_ext strp_kernel \<Rightarrow> int \<Rightarrow> int \<Rightarrow>
     (unit h2_skb_ext, nat \<times> (fault + h2_conn)) rx \<Rightarrow> h2_skb \<Rightarrow> nat \<Rightarrow> int \<Rightarrow>
     ((unit h2_skb_ext, nat \<times> (fault + h2_conn)) rx \<times> int) option" where
  "grpc_strp_recv Ks K max_msg_size timeo r orig off orig_len =
     strp_recv_desc (grpc_hooks Ks) K max_msg_size timeo r orig off orig_len"

text \<open>While the process owns the socket the work item is queued instead of reading.\<close>

definition grpc_strp_data_ready ::
  "(nat \<Rightarrow> h2_kernel) \<Rightarrow> bool \<Rightarrow> bool \<Rightarrow> (unit h2_skb_ext, nat \<times> (fault + h2_conn)) read_sock \<Rightarrow> int \<Rightarrow>
     (unit h2_skb_ext, nat \<times> (fault + h2_conn)) rx \<Rightarrow>
     (fault + (unit h2_skb_ext, nat \<times> (fault + h2_conn)) rx) option" where
  "grpc_strp_data_ready Ks owned sock_ok RS peek r =
     (if sp_stopped (rx_strp r) \<or> sp_paused (rx_strp r) then Some (Inr r)
      else if owned then Some (Inr (strp_queue_work r))
      else if strp_waits_for_bytes (rx_strp r) peek then Some (Inr r)
      else strp_read_or_requeue (grpc_hooks Ks) sock_ok RS r)"

definition grpc_strp_done ::
  "unit h2_skb_ext strparser \<Rightarrow> h2_conn \<Rightarrow> unit h2_skb_ext strparser \<times> h2_conn" where
  "grpc_strp_done s c =
     (s\<lparr>sp_timer := None, sp_work := False, sp_head := None\<rparr>,
      c\<lparr>hc_streams := strp_cleanup_streams (hc_streams c)\<rparr>)"

lemma be24_bounds: "0 \<le> be24 a b c" "be24 a b c < 2 ^ 24"
proof -
  have u: "0 \<le> uint x" "uint x < 256" for x :: u8
    using unsigned_less [of x, where 'a = int] by simp_all
  show "0 \<le> be24 a b c" "be24 a b c < 2 ^ 24"
    using u [of a] u [of b] u [of c] by (simp_all add: be24_def)
qed

lemma h2_len_bounds: "9 \<le> length s \<Longrightarrow> 9 \<le> h2_len s \<and> h2_len s < 2 ^ 24 + 9"
  using be24_bounds [of "s ! 0" "s ! 1" "s ! 2"] by (simp add: h2_len_def)

lemma h2_call_parse_view:
  assumes "0 \<le> sb_offset h"
  shows "snd (h2_call_parse h) = h2_len (skb_view h)"
  using assms
  by (auto simp: h2_call_parse_def parse_msg_http2_def skb_header_pointer_def h2_len_def skb_view_def)

interpretation h2f: msg_format h2_len 9
proof unfold_locales
  fix s t :: bytes
  assume "9 \<le> length s"
  then have "0 < length s" "1 < length s" "2 < length s" by linarith+
  then show "h2_len (s @ t) = h2_len s" using \<open>9 \<le> length s\<close> by (simp add: h2_len_def nth_append)
qed (simp_all add: h2_len_def)

interpretation grpc: strp_client h2_len 9 "grpc_hooks Ks" for Ks
proof unfold_locales
  fix h h' :: h2_skb and n
  assume "0 \<le> sb_offset h" and p: "h_parse (grpc_hooks Ks) h = (h', n)"
  then have "n = h2_len (skb_view h)" using h2_call_parse_view [of h] by (simp add: grpc_hooks_def)
  moreover have "9 \<le> n \<or> n = 0" using calculation h2_len_bounds by (auto simp: h2_len_def)
  ultimately show "n = h2_len (skb_view h) \<and> sb_bytes h' = sb_bytes h \<and> sb_len h' = sb_len h \<and>
      sb_offset h' = sb_offset h \<and> sb_accum_len h' = sb_accum_len h \<and> sb_next h' = sb_next h \<and>
      (n = 0 \<longrightarrow> sb_full_len h' = sb_full_len h)"
    using p be24_bounds(1)
    by (auto simp: grpc_hooks_def h2_call_parse_def parse_msg_http2_def add_nonneg_eq_0_iff split: option.splits)
qed (auto simp: grpc_hooks_def h2_clear_def grpc_deliver_def split: prod.split)

end
