(* ===== verification/Grpc_Recv.thy ===== *)
theory Grpc_Recv
  imports H2 Rakaia_State
begin

text \<open>
  Receiving in the gRPC variant (\<open>rakaia/grpc/rakaiasock.c\<close>): the module's copy of the
  kernel's \<open>__skb_datagram_iter\<close>, which copies a byte range out of a buffer that has a
  linear part, page fragments and a list of further buffers, and the loop that copies every
  frame of a chained message to the user.
\<close>

section \<open>Buffers and destinations\<close>

datatype skb_tree = Skb (st_lin: bytes) (st_frags: "bytes list") (st_frag_list: "skb_tree list")

fun tree_bytes :: "skb_tree \<Rightarrow> bytes" where
  "tree_bytes (Skb lin frags fl) = lin @ concat frags @ concat (map tree_bytes fl)"

text \<open>
  \<open>struct iov_iter\<close>: what has been written, how much room the caller gave, and how many more
  bytes can be written before the user memory faults.
\<close>

record iov_iter =
  io_out :: bytes
  io_room :: nat
  io_good :: nat

definition copy_to_iter :: "bytes \<Rightarrow> iov_iter \<Rightarrow> nat \<times> iov_iter" where
  "copy_to_iter bs it =
     (let n = min (length bs) (min (io_room it) (io_good it))
      in (n, it\<lparr>io_out := io_out it @ take n bs, io_room := io_room it - n, io_good := io_good it - n\<rparr>))"

definition simple_copy_to_iter :: "bytes \<Rightarrow> iov_iter \<Rightarrow> nat \<times> iov_iter" where
  "simple_copy_to_iter bs it = copy_to_iter bs it"

definition iov_iter_revert :: "nat \<Rightarrow> iov_iter \<Rightarrow> iov_iter" where
  "iov_iter_revert n it =
     it\<lparr>io_out := take (length (io_out it) - n) (io_out it), io_room := io_room it + n,
        io_good := io_good it + n\<rparr>"

section \<open>Copying a range\<close>

text \<open>
  The outcome of a phase of \<open>__skb_datagram_iter\<close>: everything asked for was copied, the
  destination took less than offered, or the next phase continues with \<open>start\<close>, \<open>offset\<close>
  and \<open>len\<close>.
\<close>

datatype iter_phase = AllCopied iov_iter | ShortCopy int iov_iter | GoOn int int int iov_iter

definition iter_piece :: "bytes \<Rightarrow> int \<Rightarrow> int \<Rightarrow> int \<Rightarrow> iov_iter \<Rightarrow> iter_phase" where
  "iter_piece piece start offset len it =
     (let end = start + int (length piece); avail = end - offset in
      if avail > 0 then
        (let copy = min avail len;
             (n, it1) = simple_copy_to_iter (take (nat copy) (drop (nat (offset - start)) piece)) it
         in if int n \<noteq> copy then ShortCopy (offset + int n) it1
            else if len - copy = 0 then AllCopied it1
            else GoOn end (offset + copy) (len - copy) it1)
      else GoOn end offset len it)"

fun iter_frags :: "bytes list \<Rightarrow> int \<Rightarrow> int \<Rightarrow> int \<Rightarrow> iov_iter \<Rightarrow> iter_phase" where
  "iter_frags [] start offset len it = GoOn start offset len it"
| "iter_frags (f # fs) start offset len it =
     (case iter_piece f start offset len it of
        AllCopied it1 \<Rightarrow> AllCopied it1
      | ShortCopy off1 it1 \<Rightarrow> ShortCopy off1 it1
      | GoOn start1 off1 len1 it1 \<Rightarrow> iter_frags fs start1 off1 len1 it1)"

definition short_copy :: "bool \<Rightarrow> int \<Rightarrow> int \<Rightarrow> iov_iter \<Rightarrow> int \<times> iov_iter" where
  "short_copy fault_short start_off offset it =
     (if fault_short \<or> io_room it \<noteq> 0 then (- EFAULT, iov_iter_revert (nat (offset - start_off)) it)
      else (0, it))"

fun skb_datagram_iter :: "bool \<Rightarrow> skb_tree \<Rightarrow> int \<Rightarrow> int \<Rightarrow> iov_iter \<Rightarrow> int \<times> iov_iter"
  and iter_frag_list ::
    "bool \<Rightarrow> skb_tree list \<Rightarrow> int \<Rightarrow> int \<Rightarrow> int \<Rightarrow> int \<Rightarrow> iov_iter \<Rightarrow> int \<times> iov_iter" where
  "skb_datagram_iter fault_short (Skb lin frags fl) offset len it =
     (case iter_frags (lin # frags) 0 offset len it of
        AllCopied it1 \<Rightarrow> (0, it1)
      | ShortCopy off1 it1 \<Rightarrow> short_copy fault_short offset off1 it1
      | GoOn start1 off1 len1 it1 \<Rightarrow> iter_frag_list fault_short fl offset start1 off1 len1 it1)"
| "iter_frag_list fault_short [] start_off start offset len it =
     (if len = 0 then (0, it) else (- EFAULT, iov_iter_revert (nat (offset - start_off)) it))"
| "iter_frag_list fault_short (t # ts) start_off start offset len it =
     (let end = start + int (length (tree_bytes t)); avail = end - offset in
      if avail > 0 then
        (let copy = min avail len in
         case skb_datagram_iter fault_short t (offset - start) copy it of
           (err, it1) \<Rightarrow>
             if err \<noteq> 0 then (- EFAULT, iov_iter_revert (nat (offset - start_off)) it1)
             else if len - copy = 0 then (0, it1)
             else iter_frag_list fault_short ts start_off end (offset + copy) (len - copy) it1)
      else iter_frag_list fault_short ts start_off end offset len it)"

section \<open>Copying a message\<close>

text \<open>One frame of a chain: its buffer and the offset and length in its control block.\<close>

record h2_part =
  hp_tree :: skb_tree
  hp_offset :: int
  hp_full_len :: int

definition part_bytes :: "h2_part \<Rightarrow> bytes" where
  "part_bytes p = take (nat (hp_full_len p)) (drop (nat (hp_offset p)) (tree_bytes (hp_tree p)))"

text \<open>The result of each copy overwrites that of the one before; \<open>res0\<close> is the initial value.\<close>

fun skb_copy_datagram_msg_http2 :: "int \<Rightarrow> h2_part list \<Rightarrow> iov_iter \<Rightarrow> int \<Rightarrow> int \<times> iov_iter \<times> int" where
  "skb_copy_datagram_msg_http2 res [] it len = (res, it, len)"
| "skb_copy_datagram_msg_http2 res (p # ps) it len =
     (case skb_datagram_iter False (hp_tree p) (hp_offset p) (hp_full_len p) it of
        (err, it1) \<Rightarrow> skb_copy_datagram_msg_http2 err ps it1 (len + hp_full_len p))"

text \<open>
  A queued message is its connection and its chain of frames, the first in the queue's own
  buffer. \<open>gs_nonblock\<close> is \<open>O_NONBLOCK\<close> of the open file and \<open>gs_freed\<close> the frames freed.
\<close>

record grpc_msg =
  gm_psock :: nat
  gm_head :: h2_part
  gm_chain :: "h2_part list"

record grpc_sock =
  gs_queue :: "grpc_msg list"
  gs_last_psock :: nat
  gs_nonblock :: bool
  gs_freed :: "h2_part list"

record grpc_recv =
  gr_ret :: int
  gr_iter :: iov_iter
  gr_flags :: u32

definition rakaia_free_strp_chain :: "h2_part list \<Rightarrow> grpc_sock \<Rightarrow> grpc_sock" where
  "rakaia_free_strp_chain chain s = s\<lparr>gs_freed := gs_freed s @ chain\<rparr>"

text \<open>
  The kernel's \<open>skb_recv_datagram\<close> on a queue with a message: it is unlinked, or with
  \<open>MSG_PEEK\<close> left on the queue with one more reference.
\<close>

definition grpc_recv_datagram :: "u32 \<Rightarrow> grpc_sock \<Rightarrow> grpc_sock" where
  "grpc_recv_datagram flags s = (if has_flag flags MSG_PEEK then s else s\<lparr>gs_queue := tl (gs_queue s)\<rparr>)"

definition clear_next :: "u32 \<Rightarrow> grpc_sock \<Rightarrow> grpc_sock" where
  "clear_next flags s =
     (if has_flag flags MSG_PEEK then s\<lparr>gs_queue := (hd (gs_queue s))\<lparr>gm_chain := []\<rparr> # tl (gs_queue s)\<rparr> else s)"

definition kfree_head :: "u32 \<Rightarrow> h2_part \<Rightarrow> grpc_sock \<Rightarrow> grpc_sock" where
  "kfree_head flags p s = (if has_flag flags MSG_PEEK then s else s\<lparr>gs_freed := gs_freed s @ [p]\<rparr>)"

text \<open>
  The receive call; \<open>wait_err\<close> is what the wait for a message ends with when none is queued,
  and \<open>len\<close> the size of the user's buffer.
\<close>

definition recv_flags :: "sock_type \<Rightarrow> nat \<Rightarrow> int \<Rightarrow> u32 \<Rightarrow> u32" where
  "recv_flags ty len copied flags =
     (if has_flag flags MSG_PEEK then 0
      else if min (int len) copied < copied then (if ty = SOCK_DGRAM then MSG_TRUNC OR MSG_EOR else 0)
      else MSG_EOR)"

definition grpc_recvmsg ::
  "sock_type \<Rightarrow> int \<Rightarrow> nat \<Rightarrow> u32 \<Rightarrow> iov_iter \<Rightarrow> grpc_sock \<Rightarrow> grpc_recv \<times> grpc_sock" where
  "grpc_recvmsg ty wait_err len flags0 it s0 =
     (let flags = flags0 AND NOT MSG_DONTWAIT; s = s0\<lparr>gs_nonblock := False\<rparr> in
      case gs_queue s of
        [] \<Rightarrow> (\<lparr>gr_ret = wait_err, gr_iter = it, gr_flags = 0\<rparr>, s)
      | m # _ \<Rightarrow>
          (let s1 = (grpc_recv_datagram flags s)\<lparr>gs_last_psock := gm_psock m\<rparr>;
               (err, it1, copied) = skb_copy_datagram_msg_http2 0 (gm_head m # gm_chain m) it 0;
               fl = (if err < 0 then 0 else recv_flags ty len copied flags);
               s2 = kfree_head flags (gm_head m)
                      (clear_next flags (rakaia_free_strp_chain (gm_chain m) s1))
           in (\<lparr>gr_ret = (if copied \<noteq> 0 then copied else err), gr_iter = it1, gr_flags = fl\<rparr>, s2)))"

section \<open>Correctness\<close>

definition wrote :: "bytes \<Rightarrow> iov_iter \<Rightarrow> iov_iter" where
  "wrote bs it =
     it\<lparr>io_out := io_out it @ bs, io_room := io_room it - length bs, io_good := io_good it - length bs\<rparr>"

lemma wrote_nil [simp]: "wrote [] it = it"
  by (simp add: wrote_def)

lemma wrote_wrote [simp]: "wrote b (wrote a it) = wrote (a @ b) it"
  by (simp add: wrote_def)

lemma wrote_room [simp]:
  "io_room (wrote bs it) = io_room it - length bs" "io_good (wrote bs it) = io_good it - length bs"
  by (simp_all add: wrote_def)

lemma copy_fits:
  "length bs \<le> io_room it \<Longrightarrow> length bs \<le> io_good it \<Longrightarrow> simple_copy_to_iter bs it = (length bs, wrote bs it)"
  by (simp add: simple_copy_to_iter_def copy_to_iter_def wrote_def Let_def)

text \<open>
  A piece at position \<open>start\<close>: either the wanted range ends in it, or the part of it that is
  wanted has been written and the range continues.
\<close>

lemma iter_piece_fits:
  fixes piece :: bytes
  assumes "start \<le> offset" "0 < len" "nat len \<le> io_room it" "nat len \<le> io_good it"
  defines "wanted \<equiv> take (nat len) (drop (nat (offset - start)) piece)"
  shows "iter_piece piece start offset len it =
     (if int (length wanted) = len then AllCopied (wrote wanted it)
      else GoOn (start + int (length piece)) (offset + int (length wanted)) (len - int (length wanted))
             (wrote wanted it))"
proof (cases "start + int (length piece) - offset > 0")
  case True
  let ?copy = "min (start + int (length piece) - offset) len"
  have "int (length (drop (nat (offset - start)) piece)) = start + int (length piece) - offset"
    using True assms(1) by simp
  then have w: "take (nat ?copy) (drop (nat (offset - start)) piece) = wanted" "int (length wanted) = ?copy"
    using assms(2) by (auto simp: wanted_def min_def)
  moreover have "simple_copy_to_iter wanted it = (length wanted, wrote wanted it)"
    using assms(3,4) by (intro copy_fits) (auto simp: wanted_def)
  ultimately show ?thesis using True by (simp add: iter_piece_def Let_def)
next
  case False
  then have "wanted = []" using assms(1) by (simp add: wanted_def)
  with False assms(2) show ?thesis by (simp add: iter_piece_def Let_def)
qed

lemma iter_frags_fits:
  assumes "start \<le> offset" "0 < len" "nat len \<le> io_room it" "nat len \<le> io_good it"
  shows "iter_frags ps start offset len it =
     (let wanted = take (nat len) (drop (nat (offset - start)) (concat ps)) in
      if int (length wanted) = len then AllCopied (wrote wanted it)
      else GoOn (start + int (length (concat ps))) (offset + int (length wanted))
             (len - int (length wanted)) (wrote wanted it))"
  using assms
proof (induction ps arbitrary: start offset len it)
  case Nil
  then show ?case by simp
next
  case (Cons p ps)
  define w where "w = take (nat len) (drop (nat (offset - start)) p)"
  let ?rest = "take (nat (len - int (length w)))
    (drop (nat (offset + int (length w) - (start + int (length p)))) (concat ps))"
  show ?case
  proof (cases "int (length w) = len")
    case True
    with Cons.prems show ?thesis by (auto simp: iter_piece_fits Let_def w_def)
  next
    case False
    then have *: "int (length w) = max 0 (int (length p) - (offset - start))" "int (length w) < len"
      using Cons.prems by (auto simp: w_def max_def min_def split: if_splits)
    then have le: "start + int (length p) \<le> offset + int (length w)" by linarith
    have w: "take (nat len) (drop (nat (offset - start)) (concat (p # ps))) = w @ ?rest"
    proof -
      have "nat (offset - start) - length p = nat (offset + int (length w) - (start + int (length p)))"
        using * Cons.prems(1) by (auto simp: max_def split: if_splits)
      moreover have "length w = length (drop (nat (offset - start)) p)"
        using *(2) by (auto simp: w_def)
      then have "nat len - length (drop (nat (offset - start)) p) = nat (len - int (length w))"
        using *(2) by linarith
      ultimately show ?thesis by (simp only: concat.simps drop_append take_append w_def)
    qed
    have "iter_frags (p # ps) start offset len it =
        iter_frags ps (start + int (length p)) (offset + int (length w)) (len - int (length w)) (wrote w it)"
      using False Cons.prems by (simp add: iter_piece_fits w_def del: length_take)
    moreover have "nat (len - int (length w)) \<le> io_room (wrote w it)"
        "nat (len - int (length w)) \<le> io_good (wrote w it)" "0 < len - int (length w)"
      using *(2) Cons.prems by simp_all
    note Cons.IH [OF le this(3,1,2)]
    ultimately have "iter_frags (p # ps) start offset len it = (if int (length ?rest) = len - int (length w) then AllCopied (wrote (w @ ?rest) it)
       else GoOn (start + int (length p) + int (length (concat ps)))
              (offset + int (length w) + int (length ?rest)) (len - int (length w) - int (length ?rest))
              (wrote (w @ ?rest) it))"
      by (simp only: Let_def wrote_wrote)
    then show ?thesis
      unfolding w Let_def by (auto simp del: length_take length_drop)
  qed
qed

lemma datagram_iter_fits_aux:
  "0 \<le> offset \<Longrightarrow> 0 < len \<Longrightarrow> offset + len \<le> int (length (tree_bytes t)) \<Longrightarrow>
   nat len \<le> io_room it \<Longrightarrow> nat len \<le> io_good it \<Longrightarrow>
   skb_datagram_iter fs t offset len it =
     (0, wrote (take (nat len) (drop (nat offset) (tree_bytes t))) it)"
  "start \<le> offset \<Longrightarrow> 0 < len \<Longrightarrow> offset + len \<le> start + int (length (concat (map tree_bytes ts))) \<Longrightarrow>
   nat len \<le> io_room it \<Longrightarrow> nat len \<le> io_good it \<Longrightarrow>
   iter_frag_list fs ts so start offset len it =
     (0, wrote (take (nat len) (drop (nat (offset - start)) (concat (map tree_bytes ts)))) it)"
proof (induction fs t offset len it and fs ts so start offset len it
    rule: skb_datagram_iter_iter_frag_list.induct)
  case (1 fs lin frags fl offset len it)
  define hd where "hd = lin @ concat frags"
  define w where "w = take (nat len) (drop (nat offset) hd)"
  let ?fl = "concat (map tree_bytes fl)"
  have tb: "tree_bytes (Skb lin frags fl) = hd @ ?fl" by (simp add: hd_def)
  have it: "iter_frags (lin # frags) 0 offset len it =
      (if int (length w) = len then AllCopied (wrote w it)
       else GoOn (int (length hd)) (offset + int (length w)) (len - int (length w)) (wrote w it))"
    using iter_frags_fits [OF "1.prems"(1,2,4,5), of "lin # frags"]
    by (simp only: w_def hd_def Let_def concat.simps diff_0_right add_0)
  show ?case
  proof (cases "int (length w) = len")
    case True
    then have "take (nat len) (drop (nat offset) (hd @ ?fl)) = w" by (auto simp: w_def)
    with True it tb show ?thesis by (simp del: iter_frags.simps tree_bytes.simps)
  next
    case False
    then have *: "int (length w) = max 0 (int (length hd) - offset)" "int (length w) < len"
      using "1.prems" by (auto simp: w_def max_def min_def split: if_splits)
    have eq: "nat (offset + int (length w) - int (length hd)) = nat offset - length hd"
        "nat (len - int (length w)) = nat len - length (drop (nat offset) hd)"
      using * "1.prems"(1,2) by (auto simp: w_def max_def split: if_splits)
    have "skb_datagram_iter fs (Skb lin frags fl) offset len it =
        iter_frag_list fs fl offset (int (length hd)) (offset + int (length w)) (len - int (length w)) (wrote w it)"
      using False it by (simp del: iter_frags.simps)
    also have "\<dots> = (0, wrote (take (nat (len - int (length w)))
        (drop (nat (offset + int (length w) - int (length hd))) ?fl)) (wrote w it))"
      using * "1.prems" tb False it
      by (intro "1.IH") (auto simp: max_def simp del: iter_frags.simps tree_bytes.simps split: if_splits)
    also have "wrote (take (nat (len - int (length w)))
        (drop (nat (offset + int (length w) - int (length hd))) ?fl)) (wrote w it) =
      wrote (take (nat len) (drop (nat offset) (hd @ ?fl))) it"
      by (simp only: eq(1,2)) (simp add: w_def)
    finally show ?thesis by (simp only: tb)
  qed
next
  case (2 fs so start offset len it)
  then show ?case by simp
next
  case (3 fs t ts so start offset len it)
  let ?b = "tree_bytes t" and ?bs = "concat (map tree_bytes ts)"
  show ?case
  proof (cases "start + int (length ?b) - offset > 0")
    case True
    let ?copy = "min (start + int (length ?b) - offset) len"
    have one: "skb_datagram_iter fs t (offset - start) ?copy it =
        (0, wrote (take (nat ?copy) (drop (nat (offset - start)) ?b)) it)"
      using "3.prems" True by (intro "3.IH"(1)) auto
    show ?thesis
    proof (cases "len \<le> start + int (length ?b) - offset")
      case True
      then have "?copy = len" by simp
      with one True "3.prems" \<open>start + int (length ?b) - offset > 0\<close> show ?thesis by (simp add: Let_def)
    next
      case False
      then have c: "?copy = start + int (length ?b) - offset" by simp
      have "iter_frag_list fs ts so (start + int (length ?b)) (offset + ?copy) (len - ?copy)
          (wrote (take (nat ?copy) (drop (nat (offset - start)) ?b)) it) =
          (0, wrote (take (nat (len - ?copy)) (drop (nat (offset + ?copy - (start + int (length ?b)))) ?bs))
            (wrote (take (nat ?copy) (drop (nat (offset - start)) ?b)) it))"
        using "3.prems" True False one by (intro "3.IH"(2)) auto
      moreover have "take (nat ?copy) (drop (nat (offset - start)) ?b) = drop (nat (offset - start)) ?b"
        "take (nat len) (drop (nat (offset - start)) ?b) = drop (nat (offset - start)) ?b"
        "nat (len - ?copy) = nat len - length (drop (nat (offset - start)) ?b)"
        "nat (offset - start) - length ?b = 0" "nat (offset + ?copy - (start + int (length ?b))) = 0"
        using "3.prems"(1,2) True False c by auto
      ultimately show ?thesis using one True False c
        by (simp del: length_drop add: Let_def)
    qed
  next
    case False
    then have "iter_frag_list fs ts so (start + int (length ?b)) offset len it =
        (0, wrote (take (nat len) (drop (nat (offset - (start + int (length ?b)))) ?bs)) it)"
      using "3.prems" by (intro "3.IH"(3)) auto
    moreover have "nat (offset - (start + int (length ?b))) = nat (offset - start) - length ?b"
      "drop (nat (offset - start)) ?b = []"
      using False by auto
    ultimately show ?thesis using False by (simp add: Let_def)
  qed
qed

lemmas datagram_iter_fits = datagram_iter_fits_aux(1)

text \<open>A frame whose control block describes a range of its buffer.\<close>

definition part_ok :: "h2_part \<Rightarrow> bool" where
  "part_ok p \<longleftrightarrow> 0 \<le> hp_offset p \<and> 0 < hp_full_len p
     \<and> hp_offset p + hp_full_len p \<le> int (length (tree_bytes (hp_tree p)))"

lemma part_bytes_length: "part_ok p \<Longrightarrow> int (length (part_bytes p)) = hp_full_len p"
  by (auto simp: part_ok_def part_bytes_def)

definition parts_bytes :: "h2_part list \<Rightarrow> bytes" where
  "parts_bytes ps = concat (map part_bytes ps)"

lemma copy_http2_fits:
  assumes "\<forall>p \<in> set ps. part_ok p"
    and "length (parts_bytes ps) \<le> io_room it" "length (parts_bytes ps) \<le> io_good it"
  shows "skb_copy_datagram_msg_http2 res ps it len =
    (if ps = [] then res else 0, wrote (parts_bytes ps) it, len + int (length (parts_bytes ps)))"
  using assms
proof (induction ps arbitrary: res it len)
  case Nil
  then show ?case by (simp add: parts_bytes_def)
next
  case (Cons p ps)
  have p: "part_ok p" and len: "int (length (part_bytes p)) = hp_full_len p"
    using Cons.prems by (simp_all add: part_bytes_length)
  have all: "parts_bytes (p # ps) = part_bytes p @ parts_bytes ps" by (simp add: parts_bytes_def)
  then have "skb_datagram_iter False (hp_tree p) (hp_offset p) (hp_full_len p) it = (0, wrote (part_bytes p) it)"
    using p len Cons.prems unfolding part_bytes_def
    by (intro datagram_iter_fits) (auto simp: part_ok_def part_bytes_def)
  moreover have "skb_copy_datagram_msg_http2 0 ps (wrote (part_bytes p) it) (len + hp_full_len p) =
      (0, wrote (parts_bytes ps) (wrote (part_bytes p) it), len + hp_full_len p + int (length (parts_bytes ps)))"
    using Cons.prems all by (subst Cons.IH) auto
  ultimately show ?case using len all by simp
qed

lemma linear_iter:
  assumes "lin \<noteq> []"
  shows "skb_datagram_iter fs (Skb lin [] []) 0 (int (length lin)) it =
    (let (n, it1) = copy_to_iter lin it in
     if n = length lin then (0, it1) else short_copy fs 0 (int n) it1)"
  using assms
  by (auto simp: iter_piece_def simple_copy_to_iter_def Let_def split: prod.splits)

lemma copy_revert:
  assumes "copy_to_iter bs it = (n, it1)"
  shows "iov_iter_revert n it1 = it"
proof -
  have "n = min (length bs) (min (io_room it) (io_good it))"
    and "it1 = it\<lparr>io_out := io_out it @ take n bs, io_room := io_room it - n, io_good := io_good it - n\<rparr>"
    using assms by (auto simp: copy_to_iter_def Let_def)
  then show ?thesis by (simp add: iov_iter_revert_def)
qed

lemma linear_fault:
  assumes "io_good it < length lin" "io_good it < io_room it"
  shows "skb_datagram_iter fs (Skb lin [] []) 0 (int (length lin)) it = (- EFAULT, it)"
proof -
  obtain n it1 where c: "copy_to_iter lin it = (n, it1)" by (cases "copy_to_iter lin it")
  then have "n = io_good it" "io_room it1 = io_room it - n"
    using assms by (auto simp: copy_to_iter_def Let_def)
  then show ?thesis
    using assms c copy_revert [OF c] by (subst linear_iter) (auto simp: short_copy_def)
qed

lemma linear_overlong:
  assumes "io_room it < length lin" "io_room it \<le> io_good it"
  shows "skb_datagram_iter False (Skb lin [] []) 0 (int (length lin)) it =
    (0, wrote (take (io_room it) lin) it)"
  using assms
  by (subst linear_iter) (auto simp: copy_to_iter_def short_copy_def wrote_def Let_def)

lemma clear_dontwait_peek: "has_flag (flags AND NOT MSG_DONTWAIT) MSG_PEEK = has_flag flags MSG_PEEK"
proof -
  have "NOT MSG_DONTWAIT AND MSG_PEEK = (MSG_PEEK :: u32)" by simp
  then show ?thesis by (simp add: has_flag_def and.assoc del: and_numerals)
qed

end
