(* ===== verification/Grpc_Sock.thy ===== *)
theory Grpc_Sock
  imports H2_Control Grpc_Recv Sockets
begin

text \<open>
  The sockets of the gRPC variant where they differ from the plain one
  (\<open>rakaia/grpc/rakaiasock.c\<close>): attaching a connection with its flow-control windows, the
  table of connections, releasing a connection, the unmetered receive queue, and the
  transmit loop that also carries the control frames the parser has queued.
\<close>

section \<open>State\<close>

abbreviation (input) NUM_BUCKETS :: nat where "NUM_BUCKETS \<equiv> 1024"
abbreviation (input) RAKAIA_ATTACH_EXTENDED_BPF_FD :: int where "RAKAIA_ATTACH_EXTENDED_BPF_FD \<equiv> - 2"
abbreviation (input) HTTP2_DEFAULT_CONNECTION_WINDOW :: int where "HTTP2_DEFAULT_CONNECTION_WINDOW \<equiv> 65535"
abbreviation (input) INITIAL_WINDOW_SIZE :: int where "INITIAL_WINDOW_SIZE \<equiv> 126553500"

record grpc_lower = lower +
  lw_daddr :: u32
  lw_dport :: u16

record grpc_psock =
  gp_sk :: "nat option"
  gp_strp :: "unit h2_skb_ext strparser"
  gp_conn :: h2_conn
  gp_hash_id :: u32
  gp_dport :: u16
  gp_daddr :: u32
  gp_tx_in_use :: int
  gp_accumu :: int
  gp_process_backlog :: int
  gp_save_data_ready :: lower_cb
  gp_save_write_space :: lower_cb
  gp_save_state_change :: lower_cb

text \<open>\<open>gw_psock_list\<close> and \<open>gw_count\<close> are those of \<open>struct rakaia_net\<close>; \<open>gw_buckets\<close> is the hash table.\<close>

record grpc_world =
  gw_rk :: rakaia
  gw_psocks :: "nat \<Rightarrow> grpc_psock option"
  gw_lower :: "nat \<Rightarrow> grpc_lower option"
  gw_psock_list :: "nat list"
  gw_count :: int
  gw_buckets :: "nat \<Rightarrow> nat list"
  gw_tx_work :: "nat list"

definition zero_conn :: h2_conn where
  "zero_conn =
     \<lparr>hc_streams = (\<lambda>_. []), hc_rcvd = [], hc_unacked = 0, hc_recv_conn_window = 0, hc_send_quota = 0,
      hc_flow_stalled = False, hc_tx_wait_queue = [], hc_wmem_queued = 0, hc_mem_charged = 0,
      hc_tx_work = False\<rparr>"

definition zero_grpc_psock :: grpc_psock where
  "zero_grpc_psock =
     \<lparr>gp_sk = None, gp_strp = zero_strp None, gp_conn = zero_conn, gp_hash_id = 0, gp_dport = 0,
      gp_daddr = 0, gp_tx_in_use = 0, gp_accumu = 0, gp_process_backlog = 0,
      gp_save_data_ready = KernelCb 0, gp_save_write_space = KernelCb 0,
      gp_save_state_change = KernelCb 0\<rparr>"

definition gpsock_at :: "grpc_world \<Rightarrow> nat \<Rightarrow> fault + grpc_psock" where
  "gpsock_at w p = (case gw_psocks w p of None \<Rightarrow> Inl UseAfterFree | Some ps \<Rightarrow> Inr ps)"

definition glower_at :: "grpc_world \<Rightarrow> nat \<Rightarrow> fault + grpc_lower" where
  "glower_at w c = (case gw_lower w c of None \<Rightarrow> Inl UseAfterFree | Some l \<Rightarrow> Inr l)"

definition set_gpsock :: "nat \<Rightarrow> grpc_psock \<Rightarrow> grpc_world \<Rightarrow> grpc_world" where
  "set_gpsock p ps w = w\<lparr>gw_psocks := (gw_psocks w)(p := Some ps)\<rparr>"

definition set_glower :: "nat \<Rightarrow> grpc_lower \<Rightarrow> grpc_world \<Rightarrow> grpc_world" where
  "set_glower c l w = w\<lparr>gw_lower := (gw_lower w)(c := Some l)\<rparr>"

declare gpsock_at_def [access_defs] glower_at_def [access_defs] set_gpsock_def [access_defs] set_glower_def [access_defs]

text \<open>Dropping the last reference of a socket frees it.\<close>

definition gsock_put :: "nat \<Rightarrow> grpc_lower \<Rightarrow> grpc_world \<Rightarrow> grpc_world" where
  "gsock_put c l w =
     w\<lparr>gw_lower := (gw_lower w)(c := (if lw_refs l \<le> 1 then None else Some (l\<lparr>lw_refs := lw_refs l - 1\<rparr>)))\<rparr>"

section \<open>Attaching\<close>

record attach_user =
  au_fd :: int
  au_bpf_fd :: int
  au_initial_conn_window :: int

text \<open>
  The user structure is read twice, the second time only for the extended form. Each read
  can fault (\<open>None\<close>); the short form has no window.
\<close>

definition copy_rakaia_attach_from_user ::
  "(int \<times> int) option \<Rightarrow> attach_user option \<Rightarrow> int + attach_user" where
  "copy_rakaia_attach_from_user legacy full =
     (case legacy of
        None \<Rightarrow> Inl (- EFAULT)
      | Some (fd, bpf_fd) \<Rightarrow>
          if bpf_fd \<noteq> RAKAIA_ATTACH_EXTENDED_BPF_FD
          then Inr \<lparr>au_fd = fd, au_bpf_fd = bpf_fd, au_initial_conn_window = 0\<rparr>
          else (case full of None \<Rightarrow> Inl (- EFAULT) | Some info \<Rightarrow> Inr info))"

definition default_parse_msg :: "h2_skb \<Rightarrow> int" where
  "default_parse_msg skb = 0"

definition grpc_callbacks :: "(h2_skb \<Rightarrow> 'u \<Rightarrow> 'u \<times> bool) \<Rightarrow> (unit h2_skb_ext, 'u) strp_callbacks" where
  "grpc_callbacks rcv =
     \<lparr>cb_parse_msg = Some default_parse_msg, cb_rcv_msg = Some rcv, cb_read_sock_done = None,
      cb_abort_parser = None, cb_lock = False, cb_unlock = False\<rparr>"

text \<open>\<open>jhash_2words\<close> is kernel code: the hash of the remote address is the argument \<open>hash\<close>.\<close>

definition hash_tcp_tuple :: "(u32 \<Rightarrow> u32 \<Rightarrow> u32 \<Rightarrow> u32) \<Rightarrow> u32 \<Rightarrow> u16 \<Rightarrow> u32" where
  "hash_tcp_tuple jhash saddr sport = jhash saddr (ucast sport) 0"

definition grpc_bucket :: "u32 \<Rightarrow> nat" where
  "grpc_bucket h = unat h mod NUM_BUCKETS"

definition conn_window_of :: "int \<Rightarrow> int" where
  "conn_window_of initial = (if initial > 0 then initial else INITIAL_WINDOW_SIZE)"

text \<open>The psock of a refused attach is freed only in the last two cases.\<close>

definition grpc_attach ::
  "(u32 \<Rightarrow> u32 \<Rightarrow> u32 \<Rightarrow> u32) \<Rightarrow> (h2_skb \<Rightarrow> 'u \<Rightarrow> 'u \<times> bool) \<Rightarrow> nat option \<Rightarrow> nat option \<Rightarrow> int \<Rightarrow> grpc_world \<Rightarrow>
     fault + int \<times> grpc_world" where
  "grpc_attach jhash rcv alloc csk initial w =
     (case alloc of
        None \<Rightarrow> Inr (- ENOMEM, w)
      | Some p \<Rightarrow>
          (case csk of
             None \<Rightarrow> Inr (- EINVAL, set_gpsock p zero_grpc_psock w)
           | Some c \<Rightarrow>
               bind_fault (glower_at w c) (\<lambda>l.
                 let h = hash_tcp_tuple jhash (lw_daddr l) (lw_dport l);
                     ps = zero_grpc_psock\<lparr>gp_hash_id := h, gp_dport := lw_dport l, gp_daddr := lw_daddr l\<rparr>;
                     freed = w\<lparr>gw_psocks := (gw_psocks w)(p := None)\<rparr>
                 in if \<not> attachable (lower.truncate l) then Inr (- EOPNOTSUPP, set_gpsock p ps w)
                    else if lw_user_data l \<noteq> None then Inr (- EALREADY, freed)
                    else
                      (case strp_init (Some (lw_view l)) (Some (grpc_callbacks rcv)) of
                         Inl err \<Rightarrow> Inr (err, freed)
                       | Inr (strp, _) \<Rightarrow>
                           (let ps1 = ps\<lparr>gp_sk := Some c, gp_strp := strp,
                                  gp_save_data_ready := lw_data_ready l,
                                  gp_save_write_space := lw_write_space l,
                                  gp_save_state_change := lw_state_change l,
                                  gp_conn := zero_conn\<lparr>hc_recv_conn_window := conn_window_of initial,
                                    hc_send_quota := HTTP2_DEFAULT_CONNECTION_WINDOW\<rparr>\<rparr>;
                                l1 = l\<lparr>lw_user_data := Some p, lw_data_ready := PsockDataReady,
                                  lw_state_change := PsockStateChange, lw_refs := lw_refs l + 1\<rparr>;
                                w1 = set_gpsock p ps1 (set_glower c l1 w);
                                b = grpc_bucket h
                            in Inr (0, w1\<lparr>gw_psock_list := p # gw_psock_list w1, gw_count := gw_count w1 + 1,
                                          gw_buckets := (gw_buckets w1)(b := p # gw_buckets w1 b)\<rparr>))))))"

text \<open>The reference \<open>sockfd_lookup\<close> takes is always given back.\<close>

definition grpc_attach_ioctl ::
  "(u32 \<Rightarrow> u32 \<Rightarrow> u32 \<Rightarrow> u32) \<Rightarrow> (h2_skb \<Rightarrow> 'u \<Rightarrow> 'u \<times> bool) \<Rightarrow> nat option \<Rightarrow> nat option option \<Rightarrow> attach_user \<Rightarrow>
     grpc_world \<Rightarrow> fault + int \<times> grpc_world" where
  "grpc_attach_ioctl jhash rcv alloc lookup info w =
     (case lookup of
        None \<Rightarrow> Inr (- ENOENT, w)
      | Some csk \<Rightarrow> grpc_attach jhash rcv alloc csk (au_initial_conn_window info) w)"

section \<open>Releasing\<close>

definition grpc_free_psock :: "nat \<Rightarrow> grpc_world \<Rightarrow> grpc_world" where
  "grpc_free_psock p w = w\<lparr>gw_psocks := (gw_psocks w)(p := None)\<rparr>"

definition grpc_release_psock :: "nat \<Rightarrow> grpc_world \<Rightarrow> fault + grpc_world" where
  "grpc_release_psock p w =
     bind_fault (gpsock_at w p) (\<lambda>ps.
       let w1 = w\<lparr>gw_psock_list := remove1 p (gw_psock_list w), gw_count := gw_count w - 1\<rparr> in
       case gp_sk ps of
         None \<Rightarrow> Inr (grpc_free_psock p w1)
       | Some c \<Rightarrow>
           bind_fault (glower_at w1 c) (\<lambda>l.
             let l1 = l\<lparr>lw_user_data := None, lw_data_ready := gp_save_data_ready ps,
                        lw_write_space := gp_save_write_space ps,
                        lw_state_change := gp_save_state_change ps\<rparr>;
                 (strp, conn) = grpc_strp_done (strp_stop (gp_strp ps)) (gp_conn ps);
                 w2 = set_gpsock p (ps\<lparr>gp_strp := strp, gp_conn := conn\<rparr>) w1
             in Inr (grpc_free_psock p (gsock_put c l1 w2))))"

text \<open>The last rakaia socket takes every connection of every bucket down.\<close>

fun grpc_release_bucket :: "nat \<Rightarrow> nat list \<Rightarrow> grpc_world \<Rightarrow> fault + grpc_world" where
  "grpc_release_bucket b [] w = Inr w"
| "grpc_release_bucket b (p # ps) w =
     bind_fault (grpc_release_psock p w) (\<lambda>w1.
       grpc_release_bucket b ps (w1\<lparr>gw_buckets := (gw_buckets w1)(b := remove1 p (gw_buckets w1 b))\<rparr>))"

fun grpc_release_buckets :: "nat list \<Rightarrow> grpc_world \<Rightarrow> fault + grpc_world" where
  "grpc_release_buckets [] w = Inr w"
| "grpc_release_buckets (b # bs) w =
     bind_fault (grpc_release_bucket b (gw_buckets w b) w) (grpc_release_buckets bs)"

definition skb_queue_purge_rakaia :: "rakaia_sock \<Rightarrow> rakaia_sock" where
  "skb_queue_purge_rakaia k = k\<lparr>k_recvq := []\<rparr>"

definition grpc_release :: "nat option \<Rightarrow> grpc_world \<Rightarrow> fault + int \<times> grpc_world" where
  "grpc_release sk w =
     (case sk of
        None \<Rightarrow> Inr (0, w)
      | Some a \<Rightarrow>
          bind_fault (deref (gw_rk w) a) (\<lambda>k.
            let rk1 = upd_sock a (\<lambda>s. skb_queue_purge_rakaia (s\<lparr>k_dead := True\<rparr>)) (gw_rk w) in
            bind_fault
              (if k_index k \<le> int NUM_RAKAIA_SOCKETS
               then (if 0 \<le> k_index k \<and> nat (k_index k) < length (r_socks rk1)
                     then Inr (rk1\<lparr>r_socks := (r_socks rk1)[nat (k_index k) := None],
                                   r_cnt := r_cnt rk1 - 1,
                                   r_all_msg_cnt := r_all_msg_cnt rk1 + k_msg_cnt k,
                                   r_accumu_cnt := r_accumu_cnt rk1 + k_accumu_cnt k\<rparr>)
                     else Inl OutOfBounds)
               else Inr rk1)
              (\<lambda>rk2.
                 bind_fault
                   (if r_cnt rk2 = 0 then grpc_release_buckets [0..<NUM_BUCKETS] (w\<lparr>gw_rk := rk2\<rparr>)
                    else Inr (w\<lparr>gw_rk := rk2\<rparr>))
                   (\<lambda>w3. Inr (0, w3\<lparr>gw_rk := (gw_rk w3)\<lparr>r_heap := (r_heap (gw_rk w3))(a := None)\<rparr>\<rparr>)))))"

section \<open>Receiving\<close>

text \<open>The receive queue of this variant has no limit, and freeing a buffer gives nothing back.\<close>

definition grpc_queue_rcv_skb :: "nat \<Rightarrow> sk_buff \<Rightarrow> rakaia \<Rightarrow> fault + int \<times> rakaia" where
  "grpc_queue_rcv_skb ksk skb rk =
     (case deref rk ksk of
        Inl f \<Rightarrow> Inl f
      | Inr k \<Rightarrow>
          Inr (0, upd_sock ksk (\<lambda>s. s\<lparr>k_recvq := skb_queue_tail (k_recvq s) skb,
                    k_wakeups := (if k_dead s then k_wakeups s else k_wakeups s + 1)\<rparr>) rk))"

section \<open>Transmitting\<close>

definition rakaia_schedule_tx :: "nat option \<Rightarrow> grpc_world \<Rightarrow> fault + grpc_world" where
  "rakaia_schedule_tx po w =
     (case po of
        None \<Rightarrow> Inr w
      | Some p \<Rightarrow>
          bind_fault (gpsock_at w p) (\<lambda>ps.
            Inr (if gp_sk ps = None \<or> p \<in> set (gw_tx_work w) then w
                 else w\<lparr>gw_tx_work := gw_tx_work w @ [p]\<rparr>)))"

definition grpc_write_space :: "nat \<Rightarrow> grpc_world \<Rightarrow> fault + grpc_world" where
  "grpc_write_space c w =
     bind_fault (glower_at w c) (\<lambda>l.
       case lw_user_data l of None \<Rightarrow> Inr w | Some p \<Rightarrow> rakaia_schedule_tx (Some p) w)"

text \<open>Unlike the plain variant this one corks: \<open>wmem_again\<close> is the write memory at the second look.\<close>

definition grpc_tcp_push :: "tcp_kernel \<Rightarrow> int \<Rightarrow> u32 \<Rightarrow> int \<Rightarrow> u8 \<Rightarrow> int \<Rightarrow> tcp_sock \<Rightarrow> bool \<times> tcp_sock" where
  "grpc_tcp_push K wmem_again flags mss_now nonagle size_goal tp =
     (case tcp_write_queue_tail tp of
        None \<Rightarrow> (False, tp)
      | Some skb \<Rightarrow>
          (let tp1 = (if \<not> has_flag flags MSG_MORE \<or> forced_push tp
                      then (case tk_mark_push K tp skb of (tp', skb') \<Rightarrow> set_write_queue_tail skb' tp')
                      else tp);
               tp2 = tcp_mark_urg flags tp1;
               cork = tcp_should_autocork K skb size_goal tp2
           in if cork \<and> wmem_again > tx_truesize skb then (True, tp2)
              else (cork, tk_push_pending K mss_now (if has_flag flags MSG_MORE then TCP_NAGLE_CORK else nonagle) tp2)))"

text \<open>The buffers were charged when they were queued, so only sequence numbers are assigned.\<close>

fun grpc_assign_seqs :: "tx_skb list \<Rightarrow> u32 \<Rightarrow> tx_skb list \<times> u32" where
  "grpc_assign_seqs [] seq = ([], seq)"
| "grpc_assign_seqs (skb # skbs) seq =
     (let end = seq + tx_seq skb in
      case grpc_assign_seqs skbs end of
        (rest, seq1) \<Rightarrow> (skb\<lparr>tx_end_seq := end, tx_seq := seq\<rparr> # rest, seq1))"

definition grpc_splice :: "tx_skb list \<Rightarrow> tcp_sock \<Rightarrow> tcp_sock" where
  "grpc_splice waiting tp =
     (case grpc_assign_seqs waiting (ts_write_seq tp) of
        (moved, seq) \<Rightarrow> tp\<lparr>ts_write_queue := ts_write_queue tp @ moved, ts_write_seq := seq\<rparr>)"

definition grpc_send_round ::
  "tcp_kernel \<Rightarrow> u16 \<Rightarrow> int \<Rightarrow> u32 \<Rightarrow> int \<Rightarrow> int \<Rightarrow> tx_skb list \<Rightarrow> int \<times> tcp_sock \<Rightarrow> int \<times> tcp_sock" where
  "grpc_send_round K junk wmem_again flags mss_now size_goal waiting st =
     (case st of (backlog, tp) \<Rightarrow>
        (let tp1 = grpc_splice waiting tp;
             flush = backlog \<ge> 16;
             tp2 = (if flush then tk_flush_backlog K tp1 else tp1);
             tp3 = tcp_tx_timestamp K junk (tp2\<lparr>ts_nospace := False\<rparr>)
         in (if flush then 0 else backlog,
             snd (grpc_tcp_push K wmem_again flags mss_now (ts_nonagle tp3) size_goal tp3))))"

fun grpc_send_loop ::
  "nat \<Rightarrow> tcp_kernel \<Rightarrow> u16 \<Rightarrow> (nat \<Rightarrow> int) \<Rightarrow> u32 \<Rightarrow> int \<Rightarrow> int \<Rightarrow> (nat \<Rightarrow> tx_skb list) \<Rightarrow> nat \<Rightarrow> tx_skb list \<Rightarrow>
     int \<times> tcp_sock \<Rightarrow> (int \<times> tcp_sock) option" where
  "grpc_send_loop n K junk wmem flags mss_now size_goal arrivals i waiting st =
     (if waiting = [] then Some st
      else (case n of
              0 \<Rightarrow> None
            | Suc m \<Rightarrow>
                grpc_send_loop m K junk wmem flags mss_now size_goal arrivals (Suc i) (arrivals i)
                  (grpc_send_round K junk (wmem i) flags mss_now size_goal waiting st)))"

declare grpc_send_loop.simps [simp del]

text \<open>
  Releasing the socket runs what arrived meanwhile through TCP: \<open>tcp_v4_do_rcv\<close> on every
  buffer of the backlog, again and again until it is empty. Each batch is one list.
\<close>

fun grpc_release_sock :: "('s \<Rightarrow> 'b \<Rightarrow> 's) \<Rightarrow> 'b list list \<Rightarrow> 's \<Rightarrow> 's" where
  "grpc_release_sock do_rcv [] s = s"
| "grpc_release_sock do_rcv (batch # batches) s =
     (if batch = [] then s else grpc_release_sock do_rcv batches (foldl do_rcv s batch))"

text \<open>The callback of the protocol runs last, when it has one.\<close>

definition release_owner :: "('s \<Rightarrow> 's) option \<Rightarrow> 's \<Rightarrow> 's" where
  "release_owner release_cb s = (case release_cb of None \<Rightarrow> s | Some f \<Rightarrow> f s)"

definition grpc_try_send ::
  "nat \<Rightarrow> tcp_kernel \<Rightarrow> u16 \<Rightarrow> (nat \<Rightarrow> int) \<Rightarrow> (tcp_sock \<Rightarrow> 'b \<Rightarrow> tcp_sock) \<Rightarrow> 'b list list \<Rightarrow>
     (tcp_sock \<Rightarrow> tcp_sock) option \<Rightarrow> (nat \<Rightarrow> tx_skb list) \<Rightarrow> nat \<Rightarrow> u32 \<Rightarrow> int \<Rightarrow> int \<Rightarrow> grpc_world \<Rightarrow> (fault + grpc_world) option" where
  "grpc_try_send n K junk wmem do_rcv backlog release_cb arrivals p flags mss_now size_goal w =
     (case gpsock_at w p of
        Inl f \<Rightarrow> Some (Inl f)
      | Inr ps \<Rightarrow>
          if gp_tx_in_use ps \<noteq> 0 then Some (Inr w)
          else
            (case gp_sk ps of
               None \<Rightarrow> Some (Inl NullDeref)
             | Some c \<Rightarrow>
                 (case glower_at w c of
                    Inl f \<Rightarrow> Some (Inl f)
                  | Inr l \<Rightarrow>
                      map_option (\<lambda>(bl, tp). Inr
                          ((set_gpsock p (ps\<lparr>gp_tx_in_use := 0, gp_process_backlog := bl,
                               gp_conn := (gp_conn ps)\<lparr>hc_tx_wait_queue := []\<rparr>\<rparr>)
                             (set_glower c (l\<lparr>lw_tcp := release_owner release_cb (grpc_release_sock do_rcv backlog tp)\<rparr>) w))
                           \<lparr>gw_rk := (gw_rk w)\<lparr>r_snd_cnt := r_snd_cnt (gw_rk w) + 1\<rparr>\<rparr>))
                        (grpc_send_loop n K junk wmem flags mss_now size_goal arrivals 0
                           (hc_tx_wait_queue (gp_conn ps)) (gp_process_backlog ps, lw_tcp l)))))"

definition grpc_tx_work ::
  "nat \<Rightarrow> tcp_kernel \<Rightarrow> u16 \<Rightarrow> (nat \<Rightarrow> int) \<Rightarrow> (tcp_sock \<Rightarrow> 'b \<Rightarrow> tcp_sock) \<Rightarrow> 'b list list \<Rightarrow>
     (tcp_sock \<Rightarrow> tcp_sock) option \<Rightarrow> (nat \<Rightarrow> tx_skb list) \<Rightarrow> nat \<Rightarrow> grpc_world \<Rightarrow> (fault + grpc_world) option" where
  "grpc_tx_work n K junk wmem do_rcv backlog release_cb arrivals p w =
     (case gpsock_at w p of
        Inl f \<Rightarrow> Some (Inl f)
      | Inr ps \<Rightarrow>
          (case gp_sk ps of
             None \<Rightarrow> Some (Inr w)
           | Some c \<Rightarrow>
               (case glower_at w c of
                  Inl f \<Rightarrow> Some (Inl f)
                | Inr l \<Rightarrow>
                    (case tcp_send_mss K MSG_DONTWAIT (lw_tcp l) of
                       Inl f \<Rightarrow> Some (Inl f)
                     | Inr (mss_now, size_goal, tp) \<Rightarrow>
                         grpc_try_send n K junk wmem do_rcv backlog release_cb arrivals p MSG_DONTWAIT mss_now
                           size_goal (set_glower c (l\<lparr>lw_tcp := tp\<rparr>) w)))))"

end
