(* ===== verification/Tx_Stream.thy ===== *)
theory Tx_Stream
  imports Socket_Theorems Grpc_Sock
begin

text \<open>
  The byte stream the transmit paths build. Both variants move an accumulation queue to the
  TCP write queue by a splice that numbers the buffers; the locale \<open>tx_splice_law\<close> states what
  the send loops rely on, and both splices are instances.
\<close>

section \<open>Contiguous write queues\<close>

definition tx_image :: "tx_skb \<Rightarrow> bytes \<times> u32 \<times> u32" where
  "tx_image skb = (tx_data skb, tx_seq skb, tx_end_seq skb)"

definition payload :: "tx_skb list \<Rightarrow> nat" where
  "payload skbs = length (concat (map tx_data skbs))"

text \<open>Before it is spliced, a buffer holds its length in its sequence number.\<close>

definition counted :: "tx_skb list \<Rightarrow> bool" where
  "counted skbs \<longleftrightarrow> list_all (\<lambda>skb. tx_seq skb = word_of_nat (length (tx_data skb))) skbs"

definition stream_ok :: "tcp_sock \<Rightarrow> bool" where
  "stream_ok tp \<longleftrightarrow> (\<exists>una. seqs_from una (ts_write_queue tp) (ts_write_seq tp))"

text \<open>Sending and acknowledging only takes buffers off the front of the queue.\<close>

definition keeps :: "(tcp_sock \<Rightarrow> tcp_sock) \<Rightarrow> bool" where
  "keeps f \<longleftrightarrow>
     (\<forall>tp. ts_write_seq (f tp) = ts_write_seq tp \<and>
       (\<exists>n. map tx_image (ts_write_queue (f tp)) = drop n (map tx_image (ts_write_queue tp))))"

lemma payload_append [simp]: "payload (xs @ ys) = payload xs + payload ys"
  by (simp add: payload_def)

lemma payload_Nil [simp]: "payload [] = 0"
  by (simp add: payload_def)

lemma counted_append [simp]: "counted (xs @ ys) \<longleftrightarrow> counted xs \<and> counted ys"
  by (simp add: counted_def)

lemma seqs_from_image:
  "map tx_image xs = map tx_image ys \<Longrightarrow> seqs_from s xs e = seqs_from s ys e"
proof (induction xs arbitrary: s ys)
  case (Cons x xs)
  then obtain y zs where "ys = y # zs" by (cases ys) auto
  with Cons show ?case by (auto simp: tx_image_def)
qed simp

lemma seqs_from_drop: "seqs_from s xs e \<Longrightarrow> \<exists>s'. seqs_from s' (drop n xs) e"
proof (induction n arbitrary: s xs)
  case (Suc n)
  then show ?case by (cases xs) auto
qed auto

lemma seqs_from_end: "seqs_from s xs e \<Longrightarrow> e = s + word_of_nat (payload xs)"
  by (induction s xs e rule: seqs_from.induct) (auto simp: payload_def add.assoc)

lemma keeps_stream:
  assumes "keeps f" "stream_ok tp"
  shows "stream_ok (f tp)" "ts_write_seq (f tp) = ts_write_seq tp"
proof -
  from assms obtain n una where n: "map tx_image (ts_write_queue (f tp)) = map tx_image (drop n (ts_write_queue tp))"
    and s: "ts_write_seq (f tp) = ts_write_seq tp" "seqs_from una (ts_write_queue tp) (ts_write_seq tp)"
    unfolding keeps_def stream_ok_def drop_map by metis
  from seqs_from_drop [OF s(2)] obtain s' where "seqs_from s' (drop n (ts_write_queue tp)) (ts_write_seq tp)" by blast
  with s(1) show "stream_ok (f tp)" unfolding stream_ok_def seqs_from_image [OF n] by metis
  show "ts_write_seq (f tp) = ts_write_seq tp" by (rule s)
qed

lemma keeps_same:
  "(\<And>tp. ts_write_seq (f tp) = ts_write_seq tp \<and>
      map tx_image (ts_write_queue (f tp)) = map tx_image (ts_write_queue tp)) \<Longrightarrow> keeps f"
  unfolding keeps_def by (metis drop0)

lemma keeps_comp:
  assumes "keeps f" "keeps g"
  shows "keeps (\<lambda>tp. g (f tp))"
  unfolding keeps_def
proof (intro allI conjI)
  fix tp
  show "ts_write_seq (g (f tp)) = ts_write_seq tp" using assms by (simp add: keeps_def)
  obtain n where n: "map tx_image (ts_write_queue (f tp)) = drop n (map tx_image (ts_write_queue tp))"
    using assms(1) unfolding keeps_def by blast
  obtain m where "map tx_image (ts_write_queue (g (f tp))) = drop m (map tx_image (ts_write_queue (f tp)))"
    using assms(2) unfolding keeps_def by blast
  with n have "map tx_image (ts_write_queue (g (f tp))) = drop (m + n) (map tx_image (ts_write_queue tp))"
    by (simp add: add.commute)
  then show "\<exists>n. map tx_image (ts_write_queue (g (f tp))) = drop n (map tx_image (ts_write_queue tp))" by blast
qed

text \<open>What the paths rely on of the kernel: it sends from the front and marks flags only.\<close>

definition tx_kernel_ok :: "tcp_kernel \<Rightarrow> bool" where
  "tx_kernel_ok K \<longleftrightarrow>
     (\<forall>mss nonagle. keeps (tk_push_pending K mss nonagle)) \<and> keeps (tk_flush_backlog K) \<and>
     (\<forall>tp skb. case tk_mark_push K tp skb of (tp', skb') \<Rightarrow>
        ts_write_queue tp' = ts_write_queue tp \<and> ts_write_seq tp' = ts_write_seq tp \<and>
        (\<exists>f. skb' = skb\<lparr>tx_tcp_flags := f\<rparr>))"

lemma tx_kernel_okD:
  assumes "tx_kernel_ok K"
  shows "keeps (tk_push_pending K mss nonagle)" "keeps (tk_flush_backlog K)"
    "tk_mark_push K tp skb = (tp', skb') \<Longrightarrow> ts_write_queue tp' = ts_write_queue tp \<and>
       ts_write_seq tp' = ts_write_seq tp \<and> (\<exists>f. skb' = skb\<lparr>tx_tcp_flags := f\<rparr>)"
    "mark_push_ok K"
proof -
  have mark: "case tk_mark_push K tp skb of (tp', skb') \<Rightarrow>
        ts_write_queue tp' = ts_write_queue tp \<and> ts_write_seq tp' = ts_write_seq tp \<and>
        (\<exists>f. skb' = skb\<lparr>tx_tcp_flags := f\<rparr>)" for tp skb
    using assms by (simp add: tx_kernel_ok_def)
  show "tk_mark_push K tp skb = (tp', skb') \<Longrightarrow> ts_write_queue tp' = ts_write_queue tp \<and>
       ts_write_seq tp' = ts_write_seq tp \<and> (\<exists>f. skb' = skb\<lparr>tx_tcp_flags := f\<rparr>)"
    using mark [of tp skb] by simp
  show "mark_push_ok K"
    unfolding mark_push_ok_def
  proof (intro allI)
    fix tp skb
    show "\<exists>f. snd (tk_mark_push K tp skb) = skb\<lparr>tx_tcp_flags := f\<rparr>"
      using mark [of tp skb] by (cases "tk_mark_push K tp skb") auto
  qed
qed (use assms in \<open>auto simp: tx_kernel_ok_def\<close>)

lemma set_tail_image:
  assumes "tcp_write_queue_tail tp = Some skb" "tx_image skb' = tx_image skb"
  shows "map tx_image (ts_write_queue (set_write_queue_tail skb' tp)) = map tx_image (ts_write_queue tp)"
proof -
  have q: "ts_write_queue tp \<noteq> []" "skb = last (ts_write_queue tp)"
    using assms(1) by (auto simp: tcp_write_queue_tail_def split: if_splits)
  then have "ts_write_queue tp = butlast (ts_write_queue tp) @ [skb]" by simp
  from arg_cong [OF this, of "map tx_image"] assms(2) show ?thesis
    by (simp only: set_write_queue_tail_def) simp
qed

lemma keeps_timestamp: "keeps (tcp_tx_timestamp K junk)"
proof (rule keeps_same, intro conjI)
  fix tp
  show "ts_write_seq (tcp_tx_timestamp K junk tp) = ts_write_seq tp"
    by (simp add: tcp_tx_timestamp_def set_write_queue_tail_def Let_def split: option.split)
  show "map tx_image (ts_write_queue (tcp_tx_timestamp K junk tp)) = map tx_image (ts_write_queue tp)"
  proof (cases "tcp_write_queue_tail tp")
    case None
    then show ?thesis by (simp add: tcp_tx_timestamp_def)
  next
    case (Some skb)
    then show ?thesis
      by (auto simp: tcp_tx_timestamp_def Let_def tx_image_def intro!: set_tail_image [OF Some])
  qed
qed

text \<open>The common first part of the two push functions: the push mark and the urgent pointer.\<close>

definition push_marked :: "tcp_kernel \<Rightarrow> u32 \<Rightarrow> tcp_sock \<Rightarrow> tcp_sock" where
  "push_marked K flags tp =
     (case tcp_write_queue_tail tp of
        None \<Rightarrow> tp
      | Some skb \<Rightarrow>
          tcp_mark_urg flags
            (if \<not> has_flag flags MSG_MORE \<or> forced_push tp
             then (case tk_mark_push K tp skb of (tp', skb') \<Rightarrow> set_write_queue_tail skb' tp')
             else tp))"

lemma keeps_push_marked:
  assumes "tx_kernel_ok K"
  shows "keeps (push_marked K flags)"
proof (rule keeps_same)
  fix tp
  show "ts_write_seq (push_marked K flags tp) = ts_write_seq tp \<and>
      map tx_image (ts_write_queue (push_marked K flags tp)) = map tx_image (ts_write_queue tp)"
  proof (cases "tcp_write_queue_tail tp")
    case None
    then show ?thesis by (simp add: push_marked_def)
  next
    case (Some skb)
    obtain tp' skb' where m: "tk_mark_push K tp skb = (tp', skb')" by (cases "tk_mark_push K tp skb")
    note k = tx_kernel_okD(3) [OF assms m]
    then have "tcp_write_queue_tail tp' = Some skb" "tx_image skb' = tx_image skb"
      using Some by (auto simp: tcp_write_queue_tail_def tx_image_def)
    from set_tail_image [OF this] k Some m show ?thesis
      by (auto simp: push_marked_def tcp_mark_urg_def set_write_queue_tail_def)
  qed
qed

lemma keeps_if: "keeps f \<Longrightarrow> keeps g \<Longrightarrow> keeps (\<lambda>tp. if P tp then f tp else g tp)"
  unfolding keeps_def by simp

lemma keeps_id: "keeps (\<lambda>tp. tp)"
  by (rule keeps_same) simp

lemma keeps_at: "(\<And>x. keeps (f x)) \<Longrightarrow> keeps (\<lambda>tp. f (g tp) tp)"
  unfolding keeps_def by simp

lemma keeps_tcp_push:
  assumes "tx_kernel_ok K"
  shows "keeps (tcp_push K flags mss nonagle)"
proof -
  have e: "tcp_push K flags mss nonagle tp = (if tcp_write_queue_tail tp = None then tp
      else tk_push_pending K mss (if has_flag flags MSG_MORE then TCP_NAGLE_CORK else nonagle)
             (push_marked K flags tp))" for tp
    by (simp add: tcp_push_def push_marked_def Let_def split: option.split)
  show ?thesis
    unfolding e [abs_def]
    by (intro keeps_if keeps_id keeps_comp [OF keeps_push_marked [OF assms] tx_kernel_okD(1) [OF assms]])
qed

section \<open>What a splice promises\<close>

locale tx_splice_law =
  fixes splice :: "tx_skb list \<Rightarrow> tcp_sock \<Rightarrow> tcp_sock"
  assumes splice_stream: "stream_ok tp \<Longrightarrow> counted skbs \<Longrightarrow> stream_ok (splice skbs tp)"
    and splice_seq: "counted skbs \<Longrightarrow>
      ts_write_seq (splice skbs tp) = ts_write_seq tp + word_of_nat (payload skbs)"
begin

text \<open>One round: splice, then anything that only takes from the front.\<close>

lemma round_stream:
  assumes "keeps after" "stream_ok tp" "counted skbs"
  shows "stream_ok (after (splice skbs tp))"
    "ts_write_seq (after (splice skbs tp)) = ts_write_seq tp + word_of_nat (payload skbs)"
  using keeps_stream [OF assms(1) splice_stream [OF assms(2,3)]] splice_seq [OF assms(3)] by simp_all

end

lemma assign_seqs_seq:
  "counted skbs \<Longrightarrow> ts_write_seq (snd (assign_seqs skbs tp)) = ts_write_seq tp + word_of_nat (payload skbs)"
proof (induction skbs arbitrary: tp)
  case (Cons skb skbs)
  define tp1 where "tp1 = tp\<lparr>ts_write_seq := ts_write_seq tp + tx_seq skb,
      ts_wmem_queued := ts_wmem_queued tp + tx_truesize skb,
      ts_mem_charged := ts_mem_charged tp + tx_truesize skb\<rparr>"
  have "snd (assign_seqs (skb # skbs) tp) = snd (assign_seqs skbs tp1)"
    by (simp add: tp1_def Let_def case_prod_beta)
  moreover have "counted skbs" "tx_seq skb = word_of_nat (length (tx_data skb))"
    using Cons.prems by (simp_all add: counted_def)
  ultimately show ?case using Cons.IH [of tp1] by (simp add: tp1_def payload_def add.assoc)
qed simp

interpretation plain_tx: tx_splice_law tx_splice
proof
  fix tp skbs
  assume c: "counted skbs"
  show "ts_write_seq (tx_splice skbs tp) = ts_write_seq tp + word_of_nat (payload skbs)"
    using assign_seqs_seq [OF c, of tp] by (cases "assign_seqs skbs tp") (simp add: tx_splice_def)
  assume "stream_ok tp"
  then obtain una where "seqs_from una (ts_write_queue tp) (ts_write_seq tp)" by (auto simp: stream_ok_def)
  from tx_splice_seqs(1) [OF this, of skbs] c show "stream_ok (tx_splice skbs tp)"
    by (auto simp: stream_ok_def counted_def list_all_iff)
qed

lemma grpc_assign_seqs_from:
  assumes "counted skbs" "grpc_assign_seqs skbs s = (moved, e)"
  shows "seqs_from s moved e" "map tx_data moved = map tx_data skbs"
  using assms
  by (induction skbs arbitrary: s moved e) (auto simp: counted_def Let_def split: prod.splits)

interpretation grpc_tx: tx_splice_law grpc_splice
proof
  fix tp :: tcp_sock and skbs
  assume c: "counted skbs"
  obtain moved e where g: "grpc_assign_seqs skbs (ts_write_seq tp) = (moved, e)"
    by (cases "grpc_assign_seqs skbs (ts_write_seq tp)")
  note m = grpc_assign_seqs_from [OF c g]
  show "ts_write_seq (grpc_splice skbs tp) = ts_write_seq tp + word_of_nat (payload skbs)"
    using seqs_from_end [OF m(1)] m(2) g by (simp add: grpc_splice_def payload_def)
  assume "stream_ok tp"
  with m(1) g show "stream_ok (grpc_splice skbs tp)"
    unfolding stream_ok_def by (auto simp: grpc_splice_def intro: seqs_from_append)
qed

section \<open>The send loops\<close>

text \<open>
  \<open>batch bs j\<close> is what the loop finds queued at its \<open>j\<close>-th look: the batches in turn, then
  nothing.
\<close>

definition batch :: "tx_skb list list \<Rightarrow> nat \<Rightarrow> tx_skb list" where
  "batch bs j = (if j < length bs then bs ! j else [])"

lemma batch_simps [simp]: "batch [] j = []" "batch (b # bs) 0 = b" "batch (b # bs) (Suc j) = batch bs j"
  by (simp_all add: batch_def)

lemma snd_cnt_slot:
  assumes "sched_inv rk" "0 \<le> i" "i < 20"
  obtains rk' where "add_snd_cnt i f rk = Inr rk'" "sched_inv rk'" "central_of rk' = central_of rk"
proof -
  have "nat i < 20" using assms(2,3) by simp
  then obtain a k where at: "at_slot rk (nat i) a k" by (rule socks_inv_slot [OF sched_invD(1) [OF assms(1)]])
  let ?rk = "upd_sock a (\<lambda>s. s\<lparr>k_snd_cnt := f (k_snd_cnt s)\<rparr>) rk"
  have "add_snd_cnt i f rk = Inr ?rk"
    using sock_slot_at [OF sched_invD(1) [OF assms(1)] at] assms(2) by (simp add: add_snd_cnt_def)
  moreover have "sched_inv ?rk" by (rule sched_inv_neutral [OF assms(1)]) simp_all
  moreover have "queue_of ?rk j = queue_of rk j" for j
    by (simp add: queue_of_def split: option.split)
  then have "central_of ?rk = central_of rk"
    by (intro central_of_frame) (auto simp: inbox_of_def fun_eq_iff split: option.split)
  ultimately show ?thesis using that by blast
qed

lemma keeps_tx_push: "tx_kernel_ok K \<Longrightarrow> keeps (tx_push K junk flags mss)"
  unfolding tx_push_def Let_def
  by (rule keeps_comp [OF keeps_timestamp keeps_at [where f = "tcp_push K flags mss" and g = ts_nonagle]])
    (rule keeps_tcp_push)

lemma try_send_round_stream:
  assumes "tx_kernel_ok K" "stream_ok tp" "counted skbs" "sched_inv rk" "0 \<le> i" "i < 20"
  obtains tp' rk' where "try_send_round K junk i flags mss skbs (tp, rk) = Inr (tp', rk')"
    "stream_ok tp'" "ts_write_seq tp' = ts_write_seq tp + word_of_nat (payload skbs)"
    "sched_inv rk'" "central_of rk' = central_of rk"
proof -
  let ?tp1 = "tx_splice skbs tp" and ?after = "\<lambda>tp. tk_flush_backlog K (tx_push K junk flags mss tp)"
  let ?tp2 = "tx_push K junk flags mss ?tp1"
  have "keeps ?after" by (rule keeps_comp [OF keeps_tx_push [OF assms(1)] tx_kernel_okD(2) [OF assms(1)]])
  note s = plain_tx.round_stream [OF this assms(2,3)]
  obtain rk1 where rk1: "add_snd_cnt i (\<lambda>n. n + word_of_nat (length (ts_write_queue ?tp1))) rk = Inr rk1"
    "sched_inv rk1" "central_of rk1 = central_of rk"
    by (rule snd_cnt_slot [OF assms(4-6)])
  obtain rk2 where rk2: "add_snd_cnt i (\<lambda>n. n - word_of_nat (length (ts_write_queue ?tp2))) rk1 = Inr rk2"
    "sched_inv rk2" "central_of rk2 = central_of rk1"
    by (rule snd_cnt_slot [OF rk1(2) assms(5,6)])
  show ?thesis
    by (rule that [of "?after ?tp1" rk2]) (use s rk1 rk2 in \<open>simp_all add: try_send_round_def Let_def\<close>)
qed

text \<open>
  The loop ends one look after the last batch, with every batch numbered in order.
\<close>

lemma try_send_loop_stream:
  assumes "tx_kernel_ok K" "0 \<le> ix" "ix < 20"
  shows "stream_ok tp \<Longrightarrow> sched_inv rk \<Longrightarrow> [] \<notin> set bs \<Longrightarrow> counted (concat bs) \<Longrightarrow> length bs \<le> n \<Longrightarrow>
    (\<And>j. arrivals (i + j) = batch bs (Suc j)) \<Longrightarrow>
    \<exists>tp' rk'. try_send_loop n K junk ix flags mss arrivals i (batch bs 0) (tp, rk) = Some (Inr (tp', rk')) \<and>
      stream_ok tp' \<and> ts_write_seq tp' = ts_write_seq tp + word_of_nat (payload (concat bs)) \<and>
      sched_inv rk' \<and> central_of rk' = central_of rk"
proof (induction bs arbitrary: n i tp rk)
  case Nil
  then show ?case by (simp add: try_send_loop.simps)
next
  case (Cons b bs)
  obtain m where n: "n = Suc m" "length bs \<le> m" using Cons.prems(5) by (cases n) auto
  have b: "b \<noteq> []" "counted b" "counted (concat bs)" using Cons.prems(3,4) by auto
  obtain tp1 rk1 where r: "try_send_round K junk ix flags mss b (tp, rk) = Inr (tp1, rk1)"
    "stream_ok tp1" "ts_write_seq tp1 = ts_write_seq tp + word_of_nat (payload b)"
    "sched_inv rk1" "central_of rk1 = central_of rk"
    by (rule try_send_round_stream [OF assms(1) Cons.prems(1) b(2) Cons.prems(2) assms(2,3)])
  have arr: "arrivals (Suc i + j) = batch bs (Suc j)" for j using Cons.prems(6) [of "Suc j"] by simp
  have first: "arrivals i = batch bs 0" using Cons.prems(6) [of 0] by simp
  have "[] \<notin> set bs" using Cons.prems(3) by simp
  from Cons.IH [OF r(2,4) this b(3) n(2) arr] r b(1) n(1) first show ?case
    by (auto simp: try_send_loop.simps [of "Suc m"] add.assoc)
qed

lemma keeps_grpc_push:
  assumes "tx_kernel_ok K"
  shows "keeps (\<lambda>tp. snd (grpc_tcp_push K wmem flags mss nonagle goal tp))"
proof -
  have e: "snd (grpc_tcp_push K wmem flags mss nonagle goal tp) =
      (if tcp_write_queue_tail tp = None then tp
       else if tcp_should_autocork K (last (ts_write_queue tp)) goal (push_marked K flags tp) \<and>
               wmem > tx_truesize (last (ts_write_queue tp)) then push_marked K flags tp
       else tk_push_pending K mss (if has_flag flags MSG_MORE then TCP_NAGLE_CORK else nonagle)
              (push_marked K flags tp))" for tp
    by (simp add: grpc_tcp_push_def push_marked_def Let_def tcp_write_queue_tail_def)
  show ?thesis
    unfolding e
    by (intro keeps_if keeps_id keeps_push_marked [OF assms]
        keeps_comp [OF keeps_push_marked [OF assms] tx_kernel_okD(1) [OF assms]])
qed

lemma keeps_grpc_after:
  assumes "tx_kernel_ok K"
  shows "keeps (\<lambda>tp. let tp2 = (if flush then tk_flush_backlog K tp else tp);
      tp3 = tcp_tx_timestamp K junk (tp2\<lparr>ts_nospace := False\<rparr>)
    in snd (grpc_tcp_push K wmem flags mss (ts_nonagle tp3) goal tp3))"
proof -
  have f: "keeps (\<lambda>tp. if flush then tk_flush_backlog K tp else tp)"
    by (intro keeps_if keeps_id tx_kernel_okD(2) [OF assms])
  have s: "keeps (\<lambda>tp. tp\<lparr>ts_nospace := False\<rparr>)" by (rule keeps_same) simp
  have "keeps (\<lambda>tp3. snd (grpc_tcp_push K wmem flags mss (ts_nonagle tp3) goal tp3))"
    by (rule keeps_at [where f = "\<lambda>x tp. snd (grpc_tcp_push K wmem flags mss x goal tp)"])
      (rule keeps_grpc_push [OF assms])
  from keeps_comp [OF f keeps_comp [OF s keeps_comp [OF keeps_timestamp this]]] show ?thesis
    by (simp add: Let_def)
qed

lemma grpc_send_loop_stream:
  assumes "tx_kernel_ok K"
  shows "stream_ok tp \<Longrightarrow> [] \<notin> set bs \<Longrightarrow> counted (concat bs) \<Longrightarrow> length bs \<le> n \<Longrightarrow>
    (\<And>j. arrivals (i + j) = batch bs (Suc j)) \<Longrightarrow>
    \<exists>bl' tp'. grpc_send_loop n K junk wmem flags mss goal arrivals i (batch bs 0) (bl, tp) = Some (bl', tp') \<and>
      stream_ok tp' \<and> ts_write_seq tp' = ts_write_seq tp + word_of_nat (payload (concat bs))"
proof (induction bs arbitrary: n i bl tp)
  case Nil
  then show ?case by (simp add: grpc_send_loop.simps)
next
  case (Cons b bs)
  obtain m where n: "n = Suc m" "length bs \<le> m" using Cons.prems(4) by (cases n) auto
  have b: "b \<noteq> []" "[] \<notin> set bs" "counted b" "counted (concat bs)" using Cons.prems(2,3) by auto
  note r = grpc_tx.round_stream [OF keeps_grpc_after [OF assms, of "bl \<ge> 16" junk "wmem i" flags mss goal]
      Cons.prems(1) b(3)]
  obtain bl1 tp1 where g: "grpc_send_round K junk (wmem i) flags mss goal b (bl, tp) = (bl1, tp1)"
    "stream_ok tp1" "ts_write_seq tp1 = ts_write_seq tp + word_of_nat (payload b)"
    using r by (auto simp: grpc_send_round_def Let_def)
  have arr: "arrivals (Suc i + j) = batch bs (Suc j)" for j using Cons.prems(5) [of "Suc j"] by simp
  have first: "arrivals i = batch bs 0" using Cons.prems(5) [of 0] by simp
  from Cons.IH [OF g(2) b(2,4) n(2) arr] g b(1) n(1) first show ?case
    by (auto simp: grpc_send_loop.simps [of "Suc m"] add.assoc)
qed

end
