(* ===== verification/Tx_Theorems.thy ===== *)
theory Tx_Theorems
  imports Tx_Stream
begin

text \<open>
  What \<open>rakaia_sendmsg\<close> and \<open>try_send_from_psock\<close> promise: the message is copied whole or not
  at all, the call ends, and what it queues continues the TCP byte stream.
\<close>

section \<open>Copying the message\<close>

text \<open>The call never blocks (\<open>MSG_DONTWAIT\<close>), so waiting for memory always fails.\<close>

definition nonblocking :: "send_kernel \<Rightarrow> bool" where
  "nonblocking D \<longleftrightarrow> (\<forall>t. sd_wait D t \<noteq> 0)"

text \<open>The kernel always has memory and the user buffer is readable.\<close>

definition supplied :: "send_kernel \<Rightarrow> bool" where
  "supplied D \<longleftrightarrow>
     (\<forall>t. sd_mem_free D t \<and> sd_alloc D t \<noteq> None \<and> sd_copy D t = 0 \<and> (\<forall>n. sd_sched_copy D t n) \<and>
       (\<forall>pf. \<exists>p o1 z. sd_refill D t pf = Some (p, o1, z) \<and> o1 < z))"

lemma send_start_inv:
  assumes "msg \<noteq> []"
  shows "send_inv K D g msg (send_start msg pf k ps tp) (LoopHead, send_start msg pf k ps tp)"
  using assms by (simp add: send_inv_def send_core_def send_start_def cur_truesize_def)

lemma send_run_result:
  fixes pf k ps tp
  assumes env: "send_env K D g" and nb: "nonblocking D" and msg: "msg \<noteq> []" and n: "6 * length msg + 6 \<le> n"
  defines "s0 \<equiv> send_start msg pf k ps tp"
  obtains pc s where "send_run n K D g (LoopHead, s0) = Some (pc, s)" "send_inv K D g msg s0 (pc, s)"
    "pc = Out \<or> (\<exists>e. pc = DoError e)"
proof -
  have inv: "send_inv K D g msg s0 (LoopHead, s0)" unfolding s0_def by (rule send_start_inv [OF msg])
  have "send_rank (LoopHead, s0) < n" using n by (simp add: send_rank_def s0_def send_start_def)
  then obtain pc s where r: "send_run n K D g (LoopHead, s0) = Some (pc, s)"
    using send_run_ends [OF env _ inv] nb by (metis nonblocking_def surj_pair)
  from send_run_inv [OF env inv r] have "send_inv K D g msg s0 (pc, s)" "pc = Out \<or> (\<exists>e. pc = DoError e)"
    by (auto simp: send_ended_def split: send_pc.splits)
  with r that show ?thesis by blast
qed

fun going_well :: "send_pc \<Rightarrow> bool" where
  "going_well WaitForSpace = False"
| "going_well (DoError e) = False"
| "going_well _ = True"

lemma send_step_supplied:
  assumes env: "send_env K D g" and inv: "send_inv K D g msg s0 c" and sup: "supplied D" and pc: "going_well (fst c)"
  shows "going_well (fst (send_step K D g c))"
proof -
  obtain pc s where c: "c = (pc, s)" by (cases c)
  have S: "sd_mem_free D t" "sd_alloc D t \<noteq> None" "sd_copy D t = 0" "sd_sched_copy D t n"
    "\<exists>p o1 z. sd_refill D t pf = Some (p, o1, z) \<and> o1 < z" for t n pf
    using sup unfolding supplied_def by blast+
  show ?thesis
  proof (cases pc)
    case LoopHead
    with c show ?thesis by (simp add: send_step_def send_loop_head_def Let_def split: list.split)
  next
    case NewSegment
    with c S(1,2) [of "sn_tick s"] show ?thesis
      by (auto simp: send_step_def send_new_segment_def)
  next
    case TryAppend
    with inv c have "send_core K D g msg s0 s" "append_ready K g s" by (simp_all add: send_inv_def)
    then have "0 < sn_copy s" "sn_left s \<noteq> []" by (simp_all add: append_ready_def send_core_def)
    moreover obtain p o1 z where "sd_refill D (sn_tick s) (sn_pfrag s) = Some (p, o1, z)" "o1 < z" using S(5) by blast
    ultimately show ?thesis
      using c TryAppend S(3,4) [of "sn_tick s"]
      by (auto simp: send_step_def send_append_def Let_def min_def split: prod.split)
  qed (use pc c in \<open>simp_all add: send_step_def\<close>)
qed

lemma send_run_supplied:
  "send_env K D g \<Longrightarrow> send_inv K D g msg s0 c \<Longrightarrow> supplied D \<Longrightarrow> going_well (fst c) \<Longrightarrow>
     send_run n K D g c = Some (pc, s) \<Longrightarrow> pc = Out"
proof (induction n arbitrary: c)
  case 0
  then show ?case by (cases c) (auto simp: send_run.simps [of 0] send_ended_def split: if_splits send_pc.splits)
next
  case (Suc n)
  show ?case
  proof (cases "send_ended c")
    case True
    with Suc.prems(4,5) show ?thesis
      by (cases c) (auto simp: send_run.simps [of "Suc n"] send_ended_def split: send_pc.splits)
  next
    case False
    with Suc.prems(5) have "send_run n K D g (send_step K D g c) = Some (pc, s)"
      by (simp add: send_run.simps [of "Suc n"])
    then show ?thesis
      by (rule Suc.IH [OF Suc.prems(1) send_step_inv [OF Suc.prems(1,2)] Suc.prems(3)
            send_step_supplied [OF Suc.prems(1-4)]])
  qed
qed

text \<open>
  C19. Copying a message ends: after at most \<open>6 n + 6\<close> steps for \<open>n\<close> bytes the copy loop of
  \<open>rakaia_sendmsg\<close> has either put the whole message, in order, behind what the accumulation
  queue held, with the memory accounts as before the call, or failed with the accumulation
  queue untouched and the accounts raised by the buffers it had built.
\<close>

theorem send_copies_whole_or_nothing:
  assumes "send_env K D g" "nonblocking D" "msg \<noteq> []" "6 * length msg + 6 \<le> n"
  shows "\<exists>pc s. send_run n K D g (LoopHead, send_start msg pf k ps tp) = Some (pc, s) \<and>
    (if pc = Out
     then sn_copied s = int (length msg) \<and> sn_wmem s = k_wmem_queued k \<and> sn_charge s = k_mem_charged k \<and>
       (\<exists>skbs. sn_wait s = p_tx_wait_queue ps @ skbs \<and> concat (map tx_data skbs) = msg \<and> counted skbs)
     else (\<exists>e. pc = DoError e) \<and> sn_wait s = p_tx_wait_queue ps \<and>
       sn_wmem s = k_wmem_queued k + cur_truesize s \<and> sn_charge s = k_mem_charged k + cur_truesize s)"
proof -
  obtain pc s where r: "send_run n K D g (LoopHead, send_start msg pf k ps tp) = Some (pc, s)"
    "send_inv K D g msg (send_start msg pf k ps tp) (pc, s)" "pc = Out \<or> (\<exists>e. pc = DoError e)"
    by (rule send_run_result [OF assms])
  show ?thesis
  proof (cases "pc = Out")
    case True
    with r(2) have "sent_whole msg (send_start msg pf k ps tp) s" by (simp add: send_inv_def)
    with r(1) True show ?thesis
      by (auto simp: sent_whole_def send_start_def counted_def list_all_iff)
  next
    case False
    with r(2) have "send_core K D g msg (send_start msg pf k ps tp) s" by (simp add: send_inv_def)
    with r(1,3) False show ?thesis by (auto simp: send_core_def send_start_def)
  qed
qed

definition plenty :: send_kernel where
  "plenty =
     \<lparr>sd_mem_free = (\<lambda>_. True), sd_alloc = (\<lambda>_. Some 1280), sd_sched_new = (\<lambda>_. True),
      sd_refill = (\<lambda>_ (p, o1, z). Some (if o1 < z then (p, o1, z) else (Suc p, 0, 32768))),
      sd_sched_copy = (\<lambda>_ _. True), sd_copy = (\<lambda>_. 0), sd_wait = (\<lambda>_. - EAGAIN), sd_max_frags = 17\<rparr>"

definition sample_kernel :: tcp_kernel where
  "sample_kernel =
     \<lparr>tk_current_mss = (\<lambda>_. 1448), tk_bound_to_half_wnd = (\<lambda>_ n. n), tk_wmem_schedule = (\<lambda>_ _. True),
      tk_forced_mem_schedule = (\<lambda>_ tp. tp), tk_sysctl_wmem0 = 4096, tk_alloc_skb = (\<lambda>_. None),
      tk_memory_pressure = (\<lambda>tp. tp),
      tk_mark_push = (\<lambda>tp skb. (tp, skb\<lparr>tx_tcp_flags := tx_tcp_flags skb OR TCPHDR_PSH\<rparr>)),
      tk_push_pending = (\<lambda>_ _ tp. tp\<lparr>ts_write_queue := []\<rparr>), tk_sock_tx_flags = (\<lambda>_ f. f),
      tk_chrono_stop = (\<lambda>tp. tp), tk_rate_check = (\<lambda>tp. tp), tk_passive_fastopen = (\<lambda>_. False),
      tk_wait_connect = (\<lambda>_. 0), tk_flush_backlog = (\<lambda>tp. tp), tk_rtx_queue_empty = (\<lambda>_. True),
      tk_sysctl_autocorking = False, tk_wmem_alloc = (\<lambda>_. 0), tk_can_collapse_to = (\<lambda>_. True)\<rparr>"

lemma plenty_ok: "supplied plenty" "nonblocking plenty" "refill_ok plenty" "sd_max_frags plenty = 17"
proof -
  show "supplied plenty" by (auto simp: supplied_def plenty_def)
  show "refill_ok plenty" unfolding refill_ok_def by (auto simp: plenty_def split: if_splits)
qed (simp_all add: nonblocking_def plenty_def)

lemma sample_kernel_ok: "tx_kernel_ok sample_kernel" "mark_push_ok sample_kernel"
proof -
  have "keeps (\<lambda>tp. tp\<lparr>ts_write_queue := []\<rparr>)"
    unfolding keeps_def by (auto intro!: exI [of _ "length (ts_write_queue _)"])
  then show "tx_kernel_ok sample_kernel" using keeps_id by (auto simp: tx_kernel_ok_def sample_kernel_def)
  then show "mark_push_ok sample_kernel" by (rule tx_kernel_okD)
qed

lemma sample_env: "0 < g \<Longrightarrow> g < 2 ^ 32 \<Longrightarrow> send_env sample_kernel plenty g"
  by (simp add: send_env_def plenty_ok sample_kernel_ok)

theorem send_copies_whole_or_nothing_witness:
  "\<exists>s skbs. send_run 18 sample_kernel plenty 1448
      (LoopHead, send_start [1, 2] (0, 0, 0) (new_rakaia_sock 0 4096) zero_psock sample_tcp) = Some (Out, s) \<and>
    sn_copied s = 2 \<and> sn_wait s = skbs \<and> concat (map tx_data skbs) = [1, 2]"
proof -
  let ?s0 = "send_start [1, 2] (0, 0, 0) (new_rakaia_sock 0 4096) zero_psock sample_tcp"
  note env = sample_env [of 1448, simplified]
  from send_copies_whole_or_nothing [OF env plenty_ok(2), of "[1, 2]" 18 "(0, 0, 0)"
      "new_rakaia_sock 0 4096" zero_psock sample_tcp]
  obtain pc s where r: "send_run 18 sample_kernel plenty 1448 (LoopHead, ?s0) = Some (pc, s)"
    "pc = Out \<Longrightarrow> sn_copied s = 2 \<and> (\<exists>skbs. sn_wait s = skbs \<and> concat (map tx_data skbs) = [1, 2])"
    by (auto simp: zero_psock_def split: if_splits)
  have "pc = Out"
    by (rule send_run_supplied [OF env send_start_inv plenty_ok(1) _ r(1)]) simp_all
  with r show ?thesis by auto
qed

section \<open>More fuel changes nothing\<close>







section \<open>Sending\<close>














end
