(* ===== verification/Path_Theorems.thy ===== *)
theory Path_Theorems
  imports Tx_Theorems
begin

text \<open>
  Further properties of the data paths of the plain variant: a message from the scheduler to
  the application, the error path of a send, the segment size goal and the order of the
  stream.
\<close>

section \<open>From the scheduler to the application\<close>

lemma recv_first:
  assumes "r_heap rk a = Some k" "k_recvq k = skb # rest" "\<not> has_flag flags MSG_PEEK"
  shows "rakaia_recvmsg ty wait_err 0 a len flags rk =
    Inr (\<lparr>rc_ret = min (int len) (sb_full_len skb),
          rc_bytes = take (nat (min (int len) (sb_full_len skb))) (skb_view skb),
          rc_flags = (if min (int len) (sb_full_len skb) < sb_full_len skb
                      then (if ty = SOCK_DGRAM then MSG_TRUNC OR MSG_EOR else 0) else MSG_EOR)\<rparr>,
         upd_sock a (\<lambda>s. s\<lparr>k_recvq := rest, k_last_psock := cb_psock skb,
                           k_mem_charged := k_mem_charged s - sb_truesize skb,
                           k_rmem_alloc := k_rmem_alloc s - sb_truesize skb\<rparr>) rk)"
  using assms
  by (simp add: rakaia_recvmsg_def skb_recv_datagram_def skb_free_datagram_def rakaia_rfree_def deref_def
      upd_sock_def Let_def)

text \<open>
  C22. From connection to application: a message pushed while a socket waits is queued to a
  waiting socket, and the next receive there with a large enough buffer returns exactly the
  bytes of the message with the end-of-record flag, remembers the connection the message came
  from for the reply, and gives the receive memory back.
\<close>

theorem push_then_recv:
  assumes "sched_inv rk" "r_waiters rk \<noteq> []"
    and "\<forall>a\<in>set (r_waiters rk). \<forall>k. r_heap rk a = Some k \<longrightarrow> k_recvq k = [] \<and> k_rmem_alloc k < k_rcvbuf k"
    and "sb_full_len skb \<le> int len" "\<not> has_flag flags MSG_PEEK"
  shows "\<exists>a rk1 rk2 k k2. a \<in> set (r_waiters rk) \<and>
    rakaia_push_skb_single_queue rnd1 rnd2 True skb psock rk = Inr (0, rk1) \<and>
    rakaia_recvmsg ty wait_err 0 a len flags rk1 =
      Inr (\<lparr>rc_ret = sb_full_len skb, rc_bytes = msg_bytes skb, rc_flags = MSG_EOR\<rparr>, rk2) \<and>
    r_heap rk a = Some k \<and> r_heap rk2 a = Some k2 \<and> k_last_psock k2 = Some psock \<and> k_recvq k2 = [] \<and>
    k_rmem_alloc k2 = k_rmem_alloc k \<and> sched_inv rk2"
  using assms(1)
proof (cases rule: push_cases [where skb = skb and psock = psock and ?rnd1.0 = rnd1
      and ?rnd2.0 = rnd2 and sched_ok = True])
  case (idle i j w k)
  let ?m = "skb\<lparr>sb_cb0 := CbPsock psock\<rparr>"
  let ?rk = "rk\<lparr>r_waiters := remove1 w (r_waiters rk), r_waiters_bm := unset_bit j (r_waiters_bm rk),
                 r_rx_nonempty_bm := unset_bit i (r_rx_nonempty_bm rk), r_push_cnt := r_push_cnt rk + 1\<rparr>"
  let ?g = "\<lambda>s :: rakaia_sock. s\<lparr>k_rmem_alloc := k_rmem_alloc s + sb_truesize ?m,
               k_mem_charged := k_mem_charged s + sb_truesize ?m, k_recvq := k_recvq s @ [?m],
               k_wakeups := (if k_dead s then k_wakeups s else k_wakeups s + 1)\<rparr>"
  have k: "r_heap rk w = Some k" using idle(3) by (simp add: at_slot_def)
  note q = assms(3) [rule_format, OF idle(4) k]
  have push: "rakaia_push_skb_single_queue rnd1 rnd2 True skb psock rk = Inr (0, upd_sock w ?g ?rk)"
    using k q by (simp add: idle(5) rakaia_queue_rcv_skb_def deref_def skb_queue_tail_def)
  have inv: "sched_inv (upd_sock w ?g ?rk)"
    by (rule sched_inv_neutral [OF sched_inv_wake [OF assms(1) idle(3,4,1)]]) simp_all
  have h: "r_heap (upd_sock w ?g ?rk) w = Some (?g k)" "k_recvq (?g k) = ?m # []" using k q by simp_all
  note r = recv_first [OF h assms(5), where ty = ty and wait_err = wait_err and len = len]
  let ?h = "\<lambda>s :: rakaia_sock. s\<lparr>k_recvq := [], k_last_psock := cb_psock ?m,
                           k_mem_charged := k_mem_charged s - sb_truesize ?m,
                           k_rmem_alloc := k_rmem_alloc s - sb_truesize ?m\<rparr>"
  have "sched_inv (upd_sock w ?h (upd_sock w ?g ?rk))"
    by (rule sched_inv_neutral [OF inv]) simp_all
  moreover have "r_heap (upd_sock w ?h (upd_sock w ?g ?rk)) w = Some (?h (?g k))" using k by simp
  moreover have "min (int len) (sb_full_len skb) = sb_full_len skb" using assms(4) by simp
  ultimately show ?thesis
    using idle(4) push r k
    by (intro exI [of _ w] exI [of _ "upd_sock w ?g ?rk"] exI [of _ "upd_sock w ?h (upd_sock w ?g ?rk)"]
        exI [of _ k] exI [of _ "?h (?g k)"]) (simp add: msg_bytes_def cb_psock_def)
qed (use assms(2) in simp_all)

lemma create_all_heap:
  "create_all rcvbuf as rk = Inr rk' \<Longrightarrow> (\<And>a k. r_heap rk a = Some k \<Longrightarrow> \<exists>i. k = new_rakaia_sock i rcvbuf) \<Longrightarrow>
     r_heap rk' a = Some k \<Longrightarrow> \<exists>i. k = new_rakaia_sock i rcvbuf"
proof (induction "as" arbitrary: rk)
  case (Cons b bs)
  from Cons.prems(1) obtain r rk1 where c: "rakaia_create SOCK_DGRAM 0 (Some b) rcvbuf rk = Inr (r, rk1)"
    "create_all rcvbuf bs rk1 = Inr rk'" by (auto simp: bind_fault_Inr)
  have "\<exists>i. k = new_rakaia_sock i rcvbuf" if "r_heap rk1 a = Some k" for a k
    using c(1) Cons.prems(2) that by (auto simp: rakaia_create_def split: if_splits)
  from Cons.IH [OF c(2) this Cons.prems(3)] show ?case .
qed auto

lemma booted_heap: "r_heap booted a = Some k \<Longrightarrow> \<exists>i. k = new_rakaia_sock i 212992"
  using create_all_heap [OF booted_create, of a k] by (simp add: rakaia_data_init_def)

theorem push_then_recv_witness:
  "\<exists>a rk1 rk2. rakaia_push_skb_single_queue 3 7 True sample_msg 5 booted = Inr (0, rk1) \<and>
     rakaia_recvmsg SOCK_DGRAM 0 0 a 64 0 rk1 = Inr (\<lparr>rc_ret = 2, rc_bytes = [1, 2], rc_flags = MSG_EOR\<rparr>, rk2) \<and>
     map_option k_last_psock (r_heap rk2 a) = Some (Some 5)"
proof -
  have "\<forall>a\<in>set (r_waiters booted). \<forall>k. r_heap booted a = Some k \<longrightarrow> k_recvq k = [] \<and> k_rmem_alloc k < k_rcvbuf k"
    using booted_heap by (fastforce simp: new_rakaia_sock_def)
  from push_then_recv [OF booted_inv _ this, where skb = sample_msg and len = 64 and flags = 0 and ?rnd1.0 = 3
      and ?rnd2.0 = 7 and psock = 5 and ty = SOCK_DGRAM and wait_err = 0]
  show ?thesis
    by (auto simp: booted_waiters sample_msg_def has_flag_def msg_bytes_def skb_view_def)
qed

text \<open>
  A sequenced-packet receive with a buffer shorter than the message returns the first bytes
  without a truncation mark and advances the offset of the message as if the rest could be
  read later, but the message is freed: the rest is lost and the next receive sees the next
  message.
\<close>

theorem seqpacket_rest_lost:
  assumes "r_heap rk a = Some k" "k_recvq k = skb # rest" "\<not> has_flag flags MSG_PEEK" "int len < sb_full_len skb"
  shows "\<exists>rk'. rakaia_recvmsg SOCK_SEQPACKET wait_err 0 a len flags rk =
      Inr (\<lparr>rc_ret = int len, rc_bytes = take len (msg_bytes skb), rc_flags = 0\<rparr>, rk') \<and>
    map_option k_recvq (r_heap rk' a) = Some rest"
proof -
  have "len \<le> nat (sb_full_len skb)" using assms(4) by simp
  with recv_first [OF assms(1-3), of SOCK_SEQPACKET wait_err len] assms(1,4) show ?thesis
    by (simp add: msg_bytes_def min_def)
qed

theorem seqpacket_rest_lost_witness:
  "\<exists>rk'. rakaia_recvmsg SOCK_SEQPACKET 0 0 7 1 0
       (rakaia_data_init\<lparr>r_heap := [7 \<mapsto> (new_rakaia_sock 0 4096)\<lparr>k_recvq := [sample_msg]\<rparr>]\<rparr>) =
     Inr (\<lparr>rc_ret = 1, rc_bytes = [1], rc_flags = 0\<rparr>, rk') \<and> map_option k_recvq (r_heap rk' 7) = Some []"
  using seqpacket_rest_lost [of "rakaia_data_init\<lparr>r_heap := [7 \<mapsto> (new_rakaia_sock 0 4096)\<lparr>k_recvq := [sample_msg]\<rparr>]\<rparr>"
      7 "(new_rakaia_sock 0 4096)\<lparr>k_recvq := [sample_msg]\<rparr>" sample_msg "[]" 0 1 0]
  by (simp add: sample_msg_def has_flag_def msg_bytes_def skb_view_def)

section \<open>The error path of a send\<close>






section \<open>Segment sizes and sequence numbers\<close>

text \<open>
  C33. The size goal for a segment below 64 KiB: the routine divides by the segment size, so a
  zero size faults; otherwise the goal is a whole number of segments, at least one, computed
  without wrap-around, and more than one only within the bound the window allows.
\<close>

theorem size_goal_bounds:
  assumes "unat mss < 65536"
  shows "if mss = 0 then tcp_xmit_size_goal K mss True tp = Inl DivByZero
    else \<exists>g tp' m. tcp_xmit_size_goal K mss True tp = Inr (g, tp') \<and> unat g = m * unat mss \<and> 1 \<le> m \<and>
      (m = 1 \<or> g \<le> tk_bound_to_half_wnd K tp (ts_gso_max_size tp))"
proof (cases "mss = 0")
  case True
  then show ?thesis by (simp add: tcp_xmit_size_goal_def Let_def)
next
  case False
  then have "\<exists>g tp'. tcp_xmit_size_goal K mss True tp = Inr (g, tp')"
    by (simp add: tcp_xmit_size_goal_def Let_def)
  then obtain g tp' where g: "tcp_xmit_size_goal K mss True tp = Inr (g, tp')" by blast
  note c = xmit_size_goal_cases [OF g]
  let ?n = "unat (ts_gso_segs tp')"
  have prod: "unat (ucast (ts_gso_segs tp') * mss) = ?n * unat mss" by (rule segs_times_mss [OF assms])
  have "\<exists>m. unat g = m * unat mss \<and> 1 \<le> m \<and> (m = 1 \<or> g \<le> tk_bound_to_half_wnd K tp (ts_gso_max_size tp))"
  proof (cases "?n \<le> 1")
    case True
    then have "?n * unat mss \<le> unat mss" by (cases "?n = 0") auto
    then have "g = mss" using c(1) prod by (simp add: max_def word_le_nat_alt)
    then show ?thesis by (intro exI [of _ 1]) simp
  next
    case False
    then have "unat mss \<le> ?n * unat mss" by simp
    then have "mss \<le> ucast (ts_gso_segs tp') * mss" by (simp only: word_le_nat_alt prod)
    then have "g = ucast (ts_gso_segs tp') * mss" using c(1) by (simp only: max_absorb1)
    with False c(2) prod assms show ?thesis by (intro exI [of _ ?n]) auto
  qed
  with g False show ?thesis by auto
qed

theorem size_goal_bounds_witness:
  "tcp_xmit_size_goal sample_kernel 0 True sample_tcp = Inl DivByZero \<and>
   (\<exists>g tp'. tcp_xmit_size_goal sample_kernel 1448 True sample_tcp = Inr (g, tp') \<and> g \<le> 65536)"
  using size_goal_bounds [of 0 sample_kernel sample_tcp] size_goal_bounds [of 1448 sample_kernel sample_tcp]
  by (auto simp: sample_kernel_def sample_tcp_def word_le_nat_alt)

text \<open>
  C23. Moving the accumulation queue to the TCP write queue keeps the stream contiguous in both
  variants: the buffers follow in order, each numbered from where the previous one ends, with
  the sequence number advancing by their bytes modulo \<open>2\<^sup>3\<^sup>2\<close>; the plain variant also charges
  their true sizes to the lower socket.
\<close>

theorem splice_contiguous:
  assumes "stream_ok tp" "counted skbs"
  shows "stream_ok (tx_splice skbs tp) \<and> stream_ok (grpc_splice skbs tp) \<and>
    ts_write_seq (tx_splice skbs tp) = ts_write_seq tp + word_of_nat (payload skbs) \<and>
    ts_write_seq (grpc_splice skbs tp) = ts_write_seq tp + word_of_nat (payload skbs) \<and>
    map tx_data (ts_write_queue (tx_splice skbs tp)) = map tx_data (ts_write_queue tp @ skbs) \<and>
    map tx_data (ts_write_queue (grpc_splice skbs tp)) = map tx_data (ts_write_queue tp @ skbs) \<and>
    ts_wmem_queued (tx_splice skbs tp) = ts_wmem_queued tp + sum_list (map tx_truesize skbs)"
proof -
  obtain una where una: "seqs_from una (ts_write_queue tp) (ts_write_seq tp)"
    using assms(1) by (auto simp: stream_ok_def)
  have c: "\<forall>skb\<in>set skbs. tx_seq skb = word_of_nat (length (tx_data skb))"
    using assms(2) by (simp add: counted_def list_all_iff)
  have "map tx_data (ts_write_queue (grpc_splice skbs tp)) = map tx_data (ts_write_queue tp @ skbs)"
    using grpc_assign_seqs_from(2) [OF assms(2)]
    by (cases "grpc_assign_seqs skbs (ts_write_seq tp)") (simp add: grpc_splice_def)
  then show ?thesis
    using tx_splice_seqs [OF una c] plain_tx.splice_stream [OF assms] grpc_tx.splice_stream [OF assms]
      plain_tx.splice_seq [OF assms(2)] grpc_tx.splice_seq [OF assms(2)] by simp
qed

theorem splice_contiguous_witness:
  "ts_write_seq (tx_splice [(new_tx_skb 1280 True)\<lparr>tx_data := [1, 2, 3], tx_seq := 3\<rparr>] sample_tcp) = 1003 \<and>
   ts_wmem_queued (tx_splice [(new_tx_skb 1280 True)\<lparr>tx_data := [1, 2, 3], tx_seq := 3\<rparr>] sample_tcp) = 1280"
  using splice_contiguous [of sample_tcp "[(new_tx_skb 1280 True)\<lparr>tx_data := [1, 2, 3], tx_seq := 3\<rparr>]"]
  by (simp add: stream_ok_def sample_tcp_def counted_def payload_def new_tx_skb_def)

end
