(* ===== verification/Strp_Heads.thy ===== *)
theory Strp_Heads
  imports Framing
begin

text \<open>
  Which heads the stream parser delivers. The locale \<open>strp_heads\<close> has a property \<open>P\<close> that the
  parse callback establishes when it reads the length and that appending keeps; every head the
  engine delivers then has it. The proof compares a run with the run of a second client that
  differs only in what it does with the messages, for example one that logs them.
\<close>

section \<open>Two clients of the engine\<close>

definition head_ok :: "('a sk_buff_scheme \<Rightarrow> bool) \<Rightarrow> 'a strparser \<Rightarrow> bool" where
  "head_ok P s \<longleftrightarrow> (case sp_head s of None \<Rightarrow> True | Some h \<Rightarrow> sb_full_len h = 0 \<or> P h)"

definition same_rx :: "('u \<Rightarrow> 'v \<Rightarrow> bool) \<Rightarrow> ('a, 'u) rx \<Rightarrow> ('a, 'v) rx \<Rightarrow> bool" where
  "same_rx R r r' \<longleftrightarrow>
     rx_strp r' = rx_strp r \<and> rx_error r' = rx_error r \<and> rx_count r' = rx_count r \<and> R (rx_up r) (rx_up r')"

definition same_step :: "(('a, 'u) rx \<Rightarrow> ('a, 'v) rx \<Rightarrow> bool) \<Rightarrow> ('a, 'u) strp_step \<Rightarrow> ('a, 'v) strp_step \<Rightarrow> bool" where
  "same_step S x y \<longleftrightarrow>
     (case (x, y) of (Stop r e, Stop r' e') \<Rightarrow> S r r' \<and> e' = e | (Again r e, Again r' e') \<Rightarrow> S r r' \<and> e' = e | _ \<Rightarrow> False)"

text \<open>What the kernel promises of a wrapped head: its control block is copied.\<close>

definition wrap_keeps :: "('a sk_buff_scheme \<Rightarrow> bool) \<Rightarrow> 'a strp_kernel \<Rightarrow> bool" where
  "wrap_keeps P K \<longleftrightarrow>
     (\<forall>h c. k_alloc_for_msg K h = Some c \<longrightarrow> (P h \<longrightarrow> P c) \<and> (sb_full_len h = 0 \<longrightarrow> sb_full_len c = 0))"

locale strp_heads =
  fixes H :: "('a, 'u) strp_hooks" and H' :: "('a, 'v) strp_hooks"
    and P :: "'a sk_buff_scheme \<Rightarrow> bool" and R :: "'u \<Rightarrow> 'v \<Rightarrow> bool"
  assumes same_parse: "h_parse H' = h_parse H" and same_clear: "h_clear H' = h_clear H"
    and abort: "h_abort H = strp_abort_strp" "h_abort H' = strp_abort_strp"
    and clear: "sb_full_len (h_clear H h) = 0"
    and parse_zero: "h_parse H h = (h', 0) \<Longrightarrow> sb_full_len h = 0 \<Longrightarrow> sb_full_len h' = 0"
    and parse_P: "h_parse H h = (h', n) \<Longrightarrow> 0 < n \<Longrightarrow> P (h'\<lparr>sb_full_len := n\<rparr>)"
    and grow_P: "P h \<Longrightarrow> P (h\<lparr>sb_bytes := sb_bytes h @ bs, sb_frag_list := b, sb_data_len := d, sb_len := l,
                            sb_truesize := t\<rparr>)"
    and accum_P: "P h \<Longrightarrow> P (h\<lparr>sb_accum_len := n\<rparr>)"
    and deliver: "P h \<Longrightarrow> R u v \<Longrightarrow>
      R (fst (h_deliver H h u)) (fst (h_deliver H' h v)) \<and> snd (h_deliver H' h v) = snd (h_deliver H h u)"
begin

definition related :: "('a, 'u) rx \<Rightarrow> ('a, 'v) rx \<Rightarrow> bool" where
  "related r r' \<longleftrightarrow> same_rx R r r' \<and> head_ok P (rx_strp r)"

lemma related_prepare:
  assumes "related r r'" "wrap_keeps P K"
  shows "case (strp_prepare K r orig off, strp_prepare K r' orig off) of
     (Inl r1, Inl r1') \<Rightarrow> related r1 r1'
   | (Inr (r1, o1, f1), Inr (r1', o1', f1')) \<Rightarrow> related r1 r1' \<and> o1' = o1 \<and> f1' = f1
   | _ \<Rightarrow> False"
  using assms
  by (auto simp: related_def same_rx_def head_ok_def strp_prepare_def mem_fail_def wrap_keeps_def
      split: option.splits prod.splits)

lemma related_attach:
  assumes "related r r'"
  shows "case (strp_attach H K i r skb off eaten, strp_attach H' K i r' skb off eaten) of
     (Inl r1, Inl r1') \<Rightarrow> related r1 r1'
   | (Inr (r1, h), Inr (r1', h')) \<Rightarrow> related r1 r1' \<and> h' = h \<and> (sb_full_len h = 0 \<or> P h)
   | _ \<Rightarrow> False"
  using assms clear grow_P
  by (auto simp: related_def same_rx_def head_ok_def strp_attach_def mem_fail_def same_clear Let_def
      split: option.splits)

lemma related_length:
  assumes "related r r'" "sb_full_len h = 0 \<or> P h"
  shows "case (strp_length H mx timeo r h skb cl, strp_length H' mx timeo r' h skb cl) of
     (Inl (r1, n), Inl (r1', n')) \<Rightarrow> related r1 r1' \<and> n' = n
   | (Inr (r1, h1), Inr (r1', h1')) \<Rightarrow> related r1 r1' \<and> h1' = h1 \<and> P h1
   | _ \<Rightarrow> False"
  using assms parse_zero parse_P
  by (auto simp: related_def same_rx_def head_ok_def strp_length_def same_parse abort strp_parser_err_def
      strp_abort_strp_def strp_set_head_def strp_bump_def strp_msg_timer_def strp_start_timer_def Let_def
      split: option.splits prod.splits)

lemma related_complete:
  assumes "related r r'" "P h"
  shows "same_step related (strp_complete H peek timeo r h cl eaten) (strp_complete H' peek timeo r' h cl eaten)"
  using assms accum_P [OF assms(2)] deliver [OF assms(2), of "rx_up r" "rx_up r'"]
  by (auto simp: same_step_def related_def same_rx_def head_ok_def strp_complete_def
      strp_set_head_def strp_bump_def strp_msg_timer_def strp_start_timer_def Let_def)

lemma related_round:
  assumes "related r r'"
  shows "same_step related (strp_round H K mx timeo orig off len i eaten r) (strp_round H' K mx timeo orig off len i eaten r')"
proof (cases "k_clone K i orig")
  case None
  with assms show ?thesis
    by (simp add: strp_round_def same_step_def related_def same_rx_def head_ok_def mem_fail_def)
next
  case (Some skb)
  let ?cl = "len - eaten"
  note a = related_attach [OF assms, of K i skb off eaten]
  show ?thesis
  proof (cases "strp_attach H K i r skb off eaten")
    case (Inl r1)
    with a Some show ?thesis
      by (auto simp: strp_round_def same_step_def split: sum.splits)
  next
    case (Inr x)
    then obtain r1 h where x: "strp_attach H K i r skb off eaten = Inr (r1, h)" by (cases x) auto
    with a obtain r1' where y: "strp_attach H' K i r' skb off eaten = Inr (r1', h)" "related r1 r1'"
      "sb_full_len h = 0 \<or> P h" by (auto split: sum.splits)
    note l = related_length [OF y(2,3), of mx timeo skb ?cl]
    show ?thesis
    proof (cases "strp_length H mx timeo r1 h skb ?cl")
      case (Inl z)
      with l Some x y(1) show ?thesis
        by (auto simp: strp_round_def same_step_def Let_def split: sum.splits)
    next
      case (Inr z)
      then obtain r2 h2 where z: "strp_length H mx timeo r1 h skb ?cl = Inr (r2, h2)" by (cases z) auto
      with l obtain r2' where w: "strp_length H' mx timeo r1' h skb ?cl = Inr (r2', h2)" "related r2 r2'" "P h2"
        by (auto split: sum.splits)
      from related_complete [OF w(2,3)] Some x y(1) z w(1) show ?thesis
        by (simp add: strp_round_def Let_def)
    qed
  qed
qed

lemma related_loop:
  "related r r' \<Longrightarrow> strp_loop n H K mx timeo orig off len i eaten r = Some (r1, e) \<Longrightarrow>
     \<exists>r1'. strp_loop n H' K mx timeo orig off len i eaten r' = Some (r1', e) \<and> related r1 r1'"
proof (induction n arbitrary: i eaten r r')
  case (Suc n)
  note rd = related_round [OF Suc.prems(1), of K mx timeo orig off len i eaten]
  show ?case
  proof (cases "eaten < len")
    case True
    with Suc.prems(2) rd Suc.IH show ?thesis
      by (cases "strp_round H K mx timeo orig off len i eaten r";
          cases "strp_round H' K mx timeo orig off len i eaten r'") (auto simp: same_step_def)
  next
    case False
    with Suc.prems show ?thesis by simp
  qed
qed simp

lemma related_recv:
  assumes "related r r'" "wrap_keeps P K" "strp_recv_desc H K mx timeo r orig off len = Some (r1, e)"
  shows "\<exists>r1'. strp_recv_desc H' K mx timeo r' orig off len = Some (r1', e) \<and> related r1 r1'"
proof (cases "sp_paused (rx_strp r)")
  case True
  with assms(1,3) show ?thesis by (auto simp: strp_recv_desc_def related_def same_rx_def)
next
  case False
  then have p: "\<not> sp_paused (rx_strp r')" using assms(1) by (simp add: related_def same_rx_def)
  note prep = related_prepare [OF assms(1,2), of orig off]
  have bump: "related (strp_bump f x) (strp_bump f x')" if "related x x'" for f x x'
    using that by (simp add: related_def same_rx_def head_ok_def strp_bump_def)
  show ?thesis
  proof (cases "strp_prepare K r orig off")
    case (Inl r2)
    with assms(3) False prep p show ?thesis by (auto simp: strp_recv_desc_def split: sum.splits)
  next
    case (Inr x)
    then obtain r2 o2 f2 where x: "strp_prepare K r orig off = Inr (r2, o2, f2)" by (cases x) auto
    with prep obtain r2' where y: "strp_prepare K r' orig off = Inr (r2', o2, f2)" "related r2 r2'"
      by (auto split: sum.splits)
    from assms(3) False x obtain r3 where l: "strp_loop (nat len + 1) H K mx timeo o2 f2 len 0 0 r2 = Some (r3, e)"
      and r1: "r1 = strp_bump (\<lambda>st. st\<lparr>ss_bytes := ss_bytes st + word_of_int e\<rparr>) r3"
      by (auto simp: strp_recv_desc_def split: option.splits)
    from related_loop [OF y(2) l] obtain r3' where
      "strp_loop (nat len + 1) H' K mx timeo o2 f2 len 0 0 r2' = Some (r3', e)" "related r3 r3'" by blast
    with y(1) p r1 bump show ?thesis by (auto simp: strp_recv_desc_def)
  qed
qed

end

section \<open>A client that logs what it is given\<close>

definition log_hooks :: "('a, 'u) strp_hooks \<Rightarrow> ('a, 'u \<times> 'a sk_buff_scheme list) strp_hooks" where
  "log_hooks H =
     \<lparr>h_parse = h_parse H, h_clear = h_clear H,
      h_deliver = (\<lambda>h (u, hs). ((fst (h_deliver H h u), hs @ [h]), snd (h_deliver H h u))),
      h_abort = h_abort H, h_done = h_done H\<rparr>"

definition logged :: "('a sk_buff_scheme \<Rightarrow> bool) \<Rightarrow> 'u \<times> 'a sk_buff_scheme list \<Rightarrow> 'u \<Rightarrow> bool" where
  "logged P ul u \<longleftrightarrow> u = fst ul \<and> list_all P (snd ul)"

lemma log_deliver_all:
  "fold (\<lambda>h u. fst (h_deliver (log_hooks H) h u)) hs (u, l) =
     (fold (\<lambda>h u. fst (h_deliver H h u)) hs u, l @ hs)"
  by (induction hs arbitrary: u l) (simp_all add: log_hooks_def)

end
