(* ===== verification/Grpc_Theorems.thy ===== *)
theory Grpc_Theorems
  imports Strp_Heads Grpc_Sock Tx_Theorems
begin

text \<open>
  What the gRPC variant promises, from the bytes on the wire to the messages of each stream,
  the credit it returns to the peer, and what the application receives.
\<close>

section \<open>Frames on the wire\<close>













definition h2_frame :: "u8 \<Rightarrow> u8 \<Rightarrow> u8 \<Rightarrow> bytes \<Rightarrow> bytes" where
  "h2_frame ty flag sid body = [0, 0, word_of_nat (length body), ty, flag, 0, 0, 0, sid] @ body"

definition sample_answers :: h2_kernel where
  "sample_answers =
     \<lparr>hk_hash = (\<lambda>sid. unat sid mod 16), hk_alloc_stream = True, hk_alloc_ctrl = Some 768, hk_tailroom = 192,
      hk_linear = True, hk_stack = replicate 8 0\<rparr>"

definition sample_conn :: h2_conn where
  "sample_conn = zero_conn\<lparr>hc_recv_conn_window := 65535\<rparr>"






section \<open>Credit and control frames\<close>

text \<open>
  C8. Flow control conserves credit: after any sequence of frames the increments of the window
  updates queued to the peer plus the bytes not yet acknowledged have grown by exactly the
  payload bytes of the data frames (and of stream resets, which the code counts too), and
  what is not yet acknowledged stays below a quarter of the window.
\<close>

theorem credit_conserved:
  assumes "window_inv c" "ctrl_alloc_ok K" "length (hk_stack K) = 8" "\<forall>f\<in>set fs. h2_frame_ok f"
    and "h2_frames K fs c = Inr c'"
  shows "credit c' + hc_unacked c' = credit c + hc_unacked c + sum_list (map data_bytes fs) \<and> window_inv c'"
  using h2_frames_credit [OF assms] .

theorem credit_conserved_witness:
  "\<exists>c'. h2_frames sample_answers [(skb_of (h2_frame 0 0 1 [7]))\<lparr>sb_full_len := 10\<rparr>] (sample_conn\<lparr>hc_recv_conn_window := 4\<rparr>) = Inr c' \<and>
     credit c' = 1 \<and> hc_unacked c' = 0"
proof -
  let ?f = "(skb_of (h2_frame 0 0 1 [7]))\<lparr>sb_full_len := 10\<rparr>" and ?c = "sample_conn\<lparr>hc_recv_conn_window := 4\<rparr>"
  obtain c' where c': "h2_frames sample_answers [?f] ?c = Inr c'"
    by (auto simp: handle_h2_frame_def carries_stream_def skb_of_def case_prod_beta)
  have "credit c' + hc_unacked c' = 1" "window_inv c'"
    using credit_conserved [OF _ _ _ _ c'] 
    by (auto simp: window_inv_def ctrl_alloc_ok_def sample_answers_def h2_frame_ok_def sample_conn_def zero_conn_def
        credit_def data_bytes_def skb_of_def)
  moreover have "hc_recv_conn_window c' = 4"
    using c' by (auto simp: handle_h2_frame_def carries_stream_def skb_of_def case_prod_beta sample_conn_def
        stream_frame_keeps(2))
  ultimately show ?thesis using c' by (auto simp: window_inv_def)
qed

lemma window_update_parses:
  assumes "0 < inc" "inc < 2 ^ 31" "0 \<le> hc_send_quota c" "hc_send_quota c + inc < 2 ^ 31"
  shows "case parse_msg_http2 (skb_of (window_update_frame inc)) of (f, err) \<Rightarrow>
    err = 0 \<and> h2_type f = FRAME_TYPE_WINDOW_UPDATE \<and> h2_stream_id f = 0 \<and> sb_full_len f = 13 \<and>
    hc_send_quota (process_incoming_window_update f c) = hc_send_quota c + inc"
proof -
  let ?f = "(skb_of (window_update_frame inc))\<lparr>sb_full_len := 13, h2_type := FRAME_TYPE_WINDOW_UPDATE\<rparr>"
  have p: "parse_msg_http2 (skb_of (window_update_frame inc)) = (?f, 0)"
    using parse_window_update [of inc] by (simp add: prod_eq_iff)
  obtain p0 p1 p2 p3 where i: "inc_bytes inc = [p0, p1, p2, p3]" by (rule inc_bytes_four)
  define w where "w = be32 p0 p1 p2 p3"
  have w: "int (unat w) = inc" unfolding w_def by (rule inc_bytes_value [OF _ assms(2) i]) (use assms(1) in simp)
  define n where "n = unat w"
  have "int n = inc" using w by (simp only: n_def)
  then have "n < 2 ^ 31" "n \<noteq> 0" using assms(1,2) by auto
  then have lt: "unat w < 2 ^ 31" "unat w \<noteq> 0" unfolding n_def .
  have "w AND 0x7fffffff = take_bit 31 w" by (simp add: take_bit_eq_mask mask_eq_exp_minus_1)
  also have "\<dots> = w" using lt(1) by (simp add: word_unat_eq_iff unsigned_take_bit_eq take_bit_nat_eq_self)
  finally have m: "w AND 0x7fffffff = w" .
  have "skb_header_pointer ?f (sb_offset ?f + 9) 4 = Some [p0, p1, p2, p3]"
    by (simp add: skb_header_pointer_def skb_of_def window_update_frame_def i)
  moreover have "w \<noteq> 0" using lt(2) by auto
  moreover have "sint (word_of_int (hc_send_quota c) + w) = hc_send_quota c + inc"
  proof -
    have "uint w = inc" using w by simp
    then have "word_of_int (hc_send_quota c) + w = word_of_int (hc_send_quota c + inc)"
      by (metis wi_hom_add word_of_int_uint)
    then have "sint (word_of_int (hc_send_quota c) + w) = sint (word_of_int (hc_send_quota c + inc) :: u32)"
      by (simp only:)
    also have "\<dots> = hc_send_quota c + inc" unfolding int_word_sint using assms(1,3,4) by simp
    finally show ?thesis .
  qed
  ultimately have "hc_send_quota (process_incoming_window_update ?f c) = hc_send_quota c + inc"
    using m by (simp add: process_incoming_window_update_def Let_def w_def [symmetric] skb_of_def)
  then show ?thesis unfolding p by (simp add: skb_of_def)
qed

text \<open>
  C34. Encode and decode of a window update: the frame the module queues for an increment below
  \<open>2\<^sup>3\<^sup>1\<close> is parsed by the module's own parser as a window update for the connection, and
  handling it raises the send quota by exactly that increment as long as the quota fits its
  32 bits.
\<close>

theorem window_update_roundtrip:
  assumes "0 < inc" "inc < 2 ^ 31" "0 \<le> hc_send_quota c" "hc_send_quota c + inc < 2 ^ 31" "ctrl_alloc_ok K"
  shows "\<exists>skb'. hc_tx_wait_queue (send_window_update K inc sender) = hc_tx_wait_queue sender @ [skb'] \<and>
    (case parse_msg_http2 (skb_of (tx_data skb')) of (f, err) \<Rightarrow>
       err = 0 \<and> h2_type f = FRAME_TYPE_WINDOW_UPDATE \<and> h2_stream_id f = 0 \<and> sb_full_len f = 13 \<and>
       hc_send_quota (process_incoming_window_update f c) = hc_send_quota c + inc)"
  using window_update_parses [OF assms(1-4)] assms(5)
  by (auto simp: send_window_update_frame queue_ctrl_def ctrl_skb_def ctrl_alloc_ok_def)

theorem window_update_roundtrip_witness:
  "\<exists>skb'. hc_tx_wait_queue (send_window_update sample_answers 16384 sample_conn) = [skb'] \<and>
     hc_send_quota (process_incoming_window_update (fst (parse_msg_http2 (skb_of (tx_data skb')))) sample_conn) = 16384"
  using window_update_roundtrip [of 16384 sample_conn sample_answers sample_conn]
  by (auto simp: sample_conn_def zero_conn_def case_prod_beta ctrl_alloc_ok_def sample_answers_def)

text \<open>
  The acknowledgement of a ping echoes the eight payload bytes only when the payload is
  not in the linear part of the buffer; otherwise the eight bytes that happen to be in the
  local buffer on the stack are sent to the peer.
\<close>

theorem pingack_payload:
  assumes "skb_header_pointer skb (sb_offset skb + 9) 8 = Some pl" "length (hk_stack K) = 8" "ctrl_alloc_ok K"
  shows "\<exists>c' skb'. send_pingack K skb c = Inr c' \<and> hc_tx_wait_queue c' = hc_tx_wait_queue c @ [skb'] \<and>
    tx_data skb' = [0, 0, 8, 0x06, 0x01, 0, 0, 0, 0] @ (if hk_linear K then hk_stack K else pl)"
proof -
  have "length pl = 8" using assms(1) by (auto simp: skb_header_pointer_def split: if_splits)
  with assms show ?thesis
    by (auto simp: send_pingack_def ctrl_alloc_ok_def queue_ctrl_def ctrl_skb_def Let_def)
qed

theorem pingack_payload_witness:
  "\<exists>c' skb'. send_pingack sample_answers (skb_of (h2_frame 6 0 0 [1, 2, 3, 4, 5, 6, 7, 8])) sample_conn = Inr c' \<and>
     hc_tx_wait_queue c' = [skb'] \<and> drop 9 (tx_data skb') = replicate 8 0"
  using pingack_payload [of "skb_of (h2_frame 6 0 0 [1, 2, 3, 4, 5, 6, 7, 8])" "[1, 2, 3, 4, 5, 6, 7, 8]" sample_answers
      sample_conn]
  by (auto simp: skb_header_pointer_def skb_of_def h2_frame_def sample_answers_def ctrl_alloc_ok_def sample_conn_def
      zero_conn_def)

end
