(* ===== verification/Grpc_Paths.thy ===== *)
theory Grpc_Paths
  imports Grpc_Theorems
begin

text \<open>
  The socket side of the gRPC variant: what the application receives, what is sent, and the
  life cycle of a connection.
\<close>

section \<open>Receiving a message\<close>

text \<open>
  C21. A message that fits the user's buffer arrives whole: the receive call returns the sum of
  the frame lengths, the buffer holds the frames of the chain in order, byte for byte, out of
  whatever linear parts, fragments and buffer lists they lie in, the message is off the
  queue, each of its buffers is freed exactly once, and its connection is remembered.
\<close>

theorem grpc_recv_whole:
  assumes "gs_queue s = m # rest" "\<forall>p\<in>set (gm_head m # gm_chain m). part_ok p"
    and "length (parts_bytes (gm_head m # gm_chain m)) \<le> len" "len \<le> io_room it" "len \<le> io_good it"
    and "\<not> has_flag flags MSG_PEEK"
  shows "\<exists>res s'. grpc_recvmsg ty wait_err len flags it s = (res, s') \<and>
    gr_ret res = int (length (parts_bytes (gm_head m # gm_chain m))) \<and>
    io_out (gr_iter res) = io_out it @ parts_bytes (gm_head m # gm_chain m) \<and> gr_flags res = MSG_EOR \<and>
    gs_queue s' = rest \<and> gs_freed s' = gs_freed s @ gm_chain m @ [gm_head m] \<and> gs_last_psock s' = gm_psock m"
proof -
  let ?ps = "gm_head m # gm_chain m"
  have c: "skb_copy_datagram_msg_http2 0 ?ps it 0 = (0, wrote (parts_bytes ?ps) it, int (length (parts_bytes ?ps)))"
    using copy_http2_fits [OF assms(2), of it 0 0] assms(3-5) by simp
  show ?thesis
    using assms(1,3,6) c
    by (simp add: grpc_recvmsg_def clear_dontwait_peek [simplified] grpc_recv_datagram_def clear_next_def kfree_head_def
        rakaia_free_strp_chain_def recv_flags_def wrote_def Let_def del: skb_copy_datagram_msg_http2.simps)
qed

definition linear_part :: "bytes \<Rightarrow> h2_part" where
  "linear_part bs = \<lparr>hp_tree = Skb bs [] [], hp_offset = 0, hp_full_len = int (length bs)\<rparr>"

definition frag_part :: "bytes \<Rightarrow> bytes \<Rightarrow> bytes \<Rightarrow> h2_part" where
  "frag_part a b c = \<lparr>hp_tree = Skb a [b] [Skb c [] []], hp_offset = 1, hp_full_len = int (length a + length b + length c) - 1\<rparr>"

definition sample_gsock :: "h2_part list \<Rightarrow> grpc_sock" where
  "sample_gsock ps =
     \<lparr>gs_queue = [\<lparr>gm_psock = 5, gm_head = hd ps, gm_chain = tl ps\<rparr>], gs_last_psock = 0, gs_nonblock = True, gs_freed = []\<rparr>"

definition user_buffer :: "nat \<Rightarrow> nat \<Rightarrow> iov_iter" where
  "user_buffer room good = \<lparr>io_out = [], io_room = room, io_good = good\<rparr>"

theorem grpc_recv_whole_witness:
  "\<exists>res s'. grpc_recvmsg SOCK_DGRAM 0 16 0 (user_buffer 16 16) (sample_gsock [frag_part [9, 1] [2, 3] [4], linear_part [5, 6]]) = (res, s') \<and>
     gr_ret res = 6 \<and> io_out (gr_iter res) = [1, 2, 3, 4, 5, 6] \<and> gs_last_psock s' = 5"
  using grpc_recv_whole [of "sample_gsock [frag_part [9, 1] [2, 3] [4], linear_part [5, 6]]"
      "\<lparr>gm_psock = 5, gm_head = frag_part [9, 1] [2, 3] [4], gm_chain = [linear_part [5, 6]]\<rparr>" "[]" 16 "user_buffer 16 16" 0
      SOCK_DGRAM 0]
  by (auto simp: sample_gsock_def frag_part_def linear_part_def part_ok_def parts_bytes_def part_bytes_def
      user_buffer_def has_flag_def eval_nat_numeral)

text \<open>
  A message longer than the user's buffer: the call returns the length of the whole
  message, more than the buffer holds and more than was written.
\<close>

theorem grpc_recv_overlong:
  assumes "gs_queue s = m # rest" "gm_head m = linear_part bs" "gm_chain m = []"
    and "io_room it < length bs" "io_room it \<le> io_good it" "len = io_room it" "0 < len"
  shows "\<exists>res s'. grpc_recvmsg ty wait_err len flags it s = (res, s') \<and> gr_ret res = int (length bs) \<and>
    int len < gr_ret res \<and> io_out (gr_iter res) = io_out it @ take len bs"
proof -
  have d: "skb_datagram_iter False (Skb bs [] []) 0 (int (length bs)) it = (0, wrote (take (io_room it) bs) it)"
    by (rule linear_overlong [OF assms(4,5)])
  then have c: "skb_copy_datagram_msg_http2 0 [gm_head m] it 0 = (0, wrote (take len bs) it, int (length bs))"
    using assms(2,6) by (simp add: linear_part_def del: skb_datagram_iter.simps)
  have "bs \<noteq> []" using assms(4) by auto
  then show ?thesis
    using assms(1,3,4,6) c
    by (simp add: grpc_recvmsg_def wrote_def Let_def del: skb_copy_datagram_msg_http2.simps)
qed

theorem grpc_recv_overlong_witness:
  "\<exists>res s'. grpc_recvmsg SOCK_DGRAM 0 2 0 (user_buffer 2 2) (sample_gsock [linear_part [1, 2, 3]]) = (res, s') \<and>
     gr_ret res = 3 \<and> io_out (gr_iter res) = [1, 2]"
  using grpc_recv_overlong [of "sample_gsock [linear_part [1, 2, 3]]"
      "\<lparr>gm_psock = 5, gm_head = linear_part [1, 2, 3], gm_chain = []\<rparr>" "[]" "[1, 2, 3]" "user_buffer 2 2" 2 SOCK_DGRAM 0 0]
  by (auto simp: sample_gsock_def user_buffer_def eval_nat_numeral)

text \<open>
  A fault is masked: when the first frame faults on user memory and the second, shorter one
  can be written, the call reports success for the whole message although the bytes of the
  first frame are missing from the buffer.
\<close>

theorem grpc_recv_masks_fault:
  assumes "gs_queue s = m # rest" "gm_head m = linear_part a" "gm_chain m = [linear_part b]" "b \<noteq> []"
    and "length b \<le> io_good it" "io_good it < length a" "io_good it < io_room it"
  shows "\<exists>res s'. grpc_recvmsg ty wait_err len flags it s = (res, s') \<and>
    gr_ret res = int (length a + length b) \<and> io_out (gr_iter res) = io_out it @ b"
proof -
  have 1: "skb_datagram_iter False (Skb a [] []) 0 (int (length a)) it = (- EFAULT, it)"
    by (rule linear_fault [OF assms(6,7)])
  have 2: "skb_datagram_iter False (Skb b [] []) 0 (int (length b)) it = (0, wrote b it)"
    using datagram_iter_fits [of 0 "int (length b)" "Skb b [] []" it False] assms(4,5,7) by simp
  have c: "skb_copy_datagram_msg_http2 0 [linear_part a, linear_part b] it 0 = (0, wrote b it, int (length a) + int (length b))"
    using 1 2 by (simp add: linear_part_def del: skb_datagram_iter.simps)
  then show ?thesis
    using assms(1-4)
    by (simp add: grpc_recvmsg_def wrote_def Let_def del: skb_copy_datagram_msg_http2.simps)
qed

theorem grpc_recv_masks_fault_witness:
  "\<exists>res s'. grpc_recvmsg SOCK_DGRAM 0 16 0 (user_buffer 16 2) (sample_gsock [linear_part [1, 2, 3], linear_part [4]]) = (res, s') \<and>
     gr_ret res = 4 \<and> io_out (gr_iter res) = [4]"
  using grpc_recv_masks_fault [of "sample_gsock [linear_part [1, 2, 3], linear_part [4]]"
      "\<lparr>gm_psock = 5, gm_head = linear_part [1, 2, 3], gm_chain = [linear_part [4]]\<rparr>" "[]" "[1, 2, 3]" "[4]"
      "user_buffer 16 2" SOCK_DGRAM 0 16 0]
  by (auto simp: sample_gsock_def user_buffer_def)

text \<open>
  Peeking destroys: with \<open>MSG_PEEK\<close> the message stays at the front of the queue, but every
  frame after the first is freed and cut off, so a later receive sees only the first frame.
\<close>

theorem grpc_peek_truncates:
  assumes "gs_queue s = m # rest" "has_flag flags MSG_PEEK"
  shows "\<exists>res s'. grpc_recvmsg ty wait_err len flags it s = (res, s') \<and>
    gs_queue s' = m\<lparr>gm_chain := []\<rparr> # rest \<and> gs_freed s' = gs_freed s @ gm_chain m"
  using assms
  by (simp add: grpc_recvmsg_def clear_dontwait_peek [simplified] grpc_recv_datagram_def clear_next_def kfree_head_def
      rakaia_free_strp_chain_def Let_def case_prod_beta del: skb_copy_datagram_msg_http2.simps)

theorem grpc_peek_truncates_witness:
  "\<exists>res s'. grpc_recvmsg SOCK_DGRAM 0 16 MSG_PEEK (user_buffer 16 16) (sample_gsock [linear_part [1, 2], linear_part [4]]) = (res, s') \<and>
     gs_freed s' = [linear_part [4]] \<and> gm_chain (hd (gs_queue s')) = []"
  using grpc_peek_truncates [of "sample_gsock [linear_part [1, 2], linear_part [4]]"
      "\<lparr>gm_psock = 5, gm_head = linear_part [1, 2], gm_chain = [linear_part [4]]\<rparr>" "[]" MSG_PEEK SOCK_DGRAM 0 16 "user_buffer 16 16"]
  by (auto simp: sample_gsock_def has_flag_def)

section \<open>The life cycle of a connection\<close>

text \<open>
  C24. Attaching a connection and releasing it through its bucket restores the whole state: the
  connection table, the list and the count of connections, the psock store, and the TCP
  socket with its callbacks and reference count.
\<close>

theorem grpc_attach_release_roundtrip:
  assumes "gw_lower w c = Some l" "attachable (lower.truncate l)" "lw_user_data l = None" "1 \<le> lw_refs l"
    and "gw_psocks w p = None"
  shows "\<exists>w1. grpc_attach_ioctl jhash rcv (Some p) (Some (Some c)) info w = Inr (0, w1) \<and>
    (let b = grpc_bucket (hash_tcp_tuple jhash (lw_daddr l) (lw_dport l)) in
     gw_buckets w1 b = p # gw_buckets w b \<and> grpc_release_bucket b [p] w1 = Inr w)"
proof -
  let ?h = "hash_tcp_tuple jhash (lw_daddr l) (lw_dport l)"
  have init: "strp_init (Some v) (Some (grpc_callbacks rcv)) = Inr (zero_strp (Some v),
      \<lparr>h_parse = strp_call_parse default_parse_msg, h_clear = clear_strp_msg, h_deliver = rcv,
       h_abort = strp_abort_strp, h_done = default_read_sock_done\<rparr>)" for v
    by (simp add: strp_init_def grpc_callbacks_def)
  show ?thesis
    using assms
    by (simp add: grpc_attach_ioctl_def grpc_attach_def init access_defs Let_def
        grpc_release_psock_def grpc_strp_done_def gsock_put_def grpc_free_psock_def fun_upd_idem)
qed

definition grpc_tcp :: "nat option \<Rightarrow> grpc_lower" where
  "grpc_tcp user = lower.extend (tcp_lower user 1) (grpc_lower.fields 0x0A000001 443)"

definition grpc_idle :: grpc_world where
  "grpc_idle =
     \<lparr>gw_rk = booted, gw_psocks = (\<lambda>_. None), gw_lower = [0 \<mapsto> grpc_tcp None], gw_psock_list = [9], gw_count = 1,
      gw_buckets = (\<lambda>_. []), gw_tx_work = []\<rparr>"

theorem grpc_attach_release_roundtrip_witness:
  "\<exists>w1. grpc_attach_ioctl (\<lambda>a b _. a + b) (\<lambda>_ u. (u :: unit, True)) (Some 5) (Some (Some 0)) \<lparr>au_fd = 3, au_bpf_fd = -1, au_initial_conn_window = 0\<rparr>
     grpc_idle = Inr (0, w1) \<and> gw_buckets w1 444 = [5] \<and> grpc_release_bucket 444 [5] w1 = Inr grpc_idle"
  using grpc_attach_release_roundtrip [of grpc_idle 0 "grpc_tcp None" 5 "\<lambda>a b _. a + b"
      "\<lambda>_ u. (u :: unit, True)" "\<lparr>au_fd = 3, au_bpf_fd = -1, au_initial_conn_window = 0\<rparr>"]
  by (auto simp: grpc_idle_def grpc_tcp_def tcp_lower_def lower.defs grpc_lower.defs attachable_def hash_tcp_tuple_def
      grpc_bucket_def sample_tcp_def)

section \<open>Sending\<close>







end
