(* ===== verification/Sched_Concurrent.thy ===== *)
theory Sched_Concurrent
  imports Sched_Theorems
begin

text \<open>
  The scheduler under interleaving. Softirqs push and threads pull at the same time; a handler
  is a sequence of sections, each under the locks it takes, and any thread may run between two
  sections of another. A section is one transition; the spin lock of a receive queue that a
  push keeps while it takes the waiters lock is explicit in the state. The two queue lengths
  that a choice compares without a lock are read in one transition.
\<close>

section \<open>Threads\<close>

datatype sched_pc =
    Resting
  | PushChosen nat sk_buff
  | PushLocked nat sk_buff
  | PushListed nat "nat option"
  | PullLocal nat
  | StealScan nat
  | StealMask nat bitmap
  | StealPicked nat int
  | PullIdle nat
  | Deliver nat sk_buff

text \<open>What a resting thread is asked to do next, and the random bytes and answers it meets.\<close>

datatype sched_req = ReqPush sk_buff nat | ReqPull nat

record sched_draw =
  dw_req :: sched_req
  dw_rnd1 :: u8
  dw_rnd2 :: u8
  dw_rnd :: "nat \<Rightarrow> u8"
  dw_fuel :: nat
  dw_ok :: bool

section \<open>Sections\<close>

definition sec_choose :: "u8 \<Rightarrow> u8 \<Rightarrow> sk_buff \<Rightarrow> nat \<Rightarrow> rakaia \<Rightarrow> fault + sched_pc \<times> rakaia" where
  "sec_choose rnd1 rnd2 skb psock rk =
     map_sum id (\<lambda>(ca, _). (PushChosen ca (skb\<lparr>sb_cb0 := CbPsock psock\<rparr>), rk)) (shorter_queue rk rnd1 rnd2)"

definition enqueue_rx :: "nat \<Rightarrow> sk_buff \<Rightarrow> rakaia \<Rightarrow> rakaia" where
  "enqueue_rx ca skb rk = upd_sock ca (\<lambda>s. s\<lparr>k_rx_q := skb_queue_tail (k_rx_q s) skb\<rparr>) rk"

text \<open>With the queue lock held: append and leave, or keep the lock and go for the waiters lock.\<close>

definition sec_push_lock :: "nat \<Rightarrow> sk_buff \<Rightarrow> rakaia \<Rightarrow> fault + sched_pc \<times> rakaia" where
  "sec_push_lock ca skb rk =
     bind_fault (deref rk ca) (\<lambda>c.
       Inr (if length (k_rx_q c) \<ge> 1 then (Resting, enqueue_rx ca skb rk) else (PushLocked ca skb, rk)))"

definition sec_push_waiters :: "nat \<Rightarrow> sk_buff \<Rightarrow> rakaia \<Rightarrow> fault + sched_pc \<times> rakaia" where
  "sec_push_waiters ca skb rk =
     map_sum id (\<lambda>(new_ksk, rk1). (PushListed ca new_ksk, rk1)) (rakaia_get_avail_sk (Some ca) (enqueue_rx ca skb rk))"

text \<open>The waiters lock is gone, the queue lock is still held; the bitmap is written only now.\<close>

definition sec_push_finish :: "nat \<Rightarrow> nat option \<Rightarrow> rakaia \<Rightarrow> fault + sched_pc \<times> rakaia" where
  "sec_push_finish ca new rk =
     bind_fault (deref rk ca) (\<lambda>c.
       let bm = r_rx_nonempty_bm rk; i = nat (k_index c) in
       case new of
         None \<Rightarrow> Inr (Resting, rk\<lparr>r_rx_nonempty_bm := set_bit i bm\<rparr>)
       | Some new_ksk \<Rightarrow>
           (case skb_dequeue (k_rx_q c) of
              (None, _) \<Rightarrow> Inl NullDeref
            | (Some skb, rest) \<Rightarrow>
                Inr (Deliver new_ksk skb,
                  (upd_sock ca (\<lambda>s. s\<lparr>k_rx_q := rest\<rparr>) rk)
                    \<lparr>r_rx_nonempty_bm := (if length rest \<ge> 1 then set_bit i bm else unset_bit i bm),
                     r_push_cnt := r_push_cnt rk + 1\<rparr>)))"

definition sec_pull_local :: "nat \<Rightarrow> rakaia \<Rightarrow> fault + sched_pc \<times> rakaia" where
  "sec_pull_local ksk rk =
     bind_fault (deref rk ksk) (\<lambda>k.
       case skb_dequeue (k_rx_q k) of
         (None, _) \<Rightarrow> Inr (StealScan ksk, rk)
       | (Some skb, rest) \<Rightarrow>
           (let rk1 = upd_sock ksk (\<lambda>s. s\<lparr>k_rx_q := rest\<rparr>) rk
            in Inr (Deliver ksk skb,
                 if rest = [] then rk1\<lparr>r_rx_nonempty_bm := unset_bit (nat (k_index k)) (r_rx_nonempty_bm rk1)\<rparr>
                 else rk1)))"

definition sec_steal_scan :: "nat \<Rightarrow> rakaia \<Rightarrow> sched_pc \<times> rakaia" where
  "sec_steal_scan ksk rk =
     (if r_rx_nonempty_bm rk = 0 then (PullIdle ksk, rk) else (StealMask ksk (r_rx_nonempty_bm rk), rk))"

text \<open>A draw that does not come to an end leaves the thread in its loop.\<close>

definition sec_steal_pick :: "nat \<Rightarrow> (nat \<Rightarrow> u8) \<Rightarrow> nat \<Rightarrow> bitmap \<Rightarrow> rakaia \<Rightarrow> fault + sched_pc \<times> rakaia" where
  "sec_steal_pick fuel rnd ksk msk rk =
     (let v1 = pick_random_set_bit (rnd 0) msk in
      if v1 < 0 then Inr (PullIdle ksk, rk)
      else
        (case pick_second fuel rnd 1 msk v1 of
           None \<Rightarrow> Inr (StealMask ksk msk, rk)
         | Some (v2, _) \<Rightarrow> map_sum id (\<lambda>victim. (StealPicked ksk victim, rk)) (longer_queue rk v1 v2)))"

definition sec_steal :: "nat \<Rightarrow> int \<Rightarrow> rakaia \<Rightarrow> fault + sched_pc \<times> rakaia" where
  "sec_steal ksk victim rk =
     map_sum id (\<lambda>(skb, rk1). (case skb of None \<Rightarrow> StealScan ksk | Some m \<Rightarrow> Deliver ksk m, rk1))
       (steal_from ksk victim rk)"

definition sec_pull_idle :: "nat \<Rightarrow> rakaia \<Rightarrow> fault + sched_pc \<times> rakaia" where
  "sec_pull_idle ksk rk =
     (if r_rx_nonempty_bm rk \<noteq> 0 then Inr (PullLocal ksk, rk)
      else map_sum id (\<lambda>k. (Resting, rakaia_go_idle ksk k rk)) (deref rk ksk))"

text \<open>The third result lists the message a socket refused, which nothing refers to any more.\<close>

fun sched_section :: "sched_draw \<Rightarrow> sched_pc \<Rightarrow> rakaia \<Rightarrow> fault + (sched_pc \<times> rakaia) \<times> sk_buff list" where
  "sched_section d Resting rk =
     (case dw_req d of
        ReqPush skb psock \<Rightarrow> map_sum id (\<lambda>r. (r, [])) (sec_choose (dw_rnd1 d) (dw_rnd2 d) skb psock rk)
      | ReqPull ksk \<Rightarrow> Inr ((PullLocal ksk, rk), []))"
| "sched_section d (PushChosen ca skb) rk = map_sum id (\<lambda>r. (r, [])) (sec_push_lock ca skb rk)"
| "sched_section d (PushLocked ca skb) rk = map_sum id (\<lambda>r. (r, [])) (sec_push_waiters ca skb rk)"
| "sched_section d (PushListed ca new) rk = map_sum id (\<lambda>r. (r, [])) (sec_push_finish ca new rk)"
| "sched_section d (PullLocal ksk) rk = map_sum id (\<lambda>r. (r, [])) (sec_pull_local ksk rk)"
| "sched_section d (StealScan ksk) rk = Inr (sec_steal_scan ksk rk, [])"
| "sched_section d (StealMask ksk msk) rk =
     map_sum id (\<lambda>r. (r, [])) (sec_steal_pick (dw_fuel d) (dw_rnd d) ksk msk rk)"
| "sched_section d (StealPicked ksk v) rk = map_sum id (\<lambda>r. (r, [])) (sec_steal ksk v rk)"
| "sched_section d (PullIdle ksk) rk = map_sum id (\<lambda>r. (r, [])) (sec_pull_idle ksk rk)"
| "sched_section d (Deliver ksk skb) rk =
     map_sum id (\<lambda>(err, rk1). ((Resting, rk1), if err < 0 then [skb] else []))
       (rakaia_queue_rcv_skb (dw_ok d) ksk skb rk)"

section \<open>Interleaving\<close>

record sched_conc =
  cs_rk :: rakaia
  cs_pcs :: "sched_pc list"
  cs_lock :: "nat \<Rightarrow> nat option"
  cs_pushed :: "sk_buff multiset"
  cs_lost :: "sk_buff multiset"

fun lock_kept :: "sched_pc \<Rightarrow> nat option" where
  "lock_kept (PushLocked ca _) = Some ca"
| "lock_kept (PushListed ca _) = Some ca"
| "lock_kept _ = None"

fun lock_wanted :: "rakaia \<Rightarrow> sched_pc \<Rightarrow> nat option" where
  "lock_wanted rk (PushChosen ca _) = Some ca"
| "lock_wanted rk (PullLocal ksk) = Some ksk"
| "lock_wanted rk (StealPicked _ v) = r_socks rk ! nat v"
| "lock_wanted rk _ = None"

fun in_flight :: "sched_pc \<Rightarrow> sk_buff multiset" where
  "in_flight (PushChosen _ m) = {#m#}"
| "in_flight (PushLocked _ m) = {#m#}"
| "in_flight (Deliver _ m) = {#m#}"
| "in_flight _ = {#}"

definition relock :: "nat \<Rightarrow> sched_pc \<Rightarrow> sched_pc \<Rightarrow> (nat \<Rightarrow> nat option) \<Rightarrow> nat \<Rightarrow> nat option" where
  "relock t pc pc' lck =
     (let freed = (case lock_kept pc of None \<Rightarrow> lck | Some a \<Rightarrow> lck(a := None))
      in case lock_kept pc' of None \<Rightarrow> freed | Some a \<Rightarrow> freed(a \<mapsto> t))"

text \<open>Thread \<open>t\<close> runs its next section; \<open>None\<close> while another thread holds the lock it needs.\<close>

definition sched_act :: "sched_draw \<Rightarrow> nat \<Rightarrow> sched_conc \<Rightarrow> (fault + sched_conc) option" where
  "sched_act d t s =
     (let pc = cs_pcs s ! t in
      if (case lock_wanted (cs_rk s) pc of None \<Rightarrow> False | Some a \<Rightarrow> cs_lock s a \<noteq> None) then None
      else Some (map_sum id (\<lambda>((pc', rk'), lost).
             s\<lparr>cs_rk := rk', cs_pcs := (cs_pcs s)[t := pc'], cs_lock := relock t pc pc' (cs_lock s),
               cs_pushed := cs_pushed s + (if pc = Resting then in_flight pc' else {#}),
               cs_lost := cs_lost s + mset lost\<rparr>)
           (sched_section d pc (cs_rk s))))"

text \<open>Applications pull on sockets that exist.\<close>

definition req_ok :: "rakaia \<Rightarrow> sched_req \<Rightarrow> bool" where
  "req_ok rk r = (case r of ReqPush _ _ \<Rightarrow> True | ReqPull ksk \<Rightarrow> Some ksk \<in> set (r_socks rk))"

inductive sched_interleave :: "sched_conc \<Rightarrow> sched_conc \<Rightarrow> bool" where
  il_start: "sched_interleave s s"
| il_act: "sched_interleave s s1 \<Longrightarrow> t < length (cs_pcs s1) \<Longrightarrow> req_ok (cs_rk s1) (dw_req d) \<Longrightarrow>
     sched_act d t s1 = Some (Inr s2) \<Longrightarrow> sched_interleave s s2"

definition all_resting :: "rakaia \<Rightarrow> nat \<Rightarrow> sched_conc" where
  "all_resting rk n =
     \<lparr>cs_rk = rk, cs_pcs = replicate n Resting, cs_lock = (\<lambda>_. None), cs_pushed = {#}, cs_lost = {#}\<rparr>"

section \<open>The invariant under interleaving\<close>

fun pc_ok :: "rakaia \<Rightarrow> sched_pc \<Rightarrow> bool" where
  "pc_ok rk Resting = True"
| "pc_ok rk (PushChosen ca _) = (Some ca \<in> set (r_socks rk))"
| "pc_ok rk (PushLocked ca _) = (Some ca \<in> set (r_socks rk))"
| "pc_ok rk (PushListed ca new) = (Some ca \<in> set (r_socks rk) \<and> (new = None \<or> new \<in> set (r_socks rk)))"
| "pc_ok rk (PullLocal ksk) = (Some ksk \<in> set (r_socks rk))"
| "pc_ok rk (StealScan ksk) = (Some ksk \<in> set (r_socks rk))"
| "pc_ok rk (StealMask ksk msk) = (Some ksk \<in> set (r_socks rk) \<and> msk \<noteq> 0 \<and> set (set_bits msk) \<subseteq> {..<20})"
| "pc_ok rk (StealPicked ksk v) = (Some ksk \<in> set (r_socks rk) \<and> 0 \<le> v \<and> v < 20)"
| "pc_ok rk (PullIdle ksk) = (Some ksk \<in> set (r_socks rk))"
| "pc_ok rk (Deliver ksk _) = (Some ksk \<in> set (r_socks rk))"

text \<open>
  How bitmap and queue of a slot relate, by what the owner of its lock is doing: without an
  owner the bit tells whether the queue holds a message; a push that owns the lock has found
  the queue empty, or has appended its message and not yet written the bit.
\<close>

fun slot_ok :: "sched_pc option \<Rightarrow> bool \<Rightarrow> sk_buff list \<Rightarrow> bool" where
  "slot_ok None b q = (b \<longleftrightarrow> q \<noteq> [])"
| "slot_ok (Some (PushLocked _ _)) b q = (\<not> b \<and> q = [])"
| "slot_ok (Some (PushListed _ _)) b q = (\<not> b \<and> length q = 1)"
| "slot_ok _ b q = False"

definition rx_inv :: "rakaia \<Rightarrow> bool" where
  "rx_inv rk \<longleftrightarrow> socks_inv rk \<and> waiters_inv rk \<and> (\<forall>i. bit (r_rx_nonempty_bm rk) i \<longrightarrow> i < 20)"

definition conc_inv :: "sched_conc \<Rightarrow> bool" where
  "conc_inv s \<longleftrightarrow> rx_inv (cs_rk s) \<and> (\<forall>t<length (cs_pcs s). pc_ok (cs_rk s) (cs_pcs s ! t)) \<and>
     (\<forall>a t. cs_lock s a = Some t \<longleftrightarrow> t < length (cs_pcs s) \<and> lock_kept (cs_pcs s ! t) = Some a) \<and>
     (\<forall>i<20. \<forall>a. r_socks (cs_rk s) ! i = Some a \<longrightarrow>
        slot_ok (map_option ((!) (cs_pcs s)) (cs_lock s a)) (bit (r_rx_nonempty_bm (cs_rk s)) i) (queue_of (cs_rk s) i))"

text \<open>Every message that is queued to a slot or to an application.\<close>

definition rx_total :: "rakaia \<Rightarrow> sk_buff multiset" where
  "rx_total rk = held (central_of rk)"

definition conc_total :: "sched_conc \<Rightarrow> sk_buff multiset" where
  "conc_total s = rx_total (cs_rk s) + sum_list (map in_flight (cs_pcs s)) + cs_lost s"

text \<open>The lock under which a section works on a queue.\<close>

definition works_on :: "rakaia \<Rightarrow> sched_pc \<Rightarrow> nat option" where
  "works_on rk pc = (case lock_kept pc of None \<Rightarrow> lock_wanted rk pc | Some a \<Rightarrow> Some a)"

definition owner :: "nat \<Rightarrow> sched_pc \<Rightarrow> sched_pc option" where
  "owner a pc = (if lock_kept pc = Some a then Some pc else None)"

text \<open>
  What every section guarantees: it touches only the slot whose lock it works under, takes
  that slot from one consistent state to another, and neither loses nor invents a message.
\<close>

definition section_ok :: "sched_pc \<Rightarrow> rakaia \<Rightarrow> sched_pc \<Rightarrow> rakaia \<Rightarrow> sk_buff list \<Rightarrow> bool" where
  "section_ok pc rk pc' rk' lost \<longleftrightarrow>
     rx_inv rk' \<and> r_socks rk' = r_socks rk \<and> pc_ok rk pc' \<and>
     (lock_kept pc' = None \<or> lock_kept pc' = works_on rk pc) \<and>
     (\<forall>i<20. \<forall>a. r_socks rk ! i = Some a \<longrightarrow>
        (if works_on rk pc = Some a
         then slot_ok (owner a pc) (bit (r_rx_nonempty_bm rk) i) (queue_of rk i) \<longrightarrow>
              slot_ok (owner a pc') (bit (r_rx_nonempty_bm rk') i) (queue_of rk' i)
         else queue_of rk' i = queue_of rk i \<and>
              bit (r_rx_nonempty_bm rk') i = bit (r_rx_nonempty_bm rk) i)) \<and>
     rx_total rk' + in_flight pc' + mset lost =
       rx_total rk + in_flight pc + (if pc = Resting then in_flight pc' else {#})"

lemma pc_ok_socks: "r_socks rk' = r_socks rk \<Longrightarrow> pc_ok rk' pc = pc_ok rk pc"
  by (cases pc) simp_all

lemma conc_invD:
  assumes "conc_inv s"
  shows "rx_inv (cs_rk s)" "t < length (cs_pcs s) \<Longrightarrow> pc_ok (cs_rk s) (cs_pcs s ! t)"
    "cs_lock s a = Some t \<longleftrightarrow> t < length (cs_pcs s) \<and> lock_kept (cs_pcs s ! t) = Some a"
    "i < 20 \<Longrightarrow> r_socks (cs_rk s) ! i = Some a \<Longrightarrow>
       slot_ok (map_option ((!) (cs_pcs s)) (cs_lock s a)) (bit (r_rx_nonempty_bm (cs_rk s)) i) (queue_of (cs_rk s) i)"
  using assms by (simp_all add: conc_inv_def)

lemma sum_list_flight:
  "t < length pcs \<Longrightarrow> sum_list (map in_flight (pcs[t := pc])) + in_flight (pcs ! t) =
     sum_list (map in_flight pcs) + in_flight pc"
proof (induction pcs arbitrary: t)
  case (Cons p pcs)
  then show ?case by (cases t) (auto simp: ac_simps)
qed simp

lemma mset_exchange:
  fixes A :: "'a multiset"
  assumes "A' + x = A + y" "B' + y + l = B + x + z"
  shows "B' + A' + l = B + A + z"
proof (rule multiset_eqI)
  fix m
  have "count A' m + count x m = count A m + count y m"
    "count B' m + count y m + count l m = count B m + count x m + count z m"
    using assms by (metis count_union)+
  then show "count (B' + A' + l) m = count (B + A + z) m" by simp
qed

lemma mset_trade:
  fixes T :: "'a multiset"
  assumes "T' + p = T + q" "q + f' = p + f"
  shows "T' + f' = T + f"
proof (rule multiset_eqI)
  fix m
  have "count T' m + count p m = count T m + count q m" "count q m + count f' m = count p m + count f m"
    using assms by (metis count_union)+
  then show "count (T' + f') m = count (T + f) m" by simp
qed

lemma mset_chain:
  fixes A :: "'a multiset"
  assumes "A + q = B + r" "B + p = C + q"
  shows "A + p = C + r"
proof (rule multiset_eqI)
  fix m
  have "count A m + count q m = count B m + count r m" "count B m + count p m = count C m + count q m"
    using assms by (metis count_union)+
  then show "count (A + p) m = count (C + r) m" by simp
qed

text \<open>Locks after an act: the owner of every other lock stays, the one worked under follows the new state.\<close>

lemma relock_owner:
  assumes "conc_inv s" "t < length (cs_pcs s)" "lock_kept pc' = None \<or> lock_kept pc' = works_on (cs_rk s) (cs_pcs s ! t)"
    and "\<forall>a. lock_wanted (cs_rk s) (cs_pcs s ! t) = Some a \<longrightarrow> cs_lock s a = None"
  defines "lck \<equiv> relock t (cs_pcs s ! t) pc' (cs_lock s)"
  shows "lck a = Some u \<longleftrightarrow> u < length (cs_pcs s) \<and> lock_kept ((cs_pcs s)[t := pc'] ! u) = Some a"
    and "works_on (cs_rk s) (cs_pcs s ! t) \<noteq> Some a \<Longrightarrow>
      map_option ((!) ((cs_pcs s)[t := pc'])) (lck a) = map_option ((!) (cs_pcs s)) (cs_lock s a)"
    and "works_on (cs_rk s) (cs_pcs s ! t) = Some a \<Longrightarrow>
      map_option ((!) ((cs_pcs s)[t := pc'])) (lck a) = owner a pc' \<and>
      map_option ((!) (cs_pcs s)) (cs_lock s a) = owner a (cs_pcs s ! t)"
proof -
  note L = conc_invD(3) [OF assms(1)]
  have free: "cs_lock s a = None" if "works_on (cs_rk s) (cs_pcs s ! t) = Some a" "lock_kept (cs_pcs s ! t) \<noteq> Some a" for a
    using that assms(4) by (auto simp: works_on_def split: option.splits)
  have mine: "cs_lock s a = Some t" if "lock_kept (cs_pcs s ! t) = Some a" for a
    using that L assms(2) by simp
  show 1: "lck a = Some u \<longleftrightarrow> u < length (cs_pcs s) \<and> lock_kept ((cs_pcs s)[t := pc'] ! u) = Some a" for a u
    using L [of a u] L [of a t] assms(2,3) free [of a] mine
    by (cases "u = t") (auto simp: lck_def relock_def Let_def works_on_def split: option.splits if_splits)
  show "map_option ((!) ((cs_pcs s)[t := pc'])) (lck a) = map_option ((!) (cs_pcs s)) (cs_lock s a)"
    if "works_on (cs_rk s) (cs_pcs s ! t) \<noteq> Some a"
  proof -
    have "lock_kept (cs_pcs s ! t) \<noteq> Some a" "lock_kept pc' \<noteq> Some a"
      using that assms(3) by (auto simp: works_on_def)
    then have "lck a = cs_lock s a" "cs_lock s a \<noteq> Some t"
      using L [of a t] by (auto simp: lck_def relock_def Let_def split: option.splits)
    then show ?thesis by (cases "cs_lock s a") auto
  qed
  show "map_option ((!) ((cs_pcs s)[t := pc'])) (lck a) = owner a pc' \<and>
      map_option ((!) (cs_pcs s)) (cs_lock s a) = owner a (cs_pcs s ! t)"
    if "works_on (cs_rk s) (cs_pcs s ! t) = Some a"
  proof (cases "lock_kept (cs_pcs s ! t) = Some a")
    case True
    then show ?thesis using mine [OF True] assms(2,3) that
      by (auto simp: owner_def lck_def relock_def Let_def split: option.splits)
  next
    case False
    then show ?thesis using free [OF that False] assms(2,3) that
      by (auto simp: owner_def lck_def relock_def Let_def works_on_def split: option.splits)
  qed
qed

lemma act_inv:
  assumes "conc_inv s" "t < length (cs_pcs s)" "section_ok (cs_pcs s ! t) (cs_rk s) pc' rk' lost"
    and "\<forall>a. lock_wanted (cs_rk s) (cs_pcs s ! t) = Some a \<longrightarrow> cs_lock s a = None"
    and "s' = s\<lparr>cs_rk := rk', cs_pcs := (cs_pcs s)[t := pc'], cs_lock := relock t (cs_pcs s ! t) pc' (cs_lock s),
               cs_pushed := cs_pushed s + (if cs_pcs s ! t = Resting then in_flight pc' else {#}),
               cs_lost := cs_lost s + mset lost\<rparr>"
  shows "conc_inv s'" "conc_total s' + cs_pushed s = conc_total s + cs_pushed s'"
proof -
  note S = assms(3) [unfolded section_ok_def]
  have k: "lock_kept pc' = None \<or> lock_kept pc' = works_on (cs_rk s) (cs_pcs s ! t)" using S by blast
  note R = relock_owner [OF assms(1,2) k assms(4)]
  have slots: "slot_ok (map_option ((!) (cs_pcs s')) (cs_lock s' a)) (bit (r_rx_nonempty_bm rk') i) (queue_of rk' i)"
    if i: "i < 20" "r_socks (cs_rk s) ! i = Some a" for i a
  proof (cases "works_on (cs_rk s) (cs_pcs s ! t) = Some a")
    case True
    then show ?thesis using S i R(3) [OF True] conc_invD(4) [OF assms(1) i] assms(5) by simp
  next
    case False
    then show ?thesis using S i R(2) [OF False] conc_invD(4) [OF assms(1) i] assms(5) by simp
  qed
  have pcs: "pc_ok rk' (cs_pcs s' ! u)" if "u < length (cs_pcs s)" for u
    using that S conc_invD(2) [OF assms(1) that] assms(2,5) pc_ok_socks [of rk' "cs_rk s"]
    by (cases "u = t") simp_all
  show "conc_inv s'"
    using S slots pcs R(1) assms(5) by (simp add: conc_inv_def)
  have "rx_total rk' + in_flight pc' + mset lost =
       rx_total (cs_rk s) + in_flight (cs_pcs s ! t) + (if cs_pcs s ! t = Resting then in_flight pc' else {#})"
    using S by simp
  from mset_exchange [OF sum_list_flight [OF assms(2), of pc'] this]
  show "conc_total s' + cs_pushed s = conc_total s + cs_pushed s'"
    unfolding assms(5) conc_total_def by (simp add: ac_simps)
qed

section \<open>Every section keeps it\<close>

lemma rx_invD:
  assumes "rx_inv rk"
  shows "socks_inv rk" "waiters_inv rk" "bit (r_rx_nonempty_bm rk) i \<Longrightarrow> i < 20"
  using assms by (simp_all add: rx_inv_def)

lemma rx_total_same:
  assumes "r_socks rk' = r_socks rk" "r_heap rk' = r_heap rk"
  shows "rx_total rk' = rx_total rk"
  using queue_of_frame [OF assms] assms
  by (simp add: rx_total_def held_def central_of_def sched_pool_def inbox_of_def [abs_def])

lemma rx_total_queue:
  assumes "i < 20" "r_socks rk' = r_socks rk" "inbox_of rk' = inbox_of rk"
    and "\<And>j. j < 20 \<Longrightarrow> queue_of rk' j = (if j = i then q else queue_of rk j)"
  shows "rx_total rk' + mset (queue_of rk i) = rx_total rk + mset q"
  using sched_pool_upd [OF assms(1,4)] assms(2,3)
  by (simp add: rx_total_def held_def central_of_def ac_simps)

text \<open>A section that only moves the thread on.\<close>

lemma still_section:
  assumes "rx_inv rk" "pc_ok rk pc'" "lock_kept pc = None" "lock_kept pc' = None"
    and "in_flight pc' = in_flight pc \<or> pc = Resting"
  shows "section_ok pc rk pc' rk []"
  using assms by (auto simp: section_ok_def owner_def)

text \<open>A section that gives slot \<open>i\<close>, on whose lock it works, the queue \<open>q\<close> and the bit \<open>b\<close>.\<close>

lemma queue_section:
  assumes "rx_inv rk" "at_slot rk i a k" "works_on rk pc = Some a" "pc \<noteq> Resting"
    and "r_socks rk' = r_socks rk" "socks_inv rk'" "waiters_inv rk'" "inbox_of rk' = inbox_of rk"
    and q: "\<And>j. j < 20 \<Longrightarrow> queue_of rk' j = (if j = i then q else queue_of rk j)"
    and b: "\<And>j. bit (r_rx_nonempty_bm rk') j = (if j = i then b else bit (r_rx_nonempty_bm rk) j)"
    and "pc_ok rk pc'" "lock_kept pc' = None \<or> lock_kept pc' = Some a"
    and "slot_ok (owner a pc) (bit (r_rx_nonempty_bm rk) i) (k_rx_q k) \<Longrightarrow> slot_ok (owner a pc') b q"
    and "mset q + in_flight pc' = mset (k_rx_q k) + in_flight pc"
  shows "section_ok pc rk pc' rk' []"
proof -
  note I = rx_invD [OF assms(1)]
  have i: "i < 20" "r_socks rk ! i = Some a" using assms(2) by (simp_all add: at_slot_def)
  have inv: "rx_inv rk'" using assms(6,7) i(1) I(3) by (auto simp: rx_inv_def b split: if_splits)
  have slot: "if works_on rk pc = Some c
      then slot_ok (owner c pc) (bit (r_rx_nonempty_bm rk) j) (queue_of rk j) \<longrightarrow>
           slot_ok (owner c pc') (bit (r_rx_nonempty_bm rk') j) (queue_of rk' j)
      else queue_of rk' j = queue_of rk j \<and> bit (r_rx_nonempty_bm rk') j = bit (r_rx_nonempty_bm rk) j"
    if j: "j < 20" "r_socks rk ! j = Some c" for j c
  proof (cases "j = i")
    case True
    then have "c = a" using i(2) j(2) by simp
    then show ?thesis using True assms(3,13) queue_of_at [OF assms(2)] i(1) by (simp add: q b)
  next
    case False
    then have "c \<noteq> a" using slot_index_unique [OF I(1) j(1) i(1) _ i(2)] j(2) by auto
    then show ?thesis using False assms(3) j(1) by (simp add: q b)
  qed
  have "rx_total rk' + mset (k_rx_q k) = rx_total rk + mset q"
    using rx_total_queue [OF i(1) assms(5,8) q] queue_of_at [OF assms(2)] by simp
  from mset_trade [OF this assms(14)] have "rx_total rk' + in_flight pc' = rx_total rk + in_flight pc" .
  then show ?thesis
    using inv assms(3-5,11,12) slot by (simp add: section_ok_def)
qed

lemma inbox_of_upd: "(\<And>k. k_recvq (f k) = k_recvq k) \<Longrightarrow> inbox_of (upd_sock a f rk) = inbox_of rk"
  by (auto simp: inbox_of_def fun_eq_iff split: option.split)

lemma inbox_of_frame: "r_heap rk' = r_heap rk \<Longrightarrow> inbox_of rk' = inbox_of rk"
  by (simp add: inbox_of_def [abs_def])

lemma waiters_inv_frame:
  "r_socks rk' = r_socks rk \<Longrightarrow> r_waiters rk' = r_waiters rk \<Longrightarrow> r_waiters_bm rk' = r_waiters_bm rk \<Longrightarrow>
     waiters_inv rk' = waiters_inv rk"
  by (simp add: waiters_inv_def)

text \<open>The usual change: one queue is replaced, and perhaps bits and counters outside the sockets.\<close>

lemma replaced_section:
  assumes "rx_inv rk" "at_slot rk i a k" "works_on rk pc = Some a" "pc \<noteq> Resting"
    and "r_heap rk' = r_heap (upd_sock a (\<lambda>s. s\<lparr>k_rx_q := g s\<rparr>) rk)" "r_socks rk' = r_socks rk" "waiters_inv rk'"
    and "\<And>j. bit (r_rx_nonempty_bm rk') j = (if j = i then b else bit (r_rx_nonempty_bm rk) j)"
    and "pc_ok rk pc'" "lock_kept pc' = None \<or> lock_kept pc' = Some a"
    and "slot_ok (owner a pc) (bit (r_rx_nonempty_bm rk) i) (k_rx_q k) \<Longrightarrow> slot_ok (owner a pc') b (g k)"
    and "mset (g k) + in_flight pc' = mset (k_rx_q k) + in_flight pc"
  shows "section_ok pc rk pc' rk' []"
proof -
  let ?mid = "upd_sock a (\<lambda>s. s\<lparr>k_rx_q := g s\<rparr>) rk"
  note I = rx_invD [OF assms(1)]
  have mid: "r_socks rk' = r_socks ?mid" "r_heap rk' = r_heap ?mid" using assms(5,6) by simp_all
  have s: "socks_inv rk'" using socks_inv_upd [OF I(1), of "\<lambda>s. s\<lparr>k_rx_q := g s\<rparr>"] socks_inv_frame [OF mid] by simp
  have i: "inbox_of rk' = inbox_of rk"
    using inbox_of_frame [OF mid(2)] inbox_of_upd [of "\<lambda>s. s\<lparr>k_rx_q := g s\<rparr>"] by simp
  have q: "queue_of rk' j = (if j = i then g k else queue_of rk j)" if "j < 20" for j
    using queue_of_upd [OF I(1) assms(2) that, of "\<lambda>s. s\<lparr>k_rx_q := g s\<rparr>"] queue_of_frame [OF mid] by simp
  show ?thesis
    by (rule queue_section [OF assms(1-4,6) s assms(7) i q assms(8-12)])
qed

lemma push_lock_section:
  assumes "rx_inv rk" "at_slot rk i ca c"
  obtains pc' rk' where "sec_push_lock ca m rk = Inr (pc', rk')" "section_ok (PushChosen ca m) rk pc' rk' []"
proof (cases "k_rx_q c = []")
  case True
  have "section_ok (PushChosen ca m) rk (PushLocked ca m) rk []"
    by (rule queue_section [OF assms, where q = "[]" and b = "bit (r_rx_nonempty_bm rk) i"])
      (use True rx_invD [OF assms(1)] queue_of_at [OF assms(2)] at_slot_mem [OF _ assms(2)]
        in \<open>auto simp: works_on_def owner_def\<close>)
  with True that deref_at [OF assms(2)] show ?thesis by (simp add: sec_push_lock_def bind_fault_def)
next
  case False
  have "section_ok (PushChosen ca m) rk Resting (enqueue_rx ca m rk) []"
    by (rule replaced_section [OF assms, where b = "bit (r_rx_nonempty_bm rk) i" and g = "\<lambda>s. k_rx_q s @ [m]"])
      (use False rx_invD [OF assms(1)] waiters_inv_frame [of "enqueue_rx ca m rk" rk]
        in \<open>auto simp: works_on_def owner_def enqueue_rx_def skb_queue_tail_def\<close>)
  with False that deref_at [OF assms(2)] show ?thesis by (auto simp: sec_push_lock_def bind_fault_def Suc_le_eq)
qed

lemma get_avail_cases:
  assumes "rx_inv rk" "at_slot rk i ca c" "r_heap rk1 = r_heap (upd_sock ca (\<lambda>s. s\<lparr>k_rx_q := g s\<rparr>) rk)"
    and "r_socks rk1 = r_socks rk" "r_waiters rk1 = r_waiters rk" "r_waiters_bm rk1 = r_waiters_bm rk"
  obtains (none) "r_waiters rk = []" "rakaia_get_avail_sk (Some ca) rk1 = Inr (None, rk1)"
  | (some) j w k where "at_slot rk j w k"
      "rakaia_get_avail_sk (Some ca) rk1 =
        Inr (Some w, rk1\<lparr>r_waiters := remove1 w (r_waiters rk), r_waiters_bm := unset_bit j (r_waiters_bm rk)\<rparr>)"
proof (cases "r_waiters rk")
  case Nil
  with none assms(5) show ?thesis by (simp add: rakaia_get_avail_sk_def)
next
  case (Cons f ws)
  note I = rx_invD [OF assms(1)]
  define w where "w = (if bit (r_waiters_bm rk) i then ca else f)"
  have "w \<in> set (r_waiters rk)" using waiting_bit_iff [OF I(1,2) assms(2)] Cons by (auto simp: w_def)
  then obtain j k where wk: "at_slot rk j w k" using waiter_slot [OF I(1,2)] by metis
  have "rakaia_get_avail_sk (Some ca) rk1 =
      Inr (Some w, rk1\<lparr>r_waiters := remove1 w (r_waiters rk), r_waiters_bm := unset_bit j (r_waiters_bm rk)\<rparr>)"
    using Cons wk assms(2-6) by (auto simp: rakaia_get_avail_sk_def deref_def at_slot_def w_def)
  with wk some show ?thesis by blast
qed

lemma push_waiters_section:
  assumes "rx_inv rk" "at_slot rk i ca c"
  obtains pc' rk' where "sec_push_waiters ca m rk = Inr (pc', rk')" "section_ok (PushLocked ca m) rk pc' rk' []"
proof -
  note I = rx_invD [OF assms(1)]
  have h: "r_heap (enqueue_rx ca m rk) = r_heap (upd_sock ca (\<lambda>s. s\<lparr>k_rx_q := k_rx_q s @ [m]\<rparr>) rk)"
    by (simp add: enqueue_rx_def skb_queue_tail_def)
  have frame: "r_socks (enqueue_rx ca m rk) = r_socks rk" "r_waiters (enqueue_rx ca m rk) = r_waiters rk"
    "r_waiters_bm (enqueue_rx ca m rk) = r_waiters_bm rk" "r_rx_nonempty_bm (enqueue_rx ca m rk) = r_rx_nonempty_bm rk"
    by (simp_all add: enqueue_rx_def)
  have ok: "section_ok (PushLocked ca m) rk (PushListed ca new) rk' []"
    if "new = None \<or> new \<in> set (r_socks rk)" "r_heap rk' = r_heap (enqueue_rx ca m rk)" "r_socks rk' = r_socks rk"
      "waiters_inv rk'" "r_rx_nonempty_bm rk' = r_rx_nonempty_bm rk" for new rk'
    by (rule replaced_section [OF assms, where b = "bit (r_rx_nonempty_bm rk) i" and g = "\<lambda>s. k_rx_q s @ [m]"])
      (use that h at_slot_mem [OF I(1) assms(2)] in \<open>auto simp: works_on_def owner_def\<close>)
  show ?thesis
  proof (cases rule: get_avail_cases [OF assms h frame(1-3)])
    case 1
    have "section_ok (PushLocked ca m) rk (PushListed ca None) (enqueue_rx ca m rk) []"
      by (rule ok) (use frame I(2) waiters_inv_frame [OF frame(1-3)] in simp_all)
    with 1 that show ?thesis by (simp add: sec_push_waiters_def)
  next
    case (2 j w k)
    let ?rk = "(enqueue_rx ca m rk)\<lparr>r_waiters := remove1 w (r_waiters rk), r_waiters_bm := unset_bit j (r_waiters_bm rk)\<rparr>"
    have "waiters_inv ?rk" by (rule waiters_inv_take [OF I(1,2) 2(1)]) (simp_all add: frame)
    then have "section_ok (PushLocked ca m) rk (PushListed ca (Some w)) ?rk []"
      by (intro ok) (use frame at_slot_mem [OF I(1) 2(1)] in simp_all)
    with 2 that show ?thesis by (simp add: sec_push_waiters_def)
  qed
qed

lemma push_finish_section:
  assumes "rx_inv rk" "at_slot rk i ca c" "pc_ok rk (PushListed ca new)" "length (k_rx_q c) = 1"
  obtains pc' rk' where "sec_push_finish ca new rk = Inr (pc', rk')" "section_ok (PushListed ca new) rk pc' rk' []"
proof -
  obtain m where q: "k_rx_q c = [m]" using assms(4) by (auto simp: length_Suc_conv)
  have i: "i < 20" "nat (k_index c) = i" using assms(2) by (auto simp: at_slot_def)
  note I = rx_invD [OF assms(1)]
  show ?thesis
  proof (cases new)
    case None
    let ?rk = "rk\<lparr>r_rx_nonempty_bm := set_bit i (r_rx_nonempty_bm rk)\<rparr>"
    have "section_ok (PushListed ca None) rk Resting ?rk []"
      by (rule queue_section [OF assms(1,2), where q = "k_rx_q c" and b = True])
        (use q i I waiters_inv_frame [of ?rk rk] socks_inv_frame [of ?rk rk] inbox_of_frame [of ?rk rk]
          queue_of_frame [of ?rk rk] queue_of_at [OF assms(2)] in \<open>auto simp: works_on_def owner_def\<close>)
    with None i that deref_at [OF assms(2)] show ?thesis by (simp add: sec_push_finish_def bind_fault_def Let_def)
  next
    case (Some w)
    let ?rk = "(upd_sock ca (\<lambda>s. s\<lparr>k_rx_q := []\<rparr>) rk)\<lparr>r_rx_nonempty_bm := unset_bit i (r_rx_nonempty_bm rk),
        r_push_cnt := r_push_cnt rk + 1\<rparr>"
    have "section_ok (PushListed ca (Some w)) rk (Deliver w m) ?rk []"
      by (rule replaced_section [OF assms(1,2), where b = False and g = "\<lambda>s. []"])
        (use q i I assms(3) Some waiters_inv_frame [of ?rk rk] in \<open>auto simp: works_on_def owner_def\<close>)
    with Some i q that deref_at [OF assms(2)] show ?thesis by (simp add: sec_push_finish_def bind_fault_def Let_def)
  qed
qed

lemma dequeued_section:
  assumes "rx_inv rk" "at_slot rk i a k" "works_on rk pc = Some a" "pc \<noteq> Resting" "lock_kept pc = None"
    and "k_rx_q k = m # rest" "Some b \<in> set (r_socks rk)" "in_flight pc = {#}"
  shows "section_ok pc rk (Deliver b m) (dequeued i a rest rk) []"
  by (rule replaced_section [OF assms(1-4), where b = "if rest = [] then False else bit (r_rx_nonempty_bm rk) i"
        and g = "\<lambda>s. rest"])
    (use assms(5-8) rx_invD [OF assms(1)] waiters_inv_frame [of "dequeued i a rest rk" rk]
      in \<open>auto simp: owner_def dequeued_def Let_def\<close>)

lemma pull_local_section:
  assumes "rx_inv rk" "at_slot rk i a k"
  obtains pc' rk' where "sec_pull_local a rk = Inr (pc', rk')" "section_ok (PullLocal a) rk pc' rk' []"
proof (cases "k_rx_q k")
  case Nil
  have "section_ok (PullLocal a) rk (StealScan a) rk []"
    by (rule still_section) (use assms at_slot_mem [OF rx_invD(1) [OF assms(1)] assms(2)] in simp_all)
  with Nil that deref_at [OF assms(2)] show ?thesis by (simp add: sec_pull_local_def bind_fault_def)
next
  case (Cons m rest)
  have "section_ok (PullLocal a) rk (Deliver a m) (dequeued i a rest rk) []"
    by (rule dequeued_section [OF assms _ _ _ Cons])
      (use at_slot_mem [OF rx_invD(1) [OF assms(1)] assms(2)] in \<open>simp_all add: works_on_def\<close>)
  moreover have "nat (k_index k) = i" using assms(2) by (simp add: at_slot_def)
  then have "sec_pull_local a rk = Inr (Deliver a m, dequeued i a rest rk)"
    using Cons deref_at [OF assms(2)] by (simp add: sec_pull_local_def bind_fault_def dequeued_def Let_def)
  ultimately show ?thesis using that by blast
qed

lemma neutral_after:
  assumes "section_ok pc rk pc' rk1 lost"
    and "\<And>k. k_index (f k) = k_index k" "\<And>k. k_rx_q (f k) = k_rx_q k" "\<And>k. k_recvq (f k) = k_recvq k"
  shows "section_ok pc rk pc' (upd_sock a f rk1) lost"
proof -
  have q: "queue_of (upd_sock a f rk1) i = queue_of rk1 i" for i
    using assms(3) by (auto simp: queue_of_def split: option.split)
  have "rx_inv (upd_sock a f rk1)" if "rx_inv rk1"
    using rx_invD [OF that] socks_inv_upd [of rk1 f a] assms(2) waiters_inv_frame [of "upd_sock a f rk1" rk1]
    by (simp add: rx_inv_def)
  moreover have "rx_total (upd_sock a f rk1) = rx_total rk1"
    using inbox_of_upd [of f a rk1] assms(4) q by (simp add: rx_total_def held_def central_of_def sched_pool_def)
  ultimately show ?thesis using assms(1) by (simp add: section_ok_def q)
qed

lemma steal_section:
  assumes "rx_inv rk" "at_slot rk i va v" "Some a \<in> set (r_socks rk)"
  obtains pc' rk' where "sec_steal a (int i) rk = Inr (pc', rk')" "section_ok (StealPicked a (int i)) rk pc' rk' []"
proof (cases "k_rx_q v")
  case Nil
  have "section_ok (StealPicked a (int i)) rk (StealScan a) rk []" by (rule still_section) (use assms in simp_all)
  with Nil that sock_slot_at [OF rx_invD(1) [OF assms(1)] assms(2)] show ?thesis
    by (simp add: sec_steal_def steal_from_def)
next
  case (Cons m rest)
  have "section_ok (StealPicked a (int i)) rk (Deliver a m) (dequeued i va rest rk) []"
    by (rule dequeued_section [OF assms(1,2) _ _ _ Cons assms(3)])
      (use assms(2) in \<open>simp_all add: works_on_def at_slot_def\<close>)
  from neutral_after [OF this, of "\<lambda>s. s\<lparr>k_steal_cnt := k_steal_cnt s + 1\<rparr>" a]
  have "section_ok (StealPicked a (int i)) rk (Deliver a m)
      (upd_sock a (\<lambda>s. s\<lparr>k_steal_cnt := k_steal_cnt s + 1\<rparr>) (dequeued i va rest rk)) []" by simp
  moreover have "steal_from a (int i) rk =
      Inr (Some m, upd_sock a (\<lambda>s. s\<lparr>k_steal_cnt := k_steal_cnt s + 1\<rparr>) (dequeued i va rest rk))"
    using sock_slot_at [OF rx_invD(1) [OF assms(1)] assms(2)] Cons
    by (simp add: steal_from_def dequeued_def Let_def)
  ultimately show ?thesis using that by (simp add: sec_steal_def)
qed

lemma steal_pick_section:
  assumes "rx_inv rk" "pc_ok rk (StealMask a msk)"
  obtains pc' where "sec_steal_pick fuel rnd a msk rk = Inr (pc', rk)" "section_ok (StealMask a msk) rk pc' rk []"
proof -
  have ne: "msk \<noteq> 0" and lt: "\<And>i. bit msk i \<Longrightarrow> i < 20" and a: "Some a \<in> set (r_socks rk)" using assms(2) by auto
  have ok: "section_ok (StealMask a msk) rk pc' rk []"
    if "pc_ok rk pc'" "lock_kept pc' = None" "in_flight pc' = {#}" for pc'
    by (rule still_section) (use assms that in simp_all)
  obtain i where i: "pick_random_set_bit (rnd 0) msk = int i" "bit msk i" by (rule pick_random_bit [OF ne])
  show ?thesis
  proof (cases "pick_second fuel rnd 1 msk (int i)")
    case None
    then show ?thesis using that [of "StealMask a msk"] i ok assms(2) by (simp add: sec_steal_pick_def Let_def)
  next
    case (Some r)
    then obtain v2 p2 where v2: "pick_second fuel rnd 1 msk (int i) = Some (v2, p2)" by (cases r) simp
    obtain j where j: "v2 = int j" "bit msk j" by (rule pick_second_bit [OF ne v2 i(2)])
    obtain a1 k1 a2 k2 where s: "at_slot rk i a1 k1" "at_slot rk j a2 k2"
      using socks_inv_slot [OF rx_invD(1) [OF assms(1)]] lt i(2) j(2) by metis
    define v where "v = (if length (k_rx_q k2) > length (k_rx_q k1) then int j else int i)"
    have "longer_queue rk (int i) v2 = Inr v"
      using sock_slot_at [OF rx_invD(1) [OF assms(1)] s(1)] sock_slot_at [OF rx_invD(1) [OF assms(1)] s(2)]
      by (simp add: longer_queue_def j v_def)
    moreover have "0 \<le> v" "v < 20" using lt [OF i(2)] lt [OF j(2)] by (simp_all add: v_def)
    ultimately show ?thesis using that [of "StealPicked a v"] i v2 a ok by (simp add: sec_steal_pick_def Let_def)
  qed
qed

lemma pull_idle_section:
  assumes "rx_inv rk" "at_slot rk i a k"
  obtains pc' rk' where "sec_pull_idle a rk = Inr (pc', rk')" "section_ok (PullIdle a) rk pc' rk' []"
proof (cases "r_rx_nonempty_bm rk = 0")
  case False
  have "section_ok (PullIdle a) rk (PullLocal a) rk []"
    by (rule still_section) (use assms at_slot_mem [OF rx_invD(1) [OF assms(1)] assms(2)] in simp_all)
  with False that show ?thesis by (simp add: sec_pull_idle_def)
next
  case True
  let ?rk = "rakaia_go_idle a k rk"
  note I = rx_invD [OF assms(1)]
  have "rx_inv ?rk"
    using waiters_inv_go_idle [OF I(1,2) assms(2)] I socks_inv_frame [of ?rk rk] by (simp add: rx_inv_def)
  then have "section_ok (PullIdle a) rk Resting ?rk []"
    using rx_total_same [of ?rk rk] queue_of_frame [of ?rk rk] by (simp add: section_ok_def works_on_def)
  with True that deref_at [OF assms(2)] show ?thesis by (simp add: sec_pull_idle_def)
qed

lemma deliver_section:
  assumes "rx_inv rk" "at_slot rk i a k"
  obtains e rk' where "rakaia_queue_rcv_skb ok a m rk = Inr (e, rk')"
    "section_ok (Deliver a m) rk Resting rk' (if e < 0 then [m] else [])"
proof -
  note I = rx_invD [OF assms(1)]
  have live: "Some a \<in> set (r_socks rk)" by (rule at_slot_mem [OF I(1) assms(2)])
  have heap: "r_heap rk a = Some k" using assms(2) by (simp add: at_slot_def)
  show ?thesis
  proof (cases rule: queue_rcv_cases [OF heap, of ok m])
    case 1
    let ?f = "\<lambda>s. s\<lparr>k_rmem_alloc := k_rmem_alloc s + sb_truesize m, k_mem_charged := k_mem_charged s + sb_truesize m,
        k_recvq := k_recvq s @ [m], k_wakeups := (if k_dead s then k_wakeups s else k_wakeups s + 1)\<rparr>"
    let ?rk = "upd_sock a ?f rk"
    have q: "queue_of ?rk j = queue_of rk j" for j by (auto simp: queue_of_def split: option.split)
    have "rx_inv ?rk"
      using I socks_inv_upd [OF I(1), of ?f a] waiters_inv_frame [of ?rk rk] by (simp add: rx_inv_def)
    moreover have "rx_total ?rk + c_pool (central_of rk) = add_mset m (rx_total rk) + sched_pool ?rk"
      unfolding rx_total_def
    proof (rule held_deliver)
      show "finite (c_socks (central_of rk))" by (auto simp: central_of_def intro: finite_vimageI [of _ Some, unfolded vimage_def])
    qed (use live heap in \<open>auto simp: central_of_def inbox_of_def fun_eq_iff\<close>)
    then have "rx_total ?rk = add_mset m (rx_total rk)"
      using q by (simp add: central_of_def sched_pool_def)
    ultimately have "section_ok (Deliver a m) rk Resting ?rk []"
      using q by (simp add: section_ok_def works_on_def)
    with 1 that show ?thesis by simp
  next
    case (2 e)
    then have "section_ok (Deliver a m) rk Resting rk [m]" using assms(1) by (simp add: section_ok_def works_on_def)
    with 2 that show ?thesis by simp
  qed
qed

lemma section_safe:
  assumes "rx_inv rk" "pc_ok rk pc" "req_ok rk (dw_req d)"
    and "\<And>i a. i < 20 \<Longrightarrow> r_socks rk ! i = Some a \<Longrightarrow> lock_kept pc = Some a \<Longrightarrow>
      slot_ok (Some pc) (bit (r_rx_nonempty_bm rk) i) (queue_of rk i)"
  obtains pc' rk' lost where "sched_section d pc rk = Inr ((pc', rk'), lost)" "section_ok pc rk pc' rk' lost"
proof -
  note I = rx_invD [OF assms(1)]
  show ?thesis
  proof (cases pc)
    case Resting
    show ?thesis
    proof (cases "dw_req d")
      case (ReqPush skb psock)
      obtain i a k where sq: "shorter_queue rk (dw_rnd1 d) (dw_rnd2 d) = Inr (a, k)" "at_slot rk i a k"
        by (rule shorter_queue_slot [OF I(1)])
      let ?pc = "PushChosen a (skb\<lparr>sb_cb0 := CbPsock psock\<rparr>)"
      have "section_ok Resting rk ?pc rk []"
        by (rule still_section) (use assms(1) at_slot_mem [OF I(1) sq(2)] in simp_all)
      with Resting ReqPush sq that show ?thesis by (simp add: sec_choose_def)
    next
      case (ReqPull ksk)
      have "section_ok Resting rk (PullLocal ksk) rk []"
        by (rule still_section) (use assms(1,3) ReqPull in \<open>simp_all add: req_ok_def\<close>)
      with Resting ReqPull that show ?thesis by simp
    qed
  next
    case (PushChosen ca m)
    then have "Some ca \<in> set (r_socks rk)" using assms(2) by simp
    then obtain i c where c: "at_slot rk i ca c" by (rule mem_at_slot [OF I(1)])
    show ?thesis by (rule push_lock_section [OF assms(1) c, of m]) (use that PushChosen in simp)
  next
    case (PushLocked ca m)
    then have "Some ca \<in> set (r_socks rk)" using assms(2) by simp
    then obtain i c where c: "at_slot rk i ca c" by (rule mem_at_slot [OF I(1)])
    show ?thesis by (rule push_waiters_section [OF assms(1) c, of m]) (use that PushLocked in simp)
  next
    case (PushListed ca new)
    then have "Some ca \<in> set (r_socks rk)" using assms(2) by simp
    then obtain i c where c: "at_slot rk i ca c" by (rule mem_at_slot [OF I(1)])
    have "length (k_rx_q c) = 1"
      using assms(4) [of i ca] c queue_of_at [OF c] PushListed by (simp add: at_slot_def)
    with assms(2) PushListed have "pc_ok rk (PushListed ca new)" "length (k_rx_q c) = 1" by simp_all
    then show ?thesis by (rule push_finish_section [OF assms(1) c]) (use that PushListed in simp)
  next
    case (PullLocal a)
    then have "Some a \<in> set (r_socks rk)" using assms(2) by simp
    then obtain i k where c: "at_slot rk i a k" by (rule mem_at_slot [OF I(1)])
    show ?thesis by (rule pull_local_section [OF assms(1) c]) (use that PullLocal in simp)
  next
    case (StealScan a)
    have "section_ok (StealScan a) rk (if r_rx_nonempty_bm rk = 0 then PullIdle a else StealMask a (r_rx_nonempty_bm rk)) rk []"
      by (rule still_section) (use assms(1,2) StealScan I(3) in auto)
    with that StealScan show ?thesis by (auto simp: sec_steal_scan_def split: if_splits)
  next
    case (StealMask a msk)
    show ?thesis
      by (rule steal_pick_section [OF assms(1), of a msk "dw_fuel d" "dw_rnd d"]) (use assms(2) that StealMask in simp_all)
  next
    case (StealPicked a v)
    define i where "i = nat v"
    have v: "v = int i" "i < 20" "Some a \<in> set (r_socks rk)" using assms(2) StealPicked by (auto simp: i_def)
    obtain va k where c: "at_slot rk i va k" by (rule socks_inv_slot [OF I(1) v(2)])
    show ?thesis by (rule steal_section [OF assms(1) c v(3)]) (use that StealPicked v(1) in simp)
  next
    case (PullIdle a)
    then have "Some a \<in> set (r_socks rk)" using assms(2) by simp
    then obtain i k where c: "at_slot rk i a k" by (rule mem_at_slot [OF I(1)])
    show ?thesis by (rule pull_idle_section [OF assms(1) c]) (use that PullIdle in simp)
  next
    case (Deliver a m)
    then have "Some a \<in> set (r_socks rk)" using assms(2) by simp
    then obtain i k where c: "at_slot rk i a k" by (rule mem_at_slot [OF I(1)])
    show ?thesis by (rule deliver_section [OF assms(1) c, of "dw_ok d" m]) (use that Deliver in simp)
  qed
qed

lemma act_safe:
  assumes "conc_inv s" "t < length (cs_pcs s)" "req_ok (cs_rk s) (dw_req d)" "sched_act d t s = Some r"
  obtains s' where "r = Inr s'" "conc_inv s'" "conc_total s' + cs_pushed s = conc_total s + cs_pushed s'"
    "length (cs_pcs s') = length (cs_pcs s)" "r_socks (cs_rk s') = r_socks (cs_rk s)"
proof -
  let ?pc = "cs_pcs s ! t"
  note C = conc_invD [OF assms(1)]
  have slot: "slot_ok (Some ?pc) (bit (r_rx_nonempty_bm (cs_rk s)) i) (queue_of (cs_rk s) i)"
    if "i < 20" "r_socks (cs_rk s) ! i = Some a" "lock_kept ?pc = Some a" for i a
    using C(4) [OF that(1,2)] C(3) [of a t] that(3) assms(2) by simp
  obtain pc' rk' lost where S: "sched_section d ?pc (cs_rk s) = Inr ((pc', rk'), lost)"
    "section_ok ?pc (cs_rk s) pc' rk' lost"
    by (rule section_safe [OF C(1) C(2) [OF assms(2)] assms(3) slot])
  have free: "\<forall>a. lock_wanted (cs_rk s) ?pc = Some a \<longrightarrow> cs_lock s a = None"
    using assms(4) by (auto simp: sched_act_def Let_def split: if_splits)
  let ?s = "s\<lparr>cs_rk := rk', cs_pcs := (cs_pcs s)[t := pc'], cs_lock := relock t ?pc pc' (cs_lock s),
               cs_pushed := cs_pushed s + (if ?pc = Resting then in_flight pc' else {#}),
               cs_lost := cs_lost s + mset lost\<rparr>"
  have "r = Inr ?s" using assms(4) S(1) by (auto simp: sched_act_def Let_def split: if_splits)
  from this act_inv [OF assms(1,2) S(2) free refl] show ?thesis
    by (rule that) (use S(2) in \<open>simp_all add: section_ok_def\<close>)
qed

lemma at_rest_slots:
  assumes "conc_inv s" "set (cs_pcs s) \<subseteq> {Resting}"
  shows "cs_lock s a = None" "bm_inv (cs_rk s)"
proof -
  note C = conc_invD [OF assms(1)]
  show none: "cs_lock s a = None" for a
  proof (cases "cs_lock s a")
    case (Some t)
    with C(3) [of a t] have t: "t < length (cs_pcs s)" "lock_kept (cs_pcs s ! t) = Some a" by simp_all
    from t(1) assms(2) have "cs_pcs s ! t = Resting" using nth_mem by blast
    with t(2) show ?thesis by simp
  qed
  show "bm_inv (cs_rk s)"
    unfolding bm_inv_def
  proof
    fix i
    show "bit (r_rx_nonempty_bm (cs_rk s)) i \<longleftrightarrow> i < 20 \<and> queue_of (cs_rk s) i \<noteq> []"
    proof (cases "i < 20")
      case True
      then obtain a k where "at_slot (cs_rk s) i a k" by (rule socks_inv_slot [OF rx_invD(1) [OF C(1)]])
      then have "r_socks (cs_rk s) ! i = Some a" by (simp add: at_slot_def)
      from C(4) [OF True this] none show ?thesis using True by simp
    qed (use rx_invD(3) [OF C(1), of i] in auto)
  qed
qed

lemma start_inv:
  assumes "sched_inv rk"
  shows "conc_inv (all_resting rk n)" "conc_total (all_resting rk n) = rx_total rk"
proof -
  note I = sched_invD [OF assms]
  have "rx_inv rk" using I by (auto simp: rx_inv_def bm_inv_def)
  moreover have "sum_list (map in_flight (replicate n Resting)) = {#}" by (induction n) simp_all
  ultimately show "conc_inv (all_resting rk n)" "conc_total (all_resting rk n) = rx_total rk"
    using I(2) by (auto simp: conc_inv_def all_resting_def conc_total_def bm_inv_def)
qed

lemma interleave_inv:
  assumes "sched_interleave s s'" "conc_inv s"
  shows "conc_inv s'" "conc_total s' + cs_pushed s = conc_total s + cs_pushed s'"
    "length (cs_pcs s') = length (cs_pcs s)" "r_socks (cs_rk s') = r_socks (cs_rk s)"
proof -
  have "conc_inv s' \<and> conc_total s' + cs_pushed s = conc_total s + cs_pushed s' \<and>
    length (cs_pcs s') = length (cs_pcs s) \<and> r_socks (cs_rk s') = r_socks (cs_rk s)"
    using assms
  proof (induction rule: sched_interleave.induct)
    case (il_act s s1 t d s2)
    then have IH: "conc_inv s1" "conc_total s1 + cs_pushed s = conc_total s + cs_pushed s1"
      "length (cs_pcs s1) = length (cs_pcs s)" "r_socks (cs_rk s1) = r_socks (cs_rk s)" by simp_all
    obtain s3 where n: "(Inr s2 :: fault + sched_conc) = Inr s3" "conc_inv s3" "conc_total s3 + cs_pushed s1 = conc_total s1 + cs_pushed s3"
      "length (cs_pcs s3) = length (cs_pcs s1)" "r_socks (cs_rk s3) = r_socks (cs_rk s1)"
      by (rule act_safe [OF IH(1) il_act.hyps(2-4)])
    from mset_chain [OF n(3) IH(2)] n IH show ?case by simp
  qed simp
  then show "conc_inv s'" "conc_total s' + cs_pushed s = conc_total s + cs_pushed s'"
    "length (cs_pcs s') = length (cs_pcs s)" "r_socks (cs_rk s') = r_socks (cs_rk s)" by simp_all
qed

lemma req_ok_socks: "r_socks rk' = r_socks rk \<Longrightarrow> req_ok rk' r = req_ok rk r"
  by (cases r) (simp_all add: req_ok_def)

end
