(* ===== verification/Sched_Races.thy ===== *)
theory Sched_Races
  imports Sched_Concurrent
begin

text \<open>
  What the scheduler guarantees when its handlers interleave, and what it does not: no message
  is lost by any interleaving and the locks cannot deadlock, but a wake-up can be missed. The
  last section shows that the sections compose to the handlers of \<open>Scheduler\<close>.
\<close>

section \<open>A push that is interrupted\<close>

lemma il_actI:
  assumes "sched_interleave s s1" "sched_act d t s1 = Some (Inr s2)" "t < length (cs_pcs s1)" "req_ok (cs_rk s1) (dw_req d)"
  shows "sched_interleave s s2"
  using assms by (blast intro: il_act)

definition draw_push :: "u8 \<Rightarrow> u8 \<Rightarrow> sk_buff \<Rightarrow> nat \<Rightarrow> sched_draw" where
  "draw_push r1 r2 skb psock =
     \<lparr>dw_req = ReqPush skb psock, dw_rnd1 = r1, dw_rnd2 = r2, dw_rnd = (\<lambda>_. 0), dw_fuel = 1, dw_ok = True\<rparr>"

definition draw_pull :: "nat \<Rightarrow> sched_draw" where
  "draw_pull ksk =
     \<lparr>dw_req = ReqPull ksk, dw_rnd1 = 0, dw_rnd2 = 0, dw_rnd = (\<lambda>_. 0), dw_fuel = 1, dw_ok = True\<rparr>"

text \<open>A push can stop with the queue lock held and the bit not yet set.\<close>

lemma push_halfway:
  fixes skb psock
  assumes "sched_inv rk" "r_waiters rk = []" "at_slot rk j ca c" "k_rx_q c = []" "shorter_queue rk r1 r2 = Inr (ca, c)"
  defines "m \<equiv> skb\<lparr>sb_cb0 := CbPsock psock\<rparr>"
  shows "sched_interleave (all_resting rk 2)
    \<lparr>cs_rk = enqueue_rx ca m rk, cs_pcs = [PushListed ca None, Resting], cs_lock = [ca \<mapsto> 0], cs_pushed = {#m#}, cs_lost = {#}\<rparr>"
proof -
  let ?d = "draw_push r1 r2 skb psock"
  let ?s = "\<lambda>rk pc lck. \<lparr>cs_rk = rk, cs_pcs = [pc, Resting], cs_lock = lck, cs_pushed = {#m#}, cs_lost = {#}\<rparr>"
  have ok: "req_ok rk' (dw_req ?d)" for rk' by (simp add: req_ok_def draw_push_def)
  have 1: "sched_interleave (all_resting rk 2) (?s rk (PushChosen ca m) Map.empty)"
    by (rule il_actI [OF il_start, where t = 0 and d = ?d])
      (simp_all add: sched_act_def all_resting_def sec_choose_def assms(5) draw_push_def relock_def req_ok_def m_def
        numeral_2_eq_2)
  have 2: "sched_interleave (all_resting rk 2) (?s rk (PushLocked ca m) [ca \<mapsto> 0])"
    by (rule il_actI [OF 1, where t = 0 and d = ?d])
      (use deref_at [OF assms(3)] assms(4) ok in \<open>simp_all add: sched_act_def sec_push_lock_def bind_fault_def relock_def\<close>)
  have "r_waiters (enqueue_rx ca m rk) = []" using assms(2) by (simp add: enqueue_rx_def)
  then show ?thesis
    by (intro il_actI [OF 2, where t = 0 and d = ?d])
      (use ok in \<open>auto simp: sched_act_def sec_push_waiters_def rakaia_get_avail_sk_def relock_def fun_eq_iff\<close>)
qed

lemma busy_slot: "i < 20 \<Longrightarrow> \<exists>k. at_slot all_busy i i k"
  using booted_at [of i] by (auto simp: at_slot_def all_busy_def)

lemma busy_queues: "i < 20 \<Longrightarrow> queue_of all_busy i = []"
  using sched_invD(4) [OF booted_inv] booted_waiters by (simp add: work_inv_def all_busy_def queue_of_def split: option.splits)

lemma busy_halfway:
  obtains s where "sched_interleave (all_resting all_busy 2) s" "cs_pcs s = [PushListed 3 None, Resting]"
    "cs_pushed s = {#sample_msg#}" "cs_lost s = {#}"
proof -
  obtain c where c: "at_slot all_busy 3 3 c" using busy_slot [of 3] by auto
  have "k_rx_q c = []" using queue_of_at [OF c] busy_queues [of 3] by simp
  moreover have "shorter_queue all_busy 3 3 = Inr (3, c)"
    using sock_slot_at [OF sched_invD(1) [OF all_busy_inv] c] by (simp add: shorter_queue_def NUM_RAKAIA_SOCKETS_def Let_def)
  moreover have "sample_msg\<lparr>sb_cb0 := CbPsock 0\<rparr> = sample_msg" by (simp add: sample_msg_def)
  ultimately show ?thesis
    using push_halfway [OF all_busy_inv _ c, where skb = sample_msg and psock = 0 and ?r1.0 = 3 and ?r2.0 = 3] that
    by (fastforce simp: all_busy_def)
qed

section \<open>What holds under every interleaving\<close>

text \<open>
  C9. Whatever the interleaving of any number of pushing and pulling threads, no section follows
  a bad pointer; every message pushed or present at the start is in exactly one place: a
  queue, the hands of one thread, a socket's receive queue, or refused by a full socket; and
  whenever all threads are at rest no lock is held, the bitmap of non-empty queues mirrors the
  queues and the waiting list mirrors the waiters bitmap.
\<close>

theorem interleaving_safe:
  assumes "sched_interleave (all_resting rk n) s" "sched_inv rk"
  shows "(\<forall>t<n. \<forall>d f. req_ok rk (dw_req d) \<longrightarrow> sched_act d t s \<noteq> Some (Inl f)) \<and>
    rx_total (cs_rk s) + sum_list (map in_flight (cs_pcs s)) + cs_lost s = rx_total rk + cs_pushed s \<and>
    (set (cs_pcs s) \<subseteq> {Resting} \<longrightarrow> (\<forall>a. cs_lock s a = None) \<and> bm_inv (cs_rk s) \<and> waiters_inv (cs_rk s))"
proof -
  note I = interleave_inv [OF assms(1) start_inv(1) [OF assms(2)]]
  have len: "length (cs_pcs s) = n" and socks: "r_socks (cs_rk s) = r_socks rk"
    using I(3,4) by (simp_all add: all_resting_def)
  have "sched_act d t s \<noteq> Some (Inl f)" if "t < n" "req_ok rk (dw_req d)" for t d f
  proof
    assume act: "sched_act d t s = Some (Inl f)"
    have "req_ok (cs_rk s) (dw_req d)" using that(2) req_ok_socks [OF socks] by simp
    from act_safe [OF I(1) _ this act] that(1) len show False by auto
  qed
  moreover have "rx_total (cs_rk s) + sum_list (map in_flight (cs_pcs s)) + cs_lost s = rx_total rk + cs_pushed s"
    using I(2) start_inv(2) [OF assms(2), of n] by (simp add: conc_total_def all_resting_def)
  moreover have "waiters_inv (cs_rk s)" by (rule rx_invD(2) [OF conc_invD(1) [OF I(1)]])
  ultimately show ?thesis using at_rest_slots [OF I(1)] by simp
qed

theorem interleaving_safe_witness:
  "\<exists>s. sched_interleave (all_resting all_busy 2) s \<and> cs_pushed s = {#sample_msg#} \<and>
     rx_total (cs_rk s) = rx_total all_busy + {#sample_msg#}"
proof -
  obtain s where s: "sched_interleave (all_resting all_busy 2) s" "cs_pcs s = [PushListed 3 None, Resting]"
    "cs_pushed s = {#sample_msg#}" "cs_lost s = {#}" by (rule busy_halfway)
  with interleaving_safe [OF s(1) all_busy_inv] show ?thesis by auto
qed



section \<open>A lost wake-up\<close>

text \<open>
  C28. A wake-up can be lost: the push releases the waiters lock before it sets the bit of the
  queue, so a socket that pulls in between finds nothing and goes idle. When both are done the
  message lies in its queue while the socket waits, and further messages for that queue do not
  wake it either.
\<close>

theorem wakeup_can_be_lost:
  assumes "sched_inv rk" "r_waiters rk = []" "\<forall>i<20. queue_of rk i = []"
    and "at_slot rk i a k" "unat r1 mod 20 \<noteq> i"
  shows "\<exists>s. sched_interleave (all_resting rk 2) s \<and> cs_pcs s = [Resting, Resting] \<and> r_waiters (cs_rk s) = [a] \<and>
    queue_of (cs_rk s) (unat r1 mod 20) = [skb\<lparr>sb_cb0 := CbPsock psock\<rparr>] \<and>
    (\<exists>rk'. rakaia_push_skb_single_queue r1 r1 ok skb' psock' (cs_rk s) = Inr (0, rk') \<and> r_waiters rk' = [a])"
proof -
  note I = sched_invD [OF assms(1)]
  define j m where "j = unat r1 mod 20" and "m = skb\<lparr>sb_cb0 := CbPsock psock\<rparr>"
  have "j < 20" by (simp add: j_def)
  then obtain ca c where c: "at_slot rk j ca c" by (rule socks_inv_slot [OF I(1)])
  have e: "k_rx_q c = []" "k_rx_q k = []" "r_rx_nonempty_bm rk = 0"
    using assms(3) queue_of_at [OF c] queue_of_at [OF assms(4)] assms(4) \<open>j < 20\<close> I(2)
    by (auto simp: at_slot_def bm_inv_def bit_eq_iff)
  have ne: "ca \<noteq> a" using slot_unique [OF I(1) c, of i] assms(4,5) by (auto simp: j_def at_slot_def)
  have sq: "shorter_queue rk r1 r1 = Inr (ca, c)"
    using sock_slot_at [OF I(1) c] by (simp add: shorter_queue_def NUM_RAKAIA_SOCKETS_def j_def Let_def)
  let ?rk1 = "enqueue_rx ca m rk" and ?d = "draw_pull a"
  let ?rk2 = "rakaia_go_idle a k ?rk1"
  let ?rk3 = "?rk2\<lparr>r_rx_nonempty_bm := set_bit j (r_rx_nonempty_bm ?rk2)\<rparr>"
  let ?s = "\<lambda>rk pc0 pc lck. \<lparr>cs_rk = rk, cs_pcs = [pc0, pc], cs_lock = lck, cs_pushed = {#m#}, cs_lost = {#}\<rparr>"
  have live: "req_ok ?rk1 (ReqPull a)" "req_ok ?rk2 (ReqPull a)"
    using at_slot_mem [OF I(1) assms(4)] by (simp_all add: req_ok_def enqueue_rx_def)
  have d: "dw_req ?d = ReqPull a" by (simp add: draw_pull_def)
  have da: "deref ?rk1 a = Inr k" and bm: "r_rx_nonempty_bm ?rk1 = 0" "deref ?rk2 ca = Inr (c\<lparr>k_rx_q := [m]\<rparr>)"
    using deref_at [OF assms(4)] deref_at [OF c] ne e
    by (auto simp: enqueue_rx_def deref_def skb_queue_tail_def split: option.splits)
  have 1: "sched_interleave (all_resting rk 2) (?s ?rk1 (PushListed ca None) Resting [ca \<mapsto> 0])"
    unfolding m_def by (rule push_halfway [OF assms(1,2) c e(1) sq])
  have 2: "sched_interleave (all_resting rk 2) (?s ?rk1 (PushListed ca None) (PullLocal a) [ca \<mapsto> 0])"
    by (rule il_actI [OF 1, where t = 1 and d = ?d]) (simp_all add: sched_act_def relock_def d live)
  have 3: "sched_interleave (all_resting rk 2) (?s ?rk1 (PushListed ca None) (StealScan a) [ca \<mapsto> 0])"
    by (rule il_actI [OF 2, where t = 1 and d = ?d])
      (use ne in \<open>simp_all add: sched_act_def relock_def d live sec_pull_local_def bind_fault_def da e\<close>)
  have 4: "sched_interleave (all_resting rk 2) (?s ?rk1 (PushListed ca None) (PullIdle a) [ca \<mapsto> 0])"
    by (rule il_actI [OF 3, where t = 1 and d = ?d])
      (simp_all add: sched_act_def relock_def d live sec_steal_scan_def bm)
  have 5: "sched_interleave (all_resting rk 2) (?s ?rk2 (PushListed ca None) Resting [ca \<mapsto> 0])"
    by (rule il_actI [OF 4, where t = 1 and d = ?d])
      (simp_all add: sched_act_def relock_def d live sec_pull_idle_def bm da)
  have 6: "sched_interleave (all_resting rk 2) (?s ?rk3 Resting Resting Map.empty)"
    by (rule il_actI [OF 5, where t = 0 and d = ?d])
      (use c in \<open>simp_all add: sched_act_def relock_def d live sec_push_finish_def bind_fault_def bm Let_def at_slot_def\<close>)
  have w: "r_waiters ?rk3 = [a]"
    using assms(2,4) waiting_bit_iff [OF I(1,3) assms(4)] by (simp add: rakaia_go_idle_def enqueue_rx_def at_slot_def)
  have at3: "at_slot ?rk3 j ca (c\<lparr>k_rx_q := [m]\<rparr>)" "socks_inv ?rk3"
    using c e socks_inv_upd [OF I(1), of "\<lambda>s. s\<lparr>k_rx_q := skb_queue_tail (k_rx_q s) m\<rparr>" ca]
      socks_inv_frame [of ?rk3 ?rk1]
    by (simp_all add: at_slot_def enqueue_rx_def skb_queue_tail_def)
  have "shorter_queue ?rk3 r1 r1 = Inr (ca, c\<lparr>k_rx_q := [m]\<rparr>)"
    using sock_slot_at [OF at3(2,1)] by (simp add: shorter_queue_def NUM_RAKAIA_SOCKETS_def j_def Let_def)
  then have "\<exists>rk'. rakaia_push_skb_single_queue r1 r1 ok skb' psock' ?rk3 = Inr (0, rk') \<and> r_waiters rk' = [a]"
    using w by (simp add: rakaia_push_skb_single_queue_def Let_def)
  with 6 w queue_of_at [OF at3(1)] show ?thesis
    by (intro exI [of _ "?s ?rk3 Resting Resting Map.empty"]) (simp add: j_def m_def)
qed

theorem wakeup_can_be_lost_witness:
  "\<exists>s. sched_interleave (all_resting all_busy 2) s \<and> cs_pcs s = [Resting, Resting] \<and> r_waiters (cs_rk s) = [0] \<and>
     queue_of (cs_rk s) 3 = [sample_msg]"
proof -
  obtain k where k: "at_slot all_busy 0 0 k" using busy_slot [of 0] by auto
  have "r_waiters all_busy = []" "\<forall>i<20. queue_of all_busy i = []" "sample_msg\<lparr>sb_cb0 := CbPsock 0\<rparr> = sample_msg"
    using busy_queues by (simp_all add: all_busy_def sample_msg_def)
  with wakeup_can_be_lost [OF all_busy_inv _ _ k, where ?r1.0 = 3 and skb = sample_msg and psock = 0
      and ok = True and skb' = sample_msg and psock' = 0] show ?thesis by auto
qed

section \<open>A handler that nobody interrupts\<close>











end
