(* ===== verification/Tx_Concurrent.thy ===== *)
theory Tx_Concurrent
  imports Tx_Theorems
begin

text \<open>
  The send path of one connection under interleaving: any number of threads put messages on
  its accumulation queue and call \<open>try_send_from_psock\<close>. A transition is one section between
  two synchronisation points: the splice onto the accumulation queue under \<open>tx_lock\<close>, the
  compare-and-exchange on \<open>tx_in_use\<close>, one look of the send loop under \<open>tx_lock\<close>, handing the
  write queue to TCP, and clearing the flag. The statistics counters are left out.
\<close>

section \<open>Transitions\<close>

datatype tx_pc = TxIdle | TxQueued | TxLoop | TxPush | TxExit

text \<open>\<open>tc_log\<close> records every buffer in the order in which it was queued.\<close>

record tx_conc =
  tc_ps :: rakaia_psock
  tc_tp :: tcp_sock
  tc_pcs :: "tx_pc list"
  tc_log :: "tx_skb list"

definition tx_move :: "nat \<Rightarrow> tx_pc \<Rightarrow> tx_conc \<Rightarrow> tx_conc" where
  "tx_move t pc s = s\<lparr>tc_pcs := (tc_pcs s)[t := pc]\<rparr>"

inductive tx_step :: "tcp_kernel \<Rightarrow> tx_conc \<Rightarrow> tx_conc \<Rightarrow> bool" for K where
  tx_queue: "t < length (tc_pcs s) \<Longrightarrow> tc_pcs s ! t = TxIdle \<Longrightarrow> counted skbs \<Longrightarrow>
     tx_step K s (tx_move t TxQueued s
       \<lparr>tc_ps := (tc_ps s)\<lparr>p_tx_wait_queue := p_tx_wait_queue (tc_ps s) @ skbs\<rparr>, tc_log := tc_log s @ skbs\<rparr>)"
| tx_lose: "t < length (tc_pcs s) \<Longrightarrow> tc_pcs s ! t = TxQueued \<Longrightarrow> p_tx_in_use (tc_ps s) \<noteq> 0 \<Longrightarrow>
     tx_step K s (tx_move t TxIdle s)"
| tx_win: "t < length (tc_pcs s) \<Longrightarrow> tc_pcs s ! t = TxQueued \<Longrightarrow> p_tx_in_use (tc_ps s) = 0 \<Longrightarrow>
     tx_step K s (tx_move t TxLoop s\<lparr>tc_ps := (tc_ps s)\<lparr>p_tx_in_use := 1\<rparr>\<rparr>)"
| tx_take: "t < length (tc_pcs s) \<Longrightarrow> tc_pcs s ! t = TxLoop \<Longrightarrow> p_tx_wait_queue (tc_ps s) \<noteq> [] \<Longrightarrow>
     tx_step K s (tx_move t TxPush s
       \<lparr>tc_tp := tx_splice (p_tx_wait_queue (tc_ps s)) (tc_tp s), tc_ps := (tc_ps s)\<lparr>p_tx_wait_queue := []\<rparr>\<rparr>)"
| tx_send: "t < length (tc_pcs s) \<Longrightarrow> tc_pcs s ! t = TxPush \<Longrightarrow>
     tx_step K s (tx_move t TxLoop s\<lparr>tc_tp := tk_flush_backlog K (tx_push K junk flags mss (tc_tp s))\<rparr>)"
| tx_empty: "t < length (tc_pcs s) \<Longrightarrow> tc_pcs s ! t = TxLoop \<Longrightarrow> p_tx_wait_queue (tc_ps s) = [] \<Longrightarrow>
     tx_step K s (tx_move t TxExit s)"
| tx_leave: "t < length (tc_pcs s) \<Longrightarrow> tc_pcs s ! t = TxExit \<Longrightarrow>
     tx_step K s (tx_move t TxIdle s\<lparr>tc_ps := (tc_ps s)\<lparr>p_tx_in_use := 0\<rparr>\<rparr>)"

lemma tx_path: "tx_step K a b \<Longrightarrow> (tx_step K)\<^sup>*\<^sup>* b c \<Longrightarrow> (tx_step K)\<^sup>*\<^sup>* a c"
  by (rule converse_rtranclp_into_rtranclp)

section \<open>Mutual exclusion and order\<close>

definition senders :: "tx_conc \<Rightarrow> nat set" where
  "senders s = {t. t < length (tc_pcs s) \<and> tc_pcs s ! t \<in> {TxLoop, TxPush, TxExit}}"

text \<open>The flag is set exactly while one thread is between winning it and leaving.\<close>

definition tx_mutex :: "tx_conc \<Rightarrow> bool" where
  "tx_mutex s \<longleftrightarrow> (if p_tx_in_use (tc_ps s) = 0 then senders s = {} else \<exists>t. senders s = {t})"

text \<open>Everything queued is in the TCP stream or still waits, in the order in which it was queued.\<close>

definition tx_ordered :: "bytes list \<Rightarrow> u32 \<Rightarrow> tx_conc \<Rightarrow> bool" where
  "tx_ordered wq0 seq0 s \<longleftrightarrow>
     (\<exists>sent n. tc_log s = sent @ p_tx_wait_queue (tc_ps s) \<and>
        ts_write_seq (tc_tp s) = seq0 + word_of_nat (payload sent) \<and>
        map tx_data (ts_write_queue (tc_tp s)) = drop n (wq0 @ map tx_data sent))"

definition tx_inv :: "bytes list \<Rightarrow> u32 \<Rightarrow> tx_conc \<Rightarrow> bool" where
  "tx_inv wq0 seq0 s \<longleftrightarrow> tx_mutex s \<and> stream_ok (tc_tp s) \<and> counted (tc_log s) \<and> tx_ordered wq0 seq0 s"

lemma senders_move:
  assumes "t < length (tc_pcs s)"
  shows "senders (tx_move t pc s) =
    (if pc \<in> {TxLoop, TxPush, TxExit} then insert t (senders s) else senders s - {t})"
  using assms by (auto simp: senders_def tx_move_def nth_list_update)

lemma senders_frame [simp]:
  "senders (s\<lparr>tc_ps := ps\<rparr>) = senders s" "senders (s\<lparr>tc_tp := tp\<rparr>) = senders s" "senders (s\<lparr>tc_log := l\<rparr>) = senders s"
  by (simp_all add: senders_def)

lemma tx_move_sel [simp]:
  "tc_ps (tx_move t pc s) = tc_ps s" "tc_tp (tx_move t pc s) = tc_tp s" "tc_log (tx_move t pc s) = tc_log s"
  by (simp_all add: tx_move_def)

lemma keeps_data:
  assumes "keeps f"
  obtains n where "map tx_data (ts_write_queue (f tp)) = drop n (map tx_data (ts_write_queue tp))"
    "ts_write_seq (f tp) = ts_write_seq tp"
proof -
  have img: "map tx_data q = map fst (map tx_image q)" for q by (simp add: tx_image_def)
  obtain n where "map tx_image (ts_write_queue (f tp)) = drop n (map tx_image (ts_write_queue tp))"
    using assms unfolding keeps_def by blast
  then have "map tx_data (ts_write_queue (f tp)) = drop n (map tx_data (ts_write_queue tp))"
    by (simp only: img drop_map)
  then show ?thesis by (rule that) (use assms in \<open>simp add: keeps_def\<close>)
qed

lemma tx_splice_data:
  "map tx_data (ts_write_queue (tx_splice skbs tp)) = map tx_data (ts_write_queue tp) @ map tx_data skbs"
proof -
  obtain moved tp' where a: "assign_seqs skbs tp = (moved, tp')" by (cases "assign_seqs skbs tp")
  from assign_seqs_frame [OF a] show ?thesis by (simp add: tx_splice_def a)
qed

lemma ordered_take:
  assumes "tx_ordered wq0 seq0 s" "counted (p_tx_wait_queue (tc_ps s))"
    and "tc_log s' = tc_log s" "p_tx_wait_queue (tc_ps s') = []"
    and "tc_tp s' = tx_splice (p_tx_wait_queue (tc_ps s)) (tc_tp s)"
  shows "tx_ordered wq0 seq0 s'"
proof -
  let ?w = "p_tx_wait_queue (tc_ps s)"
  obtain sent n where o: "tc_log s = sent @ ?w" "ts_write_seq (tc_tp s) = seq0 + word_of_nat (payload sent)"
    "map tx_data (ts_write_queue (tc_tp s)) = drop n (wq0 @ map tx_data sent)"
    using assms(1) by (auto simp: tx_ordered_def)
  define D where "D = wq0 @ map tx_data sent"
  have "drop n D @ map tx_data ?w = drop (min n (length D)) (D @ map tx_data ?w)" by (simp add: min_def)
  then have "map tx_data (ts_write_queue (tc_tp s')) = drop (min n (length D)) (wq0 @ map tx_data (sent @ ?w))"
    using o(3) tx_splice_data [of ?w "tc_tp s"] assms(5) by (simp add: D_def [symmetric]) (simp add: D_def)
  moreover have "ts_write_seq (tc_tp s') = seq0 + word_of_nat (payload (sent @ ?w))"
    using plain_tx.splice_seq [OF assms(2)] o(2) assms(5) by (simp add: add.assoc)
  ultimately show ?thesis unfolding tx_ordered_def using o(1) assms(3,4) by (metis append_Nil2)
qed

lemma ordered_send:
  assumes "tx_ordered wq0 seq0 s" "keeps f" "tc_log s' = tc_log s" "tc_ps s' = tc_ps s" "tc_tp s' = f (tc_tp s)"
  shows "tx_ordered wq0 seq0 s'"
proof -
  obtain sent n where o: "tc_log s = sent @ p_tx_wait_queue (tc_ps s)"
    "ts_write_seq (tc_tp s) = seq0 + word_of_nat (payload sent)"
    "map tx_data (ts_write_queue (tc_tp s)) = drop n (wq0 @ map tx_data sent)"
    using assms(1) by (auto simp: tx_ordered_def)
  obtain m where "map tx_data (ts_write_queue (f (tc_tp s))) = drop m (map tx_data (ts_write_queue (tc_tp s)))"
    "ts_write_seq (f (tc_tp s)) = ts_write_seq (tc_tp s)" by (rule keeps_data [OF assms(2)])
  then have "map tx_data (ts_write_queue (tc_tp s')) = drop (m + n) (wq0 @ map tx_data sent)"
    "ts_write_seq (tc_tp s') = seq0 + word_of_nat (payload sent)" by (simp_all only: o assms(5) drop_drop)
  with o(1) assms(3,4) show ?thesis unfolding tx_ordered_def by metis
qed

lemma tx_step_inv:
  assumes "tx_step K s s'" "tx_kernel_ok K" "tx_inv wq0 seq0 s"
  shows "tx_inv wq0 seq0 s'"
proof -
  have M: "tx_mutex s" and S: "stream_ok (tc_tp s)" and C: "counted (tc_log s)" and O: "tx_ordered wq0 seq0 s"
    using assms(3) by (simp_all add: tx_inv_def)
  have w: "counted (p_tx_wait_queue (tc_ps s))" using C O by (auto simp: tx_ordered_def)
  have in_senders: "t \<in> senders s" if "t < length (tc_pcs s)" "tc_pcs s ! t \<in> {TxLoop, TxPush, TxExit}" for t
    using that by (simp add: senders_def)
  show ?thesis
    using assms(1)
  proof cases
    case (tx_queue t skbs)
    then have "t \<notin> senders s" by (simp add: senders_def)
    then have "tx_mutex s'" using M tx_queue by (simp add: tx_mutex_def senders_move)
    moreover have "tx_ordered wq0 seq0 s'" using O tx_queue by (auto simp: tx_ordered_def)
    ultimately show ?thesis using S C tx_queue by (simp add: tx_inv_def)
  next
    case (tx_lose t)
    then have "t \<notin> senders s" by (simp add: senders_def)
    then show ?thesis using M S C O tx_lose by (simp add: tx_inv_def tx_mutex_def senders_move tx_ordered_def)
  next
    case (tx_win t)
    then show ?thesis using M S C O by (simp add: tx_inv_def tx_mutex_def senders_move tx_ordered_def)
  next
    case (tx_take t)
    then have "tx_mutex s'" using M in_senders [of t] by (auto simp: tx_mutex_def senders_move split: if_splits)
    moreover have "stream_ok (tc_tp s')" using plain_tx.splice_stream [OF S w] tx_take by simp
    moreover have "tx_ordered wq0 seq0 s'" by (rule ordered_take [OF O w]) (use tx_take in simp_all)
    ultimately show ?thesis using C tx_take by (simp add: tx_inv_def)
  next
    case (tx_send t junk flags mss)
    have k: "keeps (\<lambda>tp. tk_flush_backlog K (tx_push K junk flags mss tp))"
      by (rule keeps_comp [OF keeps_tx_push [OF assms(2)] tx_kernel_okD(2) [OF assms(2)]])
    have "tx_mutex s'" using M in_senders [of t] tx_send by (auto simp: tx_mutex_def senders_move split: if_splits)
    moreover have "stream_ok (tc_tp s')" using keeps_stream(1) [OF k S] tx_send by simp
    moreover have "tx_ordered wq0 seq0 s'" by (rule ordered_send [OF O k]) (use tx_send in simp_all)
    ultimately show ?thesis using C tx_send by (simp add: tx_inv_def)
  next
    case (tx_empty t)
    then show ?thesis using M S C O in_senders [of t]
      by (auto simp: tx_inv_def tx_mutex_def senders_move tx_ordered_def split: if_splits)
  next
    case (tx_leave t)
    then have "t \<in> senders s" by (intro in_senders) simp_all
    with M have "senders s = {t}" by (auto simp: tx_mutex_def split: if_splits)
    then show ?thesis using S C O tx_leave by (simp add: tx_inv_def tx_mutex_def senders_move tx_ordered_def)
  qed
qed

definition tx_start :: "rakaia_psock \<Rightarrow> tcp_sock \<Rightarrow> nat \<Rightarrow> tx_conc" where
  "tx_start ps tp n = \<lparr>tc_ps = ps, tc_tp = tp, tc_pcs = replicate n TxIdle, tc_log = p_tx_wait_queue ps\<rparr>"

lemma tx_start_inv:
  assumes "p_tx_in_use ps = 0" "stream_ok tp" "counted (p_tx_wait_queue ps)"
  shows "tx_inv (map tx_data (ts_write_queue tp)) (ts_write_seq tp) (tx_start ps tp n)"
proof -
  have "senders (tx_start ps tp n) = {}" by (auto simp: senders_def tx_start_def)
  moreover have "tx_ordered (map tx_data (ts_write_queue tp)) (ts_write_seq tp) (tx_start ps tp n)"
    unfolding tx_ordered_def by (intro exI [of _ "[]"] exI [of _ 0]) (simp add: tx_start_def)
  ultimately show ?thesis using assms by (simp add: tx_inv_def tx_mutex_def tx_start_def)
qed

text \<open>
  C11. Sending threads exclude each other and keep the order: whatever the interleaving of any
  number of threads, at most one is in the send loop and the flag is set exactly while one
  is; the write queue stays a contiguous stream, and everything that was queued has reached
  the TCP stream or still waits, in the order in which it was queued.
\<close>

theorem tx_interleaving_ordered:
  assumes "(tx_step K)\<^sup>*\<^sup>* (tx_start ps tp n) s" "tx_kernel_ok K"
    and "p_tx_in_use ps = 0" "stream_ok tp" "counted (p_tx_wait_queue ps)"
  shows "(if p_tx_in_use (tc_ps s) = 0 then senders s = {} else \<exists>t. senders s = {t}) \<and> stream_ok (tc_tp s) \<and>
    (\<exists>sent k. tc_log s = sent @ p_tx_wait_queue (tc_ps s) \<and>
       ts_write_seq (tc_tp s) = ts_write_seq tp + word_of_nat (payload sent) \<and>
       map tx_data (ts_write_queue (tc_tp s)) = drop k (map tx_data (ts_write_queue tp @ sent)))"
proof -
  have "tx_inv (map tx_data (ts_write_queue tp)) (ts_write_seq tp) s"
    using assms(1) by (induction rule: rtranclp_induct) (use tx_start_inv [OF assms(3-5)] tx_step_inv assms(2) in blast)+
  then show ?thesis by (auto simp: tx_inv_def tx_mutex_def tx_ordered_def)
qed

section \<open>A message left behind\<close>

text \<open>
  C29. A message can be left behind: a thread that queues after the sender's last look at the
  queue and tries the flag before the sender clears it returns without sending. When both
  are done the message waits, the flag is clear and no thread is sending.
\<close>

theorem send_can_be_left_behind:
  assumes "p_tx_in_use ps = 0" "p_tx_wait_queue ps = []" "counted skbs"
  shows "\<exists>s. (tx_step K)\<^sup>*\<^sup>* (tx_start ps tp 2) s \<and> tc_pcs s = [TxIdle, TxIdle] \<and>
    p_tx_in_use (tc_ps s) = 0 \<and> p_tx_wait_queue (tc_ps s) = skbs \<and> tc_tp s = tp"
proof -
  let ?s = "\<lambda>ps a b log. \<lparr>tc_ps = ps, tc_tp = tp, tc_pcs = [a, b], tc_log = log\<rparr>"
  let ?on = "ps\<lparr>p_tx_in_use := 1\<rparr>"
  let ?full = "?on\<lparr>p_tx_wait_queue := skbs\<rparr>"
  note moves = tx_move_def assms
  have same: "ps\<lparr>p_tx_wait_queue := []\<rparr> = ps" using assms(2) by (cases ps) simp
  have 1: "tx_step K (?s ps TxIdle TxIdle []) (?s ps TxQueued TxIdle [])"
    using tx_step.tx_queue [of 0 "?s ps TxIdle TxIdle []" "[]" K] same by (simp add: moves counted_def)
  have 2: "tx_step K (?s ps TxQueued TxIdle []) (?s ?on TxLoop TxIdle [])"
    using tx_step.tx_win [of 0 "?s ps TxQueued TxIdle []" K] by (simp add: moves)
  have 3: "tx_step K (?s ?on TxLoop TxIdle []) (?s ?on TxExit TxIdle [])"
    using tx_step.tx_empty [of 0 "?s ?on TxLoop TxIdle []" K] by (simp add: moves)
  have 4: "tx_step K (?s ?on TxExit TxIdle []) (?s ?full TxExit TxQueued skbs)"
    using tx_step.tx_queue [of 1 "?s ?on TxExit TxIdle []" skbs K] by (simp add: moves)
  have 5: "tx_step K (?s ?full TxExit TxQueued skbs) (?s ?full TxExit TxIdle skbs)"
    using tx_step.tx_lose [of 1 "?s ?full TxExit TxQueued skbs" K] by (simp add: moves)
  have 6: "tx_step K (?s ?full TxExit TxIdle skbs) (?s (?full\<lparr>p_tx_in_use := 0\<rparr>) TxIdle TxIdle skbs)"
    using tx_step.tx_leave [of 0 "?s ?full TxExit TxIdle skbs" K] by (simp add: moves)
  have "(tx_step K)\<^sup>*\<^sup>* (?s ps TxIdle TxIdle []) (?s (?full\<lparr>p_tx_in_use := 0\<rparr>) TxIdle TxIdle skbs)"
    by (rule tx_path [OF 1], rule tx_path [OF 2],
        rule tx_path [OF 3], rule tx_path [OF 4],
        rule tx_path [OF 5], rule r_into_rtranclp, rule 6)
  moreover have "tx_start ps tp 2 = ?s ps TxIdle TxIdle []" by (simp add: tx_start_def assms(2) numeral_2_eq_2)
  ultimately show ?thesis by (intro exI [of _ "?s (?full\<lparr>p_tx_in_use := 0\<rparr>) TxIdle TxIdle skbs"]) simp
qed

definition sample_frame :: tx_skb where
  "sample_frame = ctrl_skb 768 [1, 2]"

lemma sample_frame_counted: "counted [sample_frame]"
  by (simp add: counted_def sample_frame_def ctrl_skb_def)

theorem send_can_be_left_behind_witness:
  "\<exists>s. (tx_step sample_kernel)\<^sup>*\<^sup>* (tx_start zero_psock sample_tcp 2) s \<and> tc_pcs s = [TxIdle, TxIdle] \<and>
     p_tx_in_use (tc_ps s) = 0 \<and> p_tx_wait_queue (tc_ps s) = [sample_frame]"
  using send_can_be_left_behind [of zero_psock "[sample_frame]" sample_kernel sample_tcp] sample_frame_counted
  by (auto simp: zero_psock_def)

theorem tx_interleaving_ordered_witness:
  "\<exists>s sent. (tx_step sample_kernel)\<^sup>*\<^sup>* (tx_start zero_psock sample_tcp 2) s \<and>
     tc_log s = [sample_frame] \<and> tc_log s = sent @ p_tx_wait_queue (tc_ps s) \<and>
     ts_write_seq (tc_tp s) = 1000 + word_of_nat (payload sent)"
proof -
  have "tx_step sample_kernel (tx_start zero_psock sample_tcp 2) (tx_move 0 TxQueued (tx_start zero_psock sample_tcp 2)
       \<lparr>tc_ps := zero_psock\<lparr>p_tx_wait_queue := [sample_frame]\<rparr>, tc_log := [sample_frame]\<rparr>)" (is "tx_step _ _ ?s")
    using tx_step.tx_queue [of 0 "tx_start zero_psock sample_tcp 2" "[sample_frame]" sample_kernel] sample_frame_counted
    by (simp add: tx_start_def zero_psock_def)
  then have r: "(tx_step sample_kernel)\<^sup>*\<^sup>* (tx_start zero_psock sample_tcp 2) ?s" by blast
  have "stream_ok sample_tcp" "ts_write_seq sample_tcp = 1000" by (simp_all add: stream_ok_def sample_tcp_def)
  with tx_interleaving_ordered [OF r sample_kernel_ok(1)] r show ?thesis
    by (fastforce simp: zero_psock_def counted_def)
qed

end
