(* ===== verification/Tls_Send.thy ===== *)
theory Tls_Send
  imports World
begin

text \<open>
  The send path of the TLS variant (\<open>src/rakaia/tls/rakaiasock.c\<close>). Unlike the plain variant a
  message is built as a head buffer with a list of further buffers, queued to the rakaia
  socket, moved to the queue of the connection it answers and handed piece by piece to the
  \<open>sock_sendmsg\<close> of the TLS socket. The scheduler is the code of the plain variant and is
  taken from there.
\<close>

section \<open>Messages and state\<close>

abbreviation (input) MSG_BATCH :: u32 where "MSG_BATCH \<equiv> 0x40000"
abbreviation (input) MSG_SPLICE_PAGES :: u32 where "MSG_SPLICE_PAGES \<equiv> 0x8000000"

definition MAX_SKB_FRAGS :: nat where "MAX_SKB_FRAGS = 17"

text \<open>A fragment: its page, the offset in the page and the bytes there.\<close>

type_synonym tls_frag = "nat \<times> nat \<times> bytes"

text \<open>
  The buffers of a message are the head and its fragment list; \<open>frag_skb\<close> and \<open>last_skb\<close>
  point into them. The offset stays within one buffer.
\<close>

record tls_msg =
  tm_bufs :: "tls_frag list list"
  tm_last_skb :: nat
  tm_started_tx :: bool
  tm_frag_skb :: "nat option"
  tm_frag_offset :: nat
  tm_sent :: u32
  tm_ksk :: "nat option"
  tm_psock :: "nat option"

record tls_psock =
  tp_sk :: "nat option"
  tp_strp :: "unit strparser"
  tp_tx_in_use :: bool
  tp_tx_wait_queue :: "tls_msg list"
  tp_save_data_ready :: lower_cb
  tp_save_write_space :: lower_cb
  tp_save_state_change :: lower_cb
  tp_hash_id :: u32

text \<open>The send side of \<open>struct rakaia_sock\<close>; the receive side is in the scheduler's store.\<close>

record tls_ksk =
  tk_type :: sock_type
  tk_write_queue :: "tls_msg list"
  tk_seq_skb :: "tls_msg option"
  tk_wait_more :: bool
  tk_wmem_queued :: int
  tk_pfrag :: page_frag
  tk_err :: int
  tk_nospace :: bool
  tk_write_space :: nat

text \<open>
  A TCP socket under kernel TLS: the callback that its receive context runs once a record is
  decrypted (\<open>None\<close> without such a context), its remote address, and what it accepted.
\<close>

record tls_lower =
  tl_base :: lower
  tl_saved_data_ready :: "lower_cb option"
  tl_daddr :: u32
  tl_dport :: u16
  tl_out :: bytes

text \<open>
  \<open>tw_rcu\<close> are the connections that wait to be freed at the end of a grace period; \<open>tw_lock\<close>
  says that \<open>rakaia->lock\<close> was left held, so that taking it never returns.
\<close>

record tls_world =
  tw_rk :: rakaia
  tw_ksks :: "nat \<Rightarrow> tls_ksk option"
  tw_psocks :: "nat \<Rightarrow> tls_psock option"
  tw_lower :: "nat \<Rightarrow> tls_lower option"
  tw_calls :: nat
  tw_net_list :: "nat list"
  tw_net_count :: int
  tw_buckets :: "nat \<Rightarrow> nat list"
  tw_psock_cnt :: int
  tw_rcu :: "nat list"
  tw_lock :: bool

definition tls_ksk_at :: "tls_world \<Rightarrow> nat \<Rightarrow> fault + tls_ksk" where
  "tls_ksk_at w a = (case tw_ksks w a of None \<Rightarrow> Inl UseAfterFree | Some k \<Rightarrow> Inr k)"

definition tls_psock_at :: "tls_world \<Rightarrow> nat \<Rightarrow> fault + tls_psock" where
  "tls_psock_at w p = (case tw_psocks w p of None \<Rightarrow> Inl UseAfterFree | Some ps \<Rightarrow> Inr ps)"

definition tls_lower_at :: "tls_world \<Rightarrow> nat option \<Rightarrow> fault + nat \<times> tls_lower" where
  "tls_lower_at w c =
     (case c of
        None \<Rightarrow> Inl NullDeref
      | Some a \<Rightarrow> (case tw_lower w a of None \<Rightarrow> Inl UseAfterFree | Some l \<Rightarrow> Inr (a, l)))"

definition set_tls_psock :: "nat \<Rightarrow> tls_psock \<Rightarrow> tls_world \<Rightarrow> tls_world" where
  "set_tls_psock p ps w = w\<lparr>tw_psocks := (tw_psocks w)(p := Some ps)\<rparr>"

definition upd_ksk :: "nat \<Rightarrow> (tls_ksk \<Rightarrow> tls_ksk) \<Rightarrow> tls_world \<Rightarrow> tls_world" where
  "upd_ksk a f w = w\<lparr>tw_ksks := (tw_ksks w)(a := map_option f (tw_ksks w a))\<rparr>"

definition upd_lower :: "nat option \<Rightarrow> (tls_lower \<Rightarrow> tls_lower) \<Rightarrow> tls_world \<Rightarrow> tls_world" where
  "upd_lower c f w =
     (case c of
        None \<Rightarrow> w
      | Some a \<Rightarrow> w\<lparr>tw_lower := (tw_lower w)(a := map_option f (tw_lower w a))\<rparr>)"

declare tls_ksk_at_def [access_defs] tls_psock_at_def [access_defs] tls_lower_at_def [access_defs]
  set_tls_psock_def [access_defs] upd_ksk_def [access_defs] upd_lower_def [access_defs]

section \<open>Writing to the TLS socket\<close>

definition buf_data :: "tls_frag list \<Rightarrow> bytes" where
  "buf_data fs = concat (map (\<lambda>(_, _, d). d) fs)"

datatype part_end = PartDone | PartStop int

text \<open>
  The inner loop: \<open>sock_sendmsg\<close> is asked again while bytes of the buffer remain. \<open>send c bs\<close> is
  its answer to call number \<open>c\<close>: the number of bytes it took, or an error. The result has the
  number of calls and of bytes taken.
\<close>

function send_part :: "(nat \<Rightarrow> bytes \<Rightarrow> int) \<Rightarrow> nat \<Rightarrow> bytes \<Rightarrow> part_end \<times> nat \<times> nat" where
  "send_part send c rest =
     (let r = send c rest in
      if r \<le> 0 then (PartStop r, Suc c, 0)
      else if length rest \<le> nat r then (PartDone, Suc c, nat r)
      else (case send_part send (Suc c) (drop (nat r) rest) of (e, c', n) \<Rightarrow> (e, c', nat r + n)))"
  by pat_completeness auto

termination
  by (relation "measure (\<lambda>(_, _, rest). length rest)") auto

datatype msg_end = MsgSent | MsgAgain | MsgFailed int

text \<open>
  One message: the buffer to go on with, the two checks, the inner loop, then the next buffer.
  \<open>low\<close> is what following \<open>psock->sk\<close> gives. A message whose buffer was taken completely is
  resumed at the next one; \<open>EAGAIN\<close> stores the buffer, a hard failure does not.
\<close>

function write_msg ::
  "(fault + (nat \<Rightarrow> bytes \<Rightarrow> int)) \<Rightarrow> nat \<Rightarrow> tls_msg \<Rightarrow> fault + msg_end \<times> nat \<times> tls_msg \<times> bytes" where
  "write_msg low c m =
     (case (if tm_started_tx m then tm_frag_skb m else Some 0) of
        None \<Rightarrow> Inl NullDeref
      | Some i \<Rightarrow>
          if i \<ge> length (tm_bufs m) then Inl UseAfterFree
          else
            (let m0 = (if tm_started_tx m then m
                       else m\<lparr>tm_frag_offset := 0, tm_sent := 0, tm_started_tx := True\<rparr>)
             in if tm_bufs m ! i = [] then Inr (MsgFailed (- EINVAL), c, m0, [])
                else
                  (case low of
                     Inl f \<Rightarrow> Inl f
                   | Inr send \<Rightarrow>
                       (let rest = drop (tm_frag_offset m0) (buf_data (tm_bufs m ! i)) in
                        case send_part send c rest of (e, c1, n) \<Rightarrow>
                          (let m1 = m0\<lparr>tm_sent := tm_sent m0 + word_of_nat n,
                                       tm_frag_offset := tm_frag_offset m0 + n\<rparr>
                           in case e of
                                PartStop r \<Rightarrow>
                                  Inr (if r = - EAGAIN then (MsgAgain, c1, m1\<lparr>tm_frag_skb := Some i\<rparr>, take n rest)
                                       else (MsgFailed r, c1, m1, take n rest))
                              | PartDone \<Rightarrow>
                                  if Suc i < length (tm_bufs m)
                                  then map_sum id (\<lambda>(e2, c2, m2, out). (e2, c2, m2, take n rest @ out))
                                         (write_msg low c1 (m1\<lparr>tm_frag_skb := Some (Suc i), tm_frag_offset := 0\<rparr>))
                                  else Inr (MsgSent, c1, m1, take n rest))))))"
  by pat_completeness auto

termination
  by (relation "measure (\<lambda>(_, _, m). length (tm_bufs m) -
        (if tm_started_tx m then case tm_frag_skb m of None \<Rightarrow> 0 | Some i \<Rightarrow> i else 0))")
     (auto split: if_splits)

declare send_part.simps [simp del] write_msg.simps [simp del]

text \<open>
  The outer loop over the queue of the connection. The sum of what was sent is an unsigned
  32-bit number that is returned as an \<open>int\<close>.
\<close>

fun write_queue ::
  "(fault + (nat \<Rightarrow> bytes \<Rightarrow> int)) \<Rightarrow> nat \<Rightarrow> tls_msg list \<Rightarrow> u32 \<Rightarrow> (nat \<Rightarrow> tls_ksk option) \<Rightarrow>
     fault + int \<times> nat \<times> tls_msg list \<times> (nat \<Rightarrow> tls_ksk option) \<times> bytes" where
  "write_queue low c [] total_sent ks = Inr (sint total_sent, c, [], ks, [])"
| "write_queue low c (m # q) total_sent ks =
     bind_fault (write_msg low c m) (\<lambda>(e, c1, m1, out).
       case e of
         MsgAgain \<Rightarrow> Inr (0, c1, m1 # q, ks, out)
       | MsgFailed r \<Rightarrow> Inr (r, c1, m1 # q, ks, out)
       | MsgSent \<Rightarrow>
           (case tm_ksk m1 of
              None \<Rightarrow> Inl NullDeref
            | Some a \<Rightarrow>
                (case ks a of
                   None \<Rightarrow> Inl UseAfterFree
                 | Some k \<Rightarrow>
                     map_sum id (\<lambda>(r, c2, q2, ks2, out2). (r, c2, q2, ks2, out @ out2))
                       (write_queue low c1 q (total_sent + tm_sent m1)
                          (ks(a \<mapsto> k\<lparr>tk_wmem_queued := tk_wmem_queued k - uint (tm_sent m1)\<rparr>))))))"

definition write_to_csock ::
  "(nat \<Rightarrow> nat \<Rightarrow> bytes \<Rightarrow> int) \<Rightarrow> nat \<Rightarrow> tls_world \<Rightarrow> fault + int \<times> tls_world" where
  "write_to_csock send p w =
     bind_fault (tls_psock_at w p) (\<lambda>ps.
       bind_fault
         (write_queue (map_sum id (\<lambda>(c, _). send c) (tls_lower_at w (tp_sk ps))) (tw_calls w)
            (tp_tx_wait_queue ps) 0 (tw_ksks w))
         (\<lambda>(r, calls, q, ks, out).
            Inr (r, upd_lower (tp_sk ps) (\<lambda>l. l\<lparr>tl_out := tl_out l @ out\<rparr>)
                      (set_tls_psock p (ps\<lparr>tp_tx_wait_queue := q\<rparr>)
                         (w\<lparr>tw_calls := calls, tw_ksks := ks\<rparr>)))))"

section \<open>The queue of a rakaia socket\<close>

definition set_in_use :: "nat \<Rightarrow> bool \<Rightarrow> tls_world \<Rightarrow> tls_world" where
  "set_in_use p b w =
     w\<lparr>tw_psocks := (tw_psocks w)(p := map_option (\<lambda>ps. ps\<lparr>tp_tx_in_use := b\<rparr>) (tw_psocks w p))\<rparr>"

definition tls_write_space :: "nat \<Rightarrow> tls_world \<Rightarrow> tls_world" where
  "tls_write_space a = upd_ksk a (\<lambda>k. k\<lparr>tk_write_space := tk_write_space k + 1\<rparr>)"

text \<open>\<open>out\<close>: the write-space callback, then the bytes sent, or else the last result.\<close>

definition write_msgs_out :: "nat \<Rightarrow> u32 \<Rightarrow> int \<Rightarrow> tls_world \<Rightarrow> fault + int \<times> tls_world" where
  "write_msgs_out a total_sent ret w = Inr (if total_sent \<noteq> 0 then sint total_sent else ret, tls_write_space a w)"

fun write_msgs_loop ::
  "(nat \<Rightarrow> nat \<Rightarrow> bytes \<Rightarrow> int) \<Rightarrow> nat \<Rightarrow> tls_msg list \<Rightarrow> u32 \<Rightarrow> int \<Rightarrow> tls_world \<Rightarrow> fault + int \<times> tls_world" where
  "write_msgs_loop send a [] total_sent ret w = write_msgs_out a total_sent ret w"
| "write_msgs_loop send a (m # q) total_sent ret w =
     (let w1 = upd_ksk a (\<lambda>k. k\<lparr>tk_write_queue := q\<rparr>) w in
      case tm_psock m of
        None \<Rightarrow> Inr (0, w1)
      | Some p \<Rightarrow>
          bind_fault (tls_psock_at w1 p) (\<lambda>ps.
            let w2 = set_tls_psock p (ps\<lparr>tp_tx_wait_queue := tp_tx_wait_queue ps @ [m]\<rparr>) w1 in
            if tp_tx_in_use ps then write_msgs_loop send a q total_sent ret w2
            else
              bind_fault (write_to_csock send p (set_in_use p True w2)) (\<lambda>(r, w3).
                if r \<le> 0 then write_msgs_out a total_sent r (set_in_use p True w3)
                else write_msgs_loop send a q (total_sent + word_of_int r) r (set_in_use p False w3))))"

definition rakaia_write_msgs ::
  "(nat \<Rightarrow> nat \<Rightarrow> bytes \<Rightarrow> int) \<Rightarrow> nat \<Rightarrow> tls_world \<Rightarrow> fault + int \<times> tls_world" where
  "rakaia_write_msgs send a w =
     bind_fault (tls_ksk_at w a) (\<lambda>k.
       write_msgs_loop send a (tk_write_queue k) 0 0 (upd_ksk a (\<lambda>k. k\<lparr>tk_wait_more := False\<rparr>) w))"

definition tls_push :: "(nat \<Rightarrow> nat \<Rightarrow> bytes \<Rightarrow> int) \<Rightarrow> nat \<Rightarrow> tls_world \<Rightarrow> fault + tls_world" where
  "tls_push send a w =
     bind_fault (tls_ksk_at w a) (\<lambda>k.
       if tk_wait_more k then map_sum id (\<lambda>(_, w1). w1) (rakaia_write_msgs send a w) else Inr w)"

definition rakaia_splice_eof ::
  "(nat \<Rightarrow> nat \<Rightarrow> bytes \<Rightarrow> int) \<Rightarrow> nat \<Rightarrow> tls_world \<Rightarrow> fault + tls_world" where
  "rakaia_splice_eof send a w =
     bind_fault (tls_ksk_at w a) (\<lambda>k.
       if tk_write_queue k = [] then Inr w
       else map_sum id (\<lambda>(_, w1). w1) (rakaia_write_msgs send a w))"

section \<open>Building a message\<close>

text \<open>What the kernel answers to the step with the given number.\<close>

record tls_call =
  tc_mem_free :: bool
  tc_wait :: "nat \<Rightarrow> int"
  tc_alloc :: "nat \<Rightarrow> bool"
  tc_refill :: "nat \<Rightarrow> page_frag \<Rightarrow> page_frag option"
  tc_wmem_schedule :: "nat \<Rightarrow> nat \<Rightarrow> bool"
  tc_copy :: "nat \<Rightarrow> int"
  tc_splice :: "nat \<Rightarrow> nat \<Rightarrow> bytes \<Rightarrow> int \<times> tls_frag list"
  tc_stream_error :: "int \<Rightarrow> int"
  tc_send :: "nat \<Rightarrow> nat \<Rightarrow> bytes \<Rightarrow> int"
  tc_rnd :: "nat \<Rightarrow> u8"
  tc_sched_ok :: bool

record tls_build =
  tb_left :: bytes
  tb_bufs :: "tls_frag list list"
  tb_at :: nat
  tb_copied :: nat
  tb_pfrag :: page_frag
  tb_tick :: nat

datatype copy_end = CopyNext nat | CopyWait | CopyError int

definition frag_coalesces :: "tls_frag list \<Rightarrow> nat \<Rightarrow> nat \<Rightarrow> bool" where
  "frag_coalesces fs page off =
     (fs \<noteq> [] \<and> (case last fs of (p, o', d) \<Rightarrow> p = page \<and> o' + length d = off))"

definition frag_append :: "bool \<Rightarrow> nat \<Rightarrow> nat \<Rightarrow> bytes \<Rightarrow> tls_frag list \<Rightarrow> tls_frag list" where
  "frag_append merge page off bs fs =
     (if merge then butlast fs @ [case last fs of (p, o', d) \<Rightarrow> (p, o', d @ bs)] else fs @ [(page, off, bs)])"

text \<open>
  One iteration of the copy loop. The fragment list of the head, or the next pointer of the
  current buffer, is set to the new buffer, which cuts off what was linked there before. The
  number in the result is what the iteration adds to the write memory of the socket. A write
  call is limited to \<open>INT_MAX\<close> bytes, so the \<open>int\<close> minimum is that of the lengths. The lengths
  and the true size added up in the head are read by nobody and left out.
\<close>

definition tls_copy_iter :: "tls_call \<Rightarrow> u32 \<Rightarrow> tls_build \<Rightarrow> copy_end \<times> tls_build" where
  "tls_copy_iter C flags s =
     (let t = tb_tick s; s0 = s\<lparr>tb_tick := Suc t\<rparr> in
      case tc_refill C t (tb_pfrag s) of
        None \<Rightarrow> (CopyWait, s0)
      | Some (page, off, sz) \<Rightarrow>
          (let s1 = s0\<lparr>tb_pfrag := (page, off, sz)\<rparr>;
               fs = tb_bufs s ! tb_at s;
               merge = frag_coalesces fs page off
           in if \<not> merge \<and> length fs = MAX_SKB_FRAGS
              then (if tc_alloc C t
                    then (CopyNext 0, s1\<lparr>tb_bufs := take (Suc (tb_at s)) (tb_bufs s) @ [[]], tb_at := Suc (tb_at s)\<rparr>)
                    else (CopyWait, s1))
              else if flags AND MSG_SPLICE_PAGES \<noteq> 0
              then (if \<not> tc_wmem_schedule C t (length (tb_left s)) then (CopyWait, s1)
                    else
                      (case tc_splice C t (length fs) (tb_left s) of (err, new) \<Rightarrow>
                         if err < 0 then (if err = - EMSGSIZE then CopyWait else CopyError err, s1)
                         else (CopyNext (nat err),
                               s1\<lparr>tb_left := drop (nat err) (tb_left s), tb_copied := tb_copied s + nat err,
                                  tb_bufs := (tb_bufs s)[tb_at s := fs @ new]\<rparr>)))
              else
                (let copy = min (length (tb_left s)) (sz - off) in
                 if \<not> tc_wmem_schedule C t copy then (CopyWait, s1)
                 else if tc_copy C t \<noteq> 0 then (CopyError (tc_copy C t), s1)
                 else (CopyNext copy,
                       s1\<lparr>tb_left := drop copy (tb_left s), tb_copied := tb_copied s + copy,
                          tb_pfrag := (page, off + copy, sz),
                          tb_bufs := (tb_bufs s)[tb_at s := frag_append merge page off (take copy (tb_left s)) fs]\<rparr>))))"

text \<open>\<open>rakaia_push\<close> and \<open>sk_stream_wait_memory\<close>, as every wait has them.\<close>

definition tls_wait_memory :: "tls_call \<Rightarrow> nat \<Rightarrow> nat \<Rightarrow> tls_world \<Rightarrow> fault + int \<times> tls_world" where
  "tls_wait_memory C a t w = map_sum id (\<lambda>w1. (tc_wait C t, w1)) (tls_push (tc_send C) a w)"

fun tls_copy_loop ::
  "nat \<Rightarrow> tls_call \<Rightarrow> u32 \<Rightarrow> nat \<Rightarrow> tls_build \<Rightarrow> tls_world \<Rightarrow> (fault + int \<times> tls_build \<times> tls_world) option" where
  "tls_copy_loop 0 C flags a s w = None"
| "tls_copy_loop (Suc n) C flags a s w =
     (if tb_left s = [] then Some (Inr (0, s, w))
      else
        (case tls_copy_iter C flags s of
           (CopyNext k, s1) \<Rightarrow>
             tls_copy_loop n C flags a s1
               (upd_ksk a (\<lambda>k'. k'\<lparr>tk_wmem_queued := tk_wmem_queued k' + int k\<rparr>) w)
         | (CopyError err, s1) \<Rightarrow> Some (Inr (err, s1, w))
         | (CopyWait, s1) \<Rightarrow>
             (case tls_wait_memory C a (tb_tick s1) w of
                Inl f \<Rightarrow> Some (Inl f)
              | Inr (err, w1) \<Rightarrow>
                  if err \<noteq> 0 then Some (Inr (err, s1, w1)) else tls_copy_loop n C flags a s1 w1)))"

text \<open>Allocating the head: wait and try again until it succeeds.\<close>

fun tls_alloc_head ::
  "nat \<Rightarrow> tls_call \<Rightarrow> nat \<Rightarrow> nat \<Rightarrow> tls_world \<Rightarrow> (fault + int \<times> nat \<times> tls_world) option" where
  "tls_alloc_head 0 C a t w = None"
| "tls_alloc_head (Suc n) C a t w =
     (if tc_alloc C t then Some (Inr (0, Suc t, w))
      else
        (case tls_wait_memory C a t w of
           Inl f \<Rightarrow> Some (Inl f)
         | Inr (err, w1) \<Rightarrow>
             if err \<noteq> 0 then Some (Inr (err, Suc t, w1)) else tls_alloc_head n C a (Suc t) w1))"

section \<open>The system call\<close>

definition new_tls_msg :: tls_msg where
  "new_tls_msg =
     \<lparr>tm_bufs = [[]], tm_last_skb = 0, tm_started_tx = False, tm_frag_skb = None, tm_frag_offset = 0,
      tm_sent = 0, tm_ksk = None, tm_psock = None\<rparr>"

definition tls_eor :: "sock_type \<Rightarrow> u32 \<Rightarrow> bool" where
  "tls_eor type flags =
     (if type = SOCK_DGRAM then flags AND MSG_MORE = 0 else flags AND MSG_EOR \<noteq> 0)"

definition tls_pull ::
  "nat \<Rightarrow> tls_call \<Rightarrow> nat \<Rightarrow> bool \<Rightarrow> int \<Rightarrow> tls_world \<Rightarrow> (fault + int \<times> tls_world) option" where
  "tls_pull n C a eor ret w =
     (if eor then map_option (map_sum id (\<lambda>(_, rk). (ret, w\<lparr>tw_rk := rk\<rparr>)))
                    (rakaia_pull n (tc_rnd C) 0 (tc_sched_ok C) a (tw_rk w))
      else Some (Inr (ret, w)))"

text \<open>\<open>head\<close> is the message under construction, if there is one, with the buffers of the build.\<close>

definition tls_partial :: "nat \<Rightarrow> tls_msg option \<Rightarrow> tls_build \<Rightarrow> tls_world \<Rightarrow> tls_world" where
  "tls_partial a head s w =
     (case head of
        None \<Rightarrow> w
      | Some m \<Rightarrow> upd_ksk a (\<lambda>k. k\<lparr>tk_seq_skb := Some (m\<lparr>tm_bufs := tb_bufs s, tm_last_skb := tb_at s\<rparr>)\<rparr>) w)"

text \<open>The end of a message: queue it for the connection last received from, then write or batch.\<close>

definition tls_complete ::
  "tls_call \<Rightarrow> nat \<Rightarrow> u32 \<Rightarrow> tls_msg option \<Rightarrow> tls_build \<Rightarrow> tls_world \<Rightarrow> fault + tls_world" where
  "tls_complete C a flags head s w =
     bind_fault (tls_ksk_at w a) (\<lambda>k.
       bind_fault
         (case head of
            None \<Rightarrow> Inr w
          | Some m \<Rightarrow>
              map_sum id (\<lambda>rs.
                upd_ksk a (\<lambda>k. k\<lparr>tk_write_queue := tk_write_queue k @
                     [m\<lparr>tm_bufs := tb_bufs s, tm_ksk := Some a, tm_psock := k_last_psock rs\<rparr>],
                   tk_seq_skb := None\<rparr>) w)
                (deref (tw_rk w) a))
         (\<lambda>w1.
            if flags AND MSG_BATCH \<noteq> 0 then Inr (upd_ksk a (\<lambda>k. k\<lparr>tk_wait_more := True\<rparr>) w1)
            else if tk_wait_more k \<or> tk_write_queue k = []
            then map_sum id (\<lambda>(_, w2). w2) (rakaia_write_msgs (tc_send C) a w1)
            else Inr w1))"

text \<open>
  The error exit. A message that was open before the call stays open; its buffers may have
  grown, its last buffer is not updated unless something was copied.
\<close>

definition tls_out_error ::
  "nat \<Rightarrow> tls_call \<Rightarrow> nat \<Rightarrow> bool \<Rightarrow> tls_msg option \<Rightarrow> tls_build \<Rightarrow> int \<Rightarrow> tls_world \<Rightarrow>
     (fault + int \<times> tls_world) option" where
  "tls_out_error n C a eor head s err w =
     (case bind_fault (tls_push (tc_send C) a w) (\<lambda>w1. map_sum id (\<lambda>k. (k, w1)) (tls_ksk_at w1 a)) of
        Inl f \<Rightarrow> Some (Inl f)
      | Inr (k, w1) \<Rightarrow>
          if tk_type k = SOCK_SEQPACKET \<and> tb_copied s \<noteq> 0
          then tls_pull n C a eor (int (tb_copied s)) (tls_partial a head s w1)
          else
            (let w2 = upd_ksk a (\<lambda>k. k\<lparr>tk_seq_skb :=
                          (if tk_type k = SOCK_SEQPACKET
                           then map_option (\<lambda>m. m\<lparr>tm_bufs := (if head = None then tm_bufs m else tb_bufs s)\<rparr>) (tk_seq_skb k)
                           else None)\<rparr>) w1;
                 ret = tc_stream_error C err
             in Some (Inr (ret, if tk_write_queue k = [] \<and> ret = - EAGAIN then tls_write_space a w2 else w2))))"

definition tls_build_of :: "tls_ksk \<Rightarrow> tls_msg \<Rightarrow> bytes \<Rightarrow> nat \<Rightarrow> tls_build" where
  "tls_build_of k m msg t =
     \<lparr>tb_left = msg, tb_bufs = tm_bufs m, tb_at = tm_last_skb m, tb_copied = 0, tb_pfrag = tk_pfrag k, tb_tick = t\<rparr>"

definition tls_send_start ::
  "nat \<Rightarrow> tls_call \<Rightarrow> nat \<Rightarrow> u32 \<Rightarrow> tls_msg option \<Rightarrow> tls_build \<Rightarrow> tls_world \<Rightarrow> (fault + int \<times> tls_world) option" where
  "tls_send_start n C a flags head s w =
     (case tls_ksk_at w a of
        Inl f \<Rightarrow> Some (Inl f)
      | Inr k \<Rightarrow>
          (let eor = tls_eor (tk_type k) flags in
           case tls_copy_loop n C flags a s w of
             None \<Rightarrow> None
           | Some (Inl f) \<Rightarrow> Some (Inl f)
           | Some (Inr (err, s1, w1)) \<Rightarrow>
               (let w2 = upd_ksk a (\<lambda>k. k\<lparr>tk_pfrag := tb_pfrag s1\<rparr>) w1 in
                if err \<noteq> 0 then tls_out_error n C a eor head s1 err w2
                else if eor
                then (case tls_complete C a flags head s1 w2 of
                        Inl f \<Rightarrow> Some (Inl f)
                      | Inr w3 \<Rightarrow> tls_pull n C a eor (int (tb_copied s1)) w3)
                else Some (Inr (int (tb_copied s1), tls_partial a head s1 w2)))))"

definition tls_sendmsg ::
  "nat \<Rightarrow> tls_call \<Rightarrow> nat \<Rightarrow> u32 \<Rightarrow> bytes \<Rightarrow> tls_world \<Rightarrow> (fault + int \<times> tls_world) option" where
  "tls_sendmsg n C a flags msg w =
     (case tls_ksk_at w a of
        Inl f \<Rightarrow> Some (Inl f)
      | Inr k \<Rightarrow>
          (let eor = tls_eor (tk_type k) flags; none = tls_build_of k new_tls_msg msg 0 in
           if tk_err k \<noteq> 0 then tls_out_error n C a eor None none (- EPIPE) w
           else
             (case tk_seq_skb k of
                Some m \<Rightarrow> tls_send_start n C a flags (Some m) (tls_build_of k m msg 0) w
              | None \<Rightarrow>
                  (case (if tc_mem_free C then Inr (0, w)
                         else map_sum id (\<lambda>(err, w1). (err, upd_ksk a (\<lambda>k. k\<lparr>tk_nospace := True\<rparr>) w1))
                                (tls_wait_memory C a 0 w)) of
                     Inl f \<Rightarrow> Some (Inl f)
                   | Inr (err, w1) \<Rightarrow>
                       if err \<noteq> 0 then tls_out_error n C a eor None none err w1
                       else if msg = [] then tls_send_start n C a flags None none w1
                       else
                         (case tls_alloc_head n C a 1 w1 of
                            None \<Rightarrow> None
                          | Some (Inl f) \<Rightarrow> Some (Inl f)
                          | Some (Inr (err2, t, w2)) \<Rightarrow>
                              if err2 \<noteq> 0 then tls_out_error n C a eor None none err2 w2
                              else tls_send_start n C a flags (Some new_tls_msg) (tls_build_of k new_tls_msg msg t) w2)))))"

end
