(* ===== verification/Tls_Write.thy ===== *)
theory Tls_Write
  imports Tls_Send "HOL-Library.Sublist"
begin

text \<open>
  What the write loops of the TLS variant do with the bytes of a message: the resume position
  in a message, well-formed messages, and that the loops hand over exactly the bytes between
  two positions, through any sequence of short writes and refusals.
\<close>

section \<open>Well-formed messages\<close>

definition buf_ok :: "tls_frag list \<Rightarrow> bool" where
  "buf_ok fs \<longleftrightarrow> length fs \<le> MAX_SKB_FRAGS \<and> (\<forall>(_, _, d) \<in> set fs. d \<noteq> [])"

definition msg_all :: "tls_msg \<Rightarrow> bytes" where
  "msg_all m = concat (map buf_data (tm_bufs m))"

definition resume_at :: "tls_msg \<Rightarrow> nat option" where
  "resume_at m = (if tm_started_tx m then tm_frag_skb m else Some 0)"

definition resume_off :: "tls_msg \<Rightarrow> nat" where
  "resume_off m = (if tm_started_tx m then tm_frag_offset m else 0)"

definition sent_so_far :: "tls_msg \<Rightarrow> u32" where
  "sent_so_far m = (if tm_started_tx m then tm_sent m else 0)"

text \<open>The bytes the next attempt starts with.\<close>

definition msg_left :: "tls_msg \<Rightarrow> bytes" where
  "msg_left m =
     (case resume_at m of
        None \<Rightarrow> []
      | Some i \<Rightarrow> drop (resume_off m) (concat (map buf_data (drop i (tm_bufs m)))))"

definition queue_left :: "tls_msg list \<Rightarrow> bytes" where
  "queue_left q = concat (map msg_left q)"

lemma queue_left_simps [simp]: "queue_left [] = []" "queue_left (m # q) = msg_left m @ queue_left q"
  by (simp_all add: queue_left_def)

definition msg_ok :: "tls_msg \<Rightarrow> bool" where
  "msg_ok m \<longleftrightarrow> tm_bufs m \<noteq> [] \<and> (\<forall>fs \<in> set (tm_bufs m). fs \<noteq> [] \<and> buf_ok fs) \<and>
     (\<exists>i < length (tm_bufs m). resume_at m = Some i \<and> resume_off m < length (buf_data (tm_bufs m ! i))) \<and>
     sent_so_far m + word_of_nat (length (msg_left m)) = word_of_nat (length (msg_all m))"

lemma buf_data_nonempty:
  assumes "fs \<noteq> []" "buf_ok fs"
  shows "buf_data fs \<noteq> []"
  using assms by (cases fs) (auto simp: buf_ok_def buf_data_def)

lemma msg_left_at:
  assumes "resume_at m = Some i" "i < length (tm_bufs m)" "resume_off m \<le> length (buf_data (tm_bufs m ! i))"
  shows "msg_left m = drop (resume_off m) (buf_data (tm_bufs m ! i)) @ concat (map buf_data (drop (Suc i) (tm_bufs m)))"
proof -
  have "drop i (tm_bufs m) = tm_bufs m ! i # drop (Suc i) (tm_bufs m)"
    using assms(2) by (simp add: Cons_nth_drop_Suc)
  then show ?thesis using assms by (simp add: msg_left_def)
qed

lemma msg_ok_left: "msg_ok m \<Longrightarrow> msg_left m \<noteq> []"
  using msg_left_at [of m] by (auto simp: msg_ok_def)

lemma fresh_msg_ok:
  assumes "tm_bufs m \<noteq> []" "\<forall>fs \<in> set (tm_bufs m). fs \<noteq> [] \<and> buf_ok fs" "\<not> tm_started_tx m"
  shows "msg_ok m" "msg_left m = msg_all m"
proof -
  show "msg_left m = msg_all m" using assms(3) by (simp add: msg_left_def msg_all_def resume_at_def resume_off_def)
  moreover have "buf_data (tm_bufs m ! 0) \<noteq> []"
    using assms(1,2) buf_data_nonempty by (simp add: nth_mem)
  ultimately show "msg_ok m"
    using assms by (auto simp: msg_ok_def resume_at_def resume_off_def sent_so_far_def)
qed

section \<open>Short writes and refusals\<close>

text \<open>
  What \<open>sock_sendmsg\<close> documents: it takes no more than it is given. With \<open>MSG_DONTWAIT\<close> and a
  connection in order, what it does not take it refuses with \<open>EAGAIN\<close>.
\<close>

definition sock_law :: "(nat \<Rightarrow> bytes \<Rightarrow> int) \<Rightarrow> bool" where
  "sock_law send \<longleftrightarrow> (\<forall>c bs. send c bs \<le> int (length bs))"

definition sock_soft :: "(nat \<Rightarrow> bytes \<Rightarrow> int) \<Rightarrow> bool" where
  "sock_soft send \<longleftrightarrow> (\<forall>c bs. bs \<noteq> [] \<longrightarrow> send c bs \<le> 0 \<longrightarrow> send c bs = - EAGAIN)"

definition sock_willing :: "(nat \<Rightarrow> bytes \<Rightarrow> int) \<Rightarrow> bool" where
  "sock_willing send \<longleftrightarrow> (\<forall>c bs. bs \<noteq> [] \<longrightarrow> 0 < send c bs)"

lemma willing_soft: "sock_willing send \<Longrightarrow> sock_soft send"
  unfolding sock_willing_def sock_soft_def by (meson linorder_not_less)

lemma send_part_law:
  assumes "sock_law send" "rest \<noteq> []" "send_part send c rest = (e, c', n)"
  shows "e = PartDone \<and> n = length rest \<or>
         (\<exists>r. e = PartStop r \<and> n < length rest \<and> (sock_soft send \<longrightarrow> r = - EAGAIN) \<and> r \<le> 0 \<and> \<not> sock_willing send)"
  using assms
proof (induction send c rest arbitrary: e c' n rule: send_part.induct)
  case (1 send c rest)
  let ?r = "send c rest"
  have def: "(e, c', n) =
     (if ?r \<le> 0 then (PartStop ?r, Suc c, 0)
      else if length rest \<le> nat ?r then (PartDone, Suc c, nat ?r)
      else (case send_part send (Suc c) (drop (nat ?r) rest) of (e, c', n) \<Rightarrow> (e, c', nat ?r + n)))"
    using send_part.simps [of send c rest] "1.prems"(3) by (simp only: Let_def)
  have le: "?r \<le> int (length rest)" using "1.prems"(1) by (simp add: sock_law_def)
  show ?case
  proof (cases "?r \<le> 0")
    case True
    then have "\<not> 0 < send c rest" by simp
    then have "\<not> sock_willing send" using "1.prems"(2) unfolding sock_willing_def by blast
    moreover have "sock_soft send \<longrightarrow> ?r = - EAGAIN" using True "1.prems"(2) by (simp add: sock_soft_def)
    ultimately show ?thesis using True "1.prems"(2) def by simp
  next
    case took: False
    show ?thesis
    proof (cases "length rest \<le> nat ?r")
      case True
      then show ?thesis using took def le by auto
    next
      case False
      obtain e1 c1 n1 where rec: "send_part send (Suc c) (drop (nat ?r) rest) = (e1, c1, n1)"
        by (cases "send_part send (Suc c) (drop (nat ?r) rest)")
      have e: "e = e1" "n = nat ?r + n1" using took False def rec by simp_all
      have "drop (nat ?r) rest \<noteq> []" using False by simp
      from "1.IH" [OF refl took False "1.prems"(1) this rec] show ?thesis
        using e took False by auto
    qed
  qed
qed

section \<open>One message\<close>

definition same_msg :: "tls_msg \<Rightarrow> tls_msg \<Rightarrow> bool" where
  "same_msg m m' \<longleftrightarrow> tm_bufs m' = tm_bufs m \<and> tm_ksk m' = tm_ksk m \<and> tm_psock m' = tm_psock m"

text \<open>How a message can come out of the loop.\<close>

definition write_msg_post ::
  "(nat \<Rightarrow> bytes \<Rightarrow> int) \<Rightarrow> tls_msg \<Rightarrow> msg_end \<times> nat \<times> tls_msg \<times> bytes \<Rightarrow> bool" where
  "write_msg_post send m = (\<lambda>(e, _, m', out). same_msg m m' \<and>
     (case e of
        MsgSent \<Rightarrow> out = msg_left m \<and> tm_sent m' = word_of_nat (length (msg_all m))
      | MsgAgain \<Rightarrow> msg_ok m' \<and> msg_left m = out @ msg_left m' \<and> \<not> sock_willing send
      | MsgFailed r \<Rightarrow> r \<le> 0 \<and> prefix out (msg_left m) \<and> \<not> sock_soft send))"

definition part_result ::
  "(nat \<Rightarrow> bytes \<Rightarrow> int) \<Rightarrow> tls_msg \<Rightarrow> nat \<Rightarrow> part_end \<Rightarrow> nat \<Rightarrow> nat \<Rightarrow> bytes \<Rightarrow>
     fault + msg_end \<times> nat \<times> tls_msg \<times> bytes" where
  "part_result send m i e c1 n rest =
     (let m1 = m\<lparr>tm_started_tx := True, tm_sent := sent_so_far m + word_of_nat n,
                 tm_frag_offset := resume_off m + n\<rparr>
      in case e of
           PartStop r \<Rightarrow>
             Inr (if r = - EAGAIN then (MsgAgain, c1, m1\<lparr>tm_frag_skb := Some i\<rparr>, take n rest)
                  else (MsgFailed r, c1, m1, take n rest))
         | PartDone \<Rightarrow>
             if Suc i < length (tm_bufs m)
             then map_sum id (\<lambda>(e2, c2, m2, out). (e2, c2, m2, take n rest @ out))
                    (write_msg (Inr send) c1 (m1\<lparr>tm_frag_skb := Some (Suc i), tm_frag_offset := 0\<rparr>))
             else Inr (MsgSent, c1, m1, take n rest))"

lemma write_msg_part:
  assumes "resume_at m = Some i" "i < length (tm_bufs m)" "tm_bufs m ! i \<noteq> []"
    and "send_part send c (drop (resume_off m) (buf_data (tm_bufs m ! i))) = (e, c1, n)"
  shows "write_msg (Inr send) c m = part_result send m i e c1 n (drop (resume_off m) (buf_data (tm_bufs m ! i)))"
proof -
  have m0: "(if tm_started_tx m then m else m\<lparr>tm_frag_offset := 0, tm_sent := 0, tm_started_tx := True\<rparr>) =
      m\<lparr>tm_started_tx := True, tm_sent := sent_so_far m, tm_frag_offset := resume_off m\<rparr>"
    by (cases "tm_started_tx m") (simp_all add: sent_so_far_def resume_off_def)
  show ?thesis
    using assms(2,3,4) assms(1) [unfolded resume_at_def]
    by (subst write_msg.simps, unfold m0, cases e) (simp_all add: Let_def part_result_def)
qed

text \<open>Moving the resume position forward by what was taken.\<close>

lemma msg_ok_advance:
  assumes ok: "msg_ok m" and same: "tm_bufs m' = tm_bufs m" and st: "tm_started_tx m'"
    and at: "tm_frag_skb m' = Some j" "j < length (tm_bufs m)" "tm_frag_offset m' < length (buf_data (tm_bufs m ! j))"
    and left: "msg_left m = out @ msg_left m'"
    and sent: "tm_sent m' = sent_so_far m + word_of_nat (length out)"
  shows "msg_ok m'"
proof -
  have "sent_so_far m' + word_of_nat (length (msg_left m')) = word_of_nat (length (msg_all m'))"
    using ok left sent st same by (simp add: msg_ok_def sent_so_far_def msg_all_def add.assoc)
  then show ?thesis
    using ok same st at by (auto simp: msg_ok_def resume_at_def resume_off_def)
qed

lemma write_msg_law:
  assumes "msg_ok m" "sock_law send"
  shows "\<exists>R. write_msg (Inr send) c m = Inr R \<and> write_msg_post send m R"
  using assms(1)
proof (induction "length (tm_bufs m) - the (resume_at m)" arbitrary: c m rule: less_induct)
  case less
  note ok = less.prems
  obtain i where at: "resume_at m = Some i" "i < length (tm_bufs m)" "tm_bufs m ! i \<noteq> []"
    and off: "resume_off m < length (buf_data (tm_bufs m ! i))"
    using ok by (auto simp: msg_ok_def)
  define rest where "rest = drop (resume_off m) (buf_data (tm_bufs m ! i))"
  have ne: "rest \<noteq> []" using off by (simp add: rest_def)
  obtain e c1 n where part: "send_part send c rest = (e, c1, n)" by (cases "send_part send c rest")
  define m1 where
    "m1 = m\<lparr>tm_started_tx := True, tm_sent := sent_so_far m + word_of_nat n, tm_frag_offset := resume_off m + n\<rparr>"
  note w = write_msg_part [OF at part [unfolded rest_def], folded rest_def, unfolded part_result_def Let_def, folded m1_def]
  note left = msg_left_at [OF at(1,2) less_imp_le [OF off], folded rest_def]
  from send_part_law [OF assms(2) ne part] show ?case
  proof (elim disjE exE conjE)
    fix r assume e: "e = PartStop r" and n: "n < length rest" and s: "sock_soft send \<longrightarrow> r = - EAGAIN"
      and r: "r \<le> 0" and nw: "\<not> sock_willing send"
    let ?m = "m1\<lparr>tm_frag_skb := Some i\<rparr>"
    have "msg_left ?m = drop n rest @ concat (map buf_data (drop (Suc i) (tm_bufs m)))"
      using msg_left_at [of ?m i] at n by (simp add: m1_def rest_def resume_at_def resume_off_def add.commute)
    then have lm: "msg_left m = take n rest @ msg_left ?m" by (simp add: left)
    have "msg_ok ?m"
      by (rule msg_ok_advance [OF ok _ _ _ at(2) _ lm]) (use n in \<open>auto simp: m1_def rest_def\<close>)
    then show ?thesis using w lm nw s r e by (auto simp: write_msg_post_def same_msg_def m1_def)
  next
    assume e: "e = PartDone" and n: "n = length rest"
    show ?thesis
    proof (cases "Suc i < length (tm_bufs m)")
      case False
      then have "msg_left m = rest" by (simp add: left)
      moreover from this have "sent_so_far m + word_of_nat (length rest) = word_of_nat (length (msg_all m))"
        using ok by (simp add: msg_ok_def)
      ultimately show ?thesis using w False n e by (auto simp: write_msg_post_def same_msg_def m1_def)
    next
      case True
      let ?m = "m1\<lparr>tm_frag_skb := Some (Suc i), tm_frag_offset := 0\<rparr>"
      have nx: "buf_data (tm_bufs m ! Suc i) \<noteq> []"
        using ok True buf_data_nonempty by (simp add: msg_ok_def)
      have "msg_left ?m = concat (map buf_data (drop (Suc i) (tm_bufs m)))"
        by (simp add: msg_left_def m1_def resume_at_def resume_off_def)
      then have lm: "msg_left m = rest @ msg_left ?m" by (simp only: left)
      have ok': "msg_ok ?m"
        by (rule msg_ok_advance [OF ok _ _ _ True _ lm]) (use n nx in \<open>auto simp: m1_def\<close>)
      have "length (tm_bufs ?m) - the (resume_at ?m) < length (tm_bufs m) - the (resume_at m)"
        using at True by (simp add: m1_def resume_at_def)
      from less.hyps [OF this ok', of c1]
      obtain R where R: "write_msg (Inr send) c1 ?m = Inr R" "write_msg_post send ?m R" by (elim exE conjE)
      obtain e2 c2 m2 out2 where R4: "R = (e2, c2, m2, out2)" by (cases R)
      have "write_msg (Inr send) c m = Inr (e2, c2, m2, rest @ out2)"
        using R(1) R4 w True e n by simp
      moreover have "write_msg_post send m (e2, c2, m2, rest @ out2)"
        using R(2) R4 lm by (cases e2) (auto simp: write_msg_post_def same_msg_def m1_def msg_all_def)
      ultimately show ?thesis by (intro exI conjI)
    qed
  qed
qed

section \<open>The queue of a connection\<close>

definition owners_live :: "(nat \<Rightarrow> tls_ksk option) \<Rightarrow> tls_msg list \<Rightarrow> bool" where
  "owners_live ks q \<longleftrightarrow> (\<forall>m \<in> set q. \<exists>a. tm_ksk m = Some a \<and> ks a \<noteq> None)"

lemma owners_live_simps [simp]:
  "owners_live ks []" "owners_live ks (m # q) \<longleftrightarrow> (\<exists>a. tm_ksk m = Some a \<and> ks a \<noteq> None) \<and> owners_live ks q"
  by (auto simp: owners_live_def)

lemma owners_live_dom: "dom ks' = dom ks \<Longrightarrow> owners_live ks' q = owners_live ks q"
  by (fastforce simp: owners_live_def dom_def set_eq_iff)

text \<open>Only the write memory of a socket changes.\<close>

definition same_but_wmem :: "(nat \<Rightarrow> tls_ksk option) \<Rightarrow> (nat \<Rightarrow> tls_ksk option) \<Rightarrow> bool" where
  "same_but_wmem ks ks' \<longleftrightarrow>
     (\<forall>a. map_option (\<lambda>k. k\<lparr>tk_wmem_queued := 0\<rparr>) (ks' a) = map_option (\<lambda>k. k\<lparr>tk_wmem_queued := 0\<rparr>) (ks a))"

lemma same_but_wmem_refl [simp]: "same_but_wmem ks ks"
  by (simp add: same_but_wmem_def)

lemma same_but_wmem_trans: "same_but_wmem a b \<Longrightarrow> same_but_wmem b c \<Longrightarrow> same_but_wmem a c"
  by (simp add: same_but_wmem_def)

lemma same_but_wmem_upd:
  "ks a = Some k \<Longrightarrow> same_but_wmem ks (ks(a \<mapsto> k\<lparr>tk_wmem_queued := x\<rparr>))"
  by (simp add: same_but_wmem_def)

lemma same_but_wmem_dom: "same_but_wmem ks ks' \<Longrightarrow> dom ks' = dom ks"
proof -
  assume "same_but_wmem ks ks'"
  then have "ks' a = None \<longleftrightarrow> ks a = None" for a
    unfolding same_but_wmem_def by (metis option.map_disc_iff)
  then show ?thesis by (auto simp: dom_def)
qed

lemma same_but_wmem_at:
  assumes "same_but_wmem ks ks'" "ks a = Some k"
  obtains x where "ks' a = Some (k\<lparr>tk_wmem_queued := x\<rparr>)"
proof -
  obtain k' where k': "ks' a = Some k'" "k'\<lparr>tk_wmem_queued := 0\<rparr> = k\<lparr>tk_wmem_queued := 0\<rparr>"
  proof -
    have "map_option (\<lambda>k. k\<lparr>tk_wmem_queued := 0\<rparr>) (ks' a) = map_option (\<lambda>k. k\<lparr>tk_wmem_queued := 0\<rparr>) (ks a)"
      using assms(1) by (simp add: same_but_wmem_def)
    then show thesis using assms(2) that by (cases "ks' a") simp_all
  qed
  have "k' = k\<lparr>tk_wmem_queued := tk_wmem_queued k'\<rparr>"
    using k'(2) by (cases k; cases k') simp
  with k'(1) show thesis using that by metis
qed

text \<open>What the outer loop leaves behind.\<close>

definition write_queue_post ::
  "(nat \<Rightarrow> bytes \<Rightarrow> int) \<Rightarrow> tls_msg list \<Rightarrow> u32 \<Rightarrow> int \<Rightarrow> tls_msg list \<Rightarrow> bytes \<Rightarrow> bool" where
  "write_queue_post send q total_sent r q' out \<longleftrightarrow>
     q' = [] \<and> out = queue_left q \<and> r = sint (total_sent + word_of_nat (\<Sum>m\<leftarrow>q. length (msg_all m))) \<or>
     q' \<noteq> [] \<and> r = 0 \<and> (\<forall>m \<in> set q'. msg_ok m) \<and> queue_left q = out @ queue_left q' \<and> \<not> sock_willing send \<or>
     q' \<noteq> [] \<and> r \<le> 0 \<and> prefix out (queue_left q) \<and> \<not> sock_soft send"

lemma write_queue_law:
  assumes "\<forall>m \<in> set q. msg_ok m" "owners_live ks q" "sock_law send"
  shows "\<exists>r c' q' ks' out. write_queue (Inr send) c q total_sent ks = Inr (r, c', q', ks', out) \<and>
    owners_live ks' q' \<and> same_but_wmem ks ks' \<and> write_queue_post send q total_sent r q' out"
  using assms(1,2)
proof (induction q arbitrary: c total_sent ks)
  case Nil
  then show ?case by (simp add: write_queue_post_def)
next
  case (Cons m q)
  obtain e c1 m1 out where w: "write_msg (Inr send) c m = Inr (e, c1, m1, out)"
    and post: "write_msg_post send m (e, c1, m1, out)"
  proof -
    obtain R where "write_msg (Inr send) c m = Inr R" "write_msg_post send m R"
      using write_msg_law [OF _ assms(3), of m c] Cons.prems(1) by auto
    then show thesis using that by (cases R) simp
  qed
  obtain a k where a: "tm_ksk m = Some a" "ks a = Some k" using Cons.prems(2) by auto
  have a1: "tm_ksk m1 = Some a" using post a(1) by (simp add: write_msg_post_def same_msg_def)
  show ?case
  proof (cases e)
    case MsgSent
    let ?ks = "ks(a \<mapsto> k\<lparr>tk_wmem_queued := tk_wmem_queued k - uint (tm_sent m1)\<rparr>)"
    note up = same_but_wmem_upd [of ks a k, OF a(2), of "tk_wmem_queued k - uint (tm_sent m1)"]
    have live: "owners_live ?ks q" using Cons.prems(2) owners_live_dom [OF same_but_wmem_dom [OF up]] by simp
    have p: "out = msg_left m" "tm_sent m1 = word_of_nat (length (msg_all m))"
      using post MsgSent by (auto simp: write_msg_post_def)
    have okq: "\<forall>m \<in> set q. msg_ok m" using Cons.prems(1) by simp
    from Cons.IH [OF okq live, of c1 "total_sent + tm_sent m1"]
    obtain r c' q' ks' out' where rec: "write_queue (Inr send) c1 q (total_sent + tm_sent m1) ?ks = Inr (r, c', q', ks', out')"
      "owners_live ks' q'" "same_but_wmem ?ks ks'" "write_queue_post send q (total_sent + tm_sent m1) r q' out'" by blast
    have "write_queue (Inr send) c (m # q) total_sent ks = Inr (r, c', q', ks', out @ out')"
      using w MsgSent a(2) a1 rec(1) by simp
    moreover have "same_but_wmem ks ks'" by (rule same_but_wmem_trans [OF up rec(3)])
    moreover have "write_queue_post send (m # q) total_sent r q' (out @ out')"
      using rec(4) p by (auto simp: write_queue_post_def add.assoc)
    ultimately show ?thesis using rec(2) by blast
  next
    case MsgAgain
    then have "write_queue (Inr send) c (m # q) total_sent ks = Inr (0, c1, m1 # q, ks, out)"
      using w by simp
    then show ?thesis
      using post MsgAgain Cons.prems a(2) a1 by (auto simp: write_queue_post_def write_msg_post_def)
  next
    case (MsgFailed r)
    then have "write_queue (Inr send) c (m # q) total_sent ks = Inr (r, c1, m1 # q, ks, out)"
      using w by simp
    then show ?thesis
      using post MsgFailed Cons.prems a(2) a1 by (auto simp: write_queue_post_def write_msg_post_def)
  qed
qed

end
