(* ===== verification/Tls_Build.thy ===== *)
theory Tls_Build
  imports Tls_Write
begin

text \<open>
  The copy loop of the TLS variant: what it keeps of the buffers of a message under
  construction, that it appends exactly the bytes it takes from the caller, and that it ends
  when the kernel has memory.
\<close>

section \<open>Buffers under construction\<close>

abbreviation all_data :: "tls_frag list list \<Rightarrow> bytes" where
  "all_data bufs \<equiv> concat (map buf_data bufs)"

text \<open>The last buffer is the current one; every other holds data.\<close>

definition bufs_ok :: "tls_frag list list \<Rightarrow> nat \<Rightarrow> bool" where
  "bufs_ok bufs at \<longleftrightarrow>
     (\<exists>pre fs. bufs = pre @ [fs] \<and> at = length pre \<and> (\<forall>f \<in> set pre. f \<noteq> [] \<and> buf_ok f) \<and> buf_ok fs)"

lemma new_bufs_ok [simp]: "bufs_ok [[]] 0"
  by (simp add: bufs_ok_def buf_ok_def)

lemma buf_data_append [simp]: "buf_data (fs @ gs) = buf_data fs @ buf_data gs"
  by (simp add: buf_data_def)

lemma buf_data_single [simp]: "buf_data [(p, o', d)] = d" "buf_data [] = []"
  by (simp_all add: buf_data_def)

text \<open>
  What the kernel documents of its helpers: a refilled page fragment has room, and splicing
  adds fragments that hold the bytes it reports, up to the limit of a buffer.
\<close>

definition build_law :: "tls_call \<Rightarrow> bool" where
  "build_law C \<longleftrightarrow>
     (\<forall>t pf page off sz. tc_refill C t pf = Some (page, off, sz) \<longrightarrow> off < sz) \<and>
     (\<forall>t n bs err new. tc_splice C t n bs = (err, new) \<longrightarrow> 0 \<le> err \<longrightarrow>
        nat err \<le> length bs \<and> buf_data new = take (nat err) bs \<and>
        (\<forall>(_, _, d) \<in> set new. d \<noteq> []) \<and> (n \<le> MAX_SKB_FRAGS \<longrightarrow> n + length new \<le> MAX_SKB_FRAGS))"

lemma build_law_room: "build_law C \<Longrightarrow> tc_refill C t pf = Some (page, off, sz) \<Longrightarrow> off < sz"
  unfolding build_law_def by blast

lemma build_law_splice:
  assumes "build_law C" "tc_splice C t n bs = (err, new)" "0 \<le> err" "n \<le> MAX_SKB_FRAGS"
  shows "buf_data new = take (nat err) bs" "nat err \<le> length bs"
    "\<forall>(_, _, d) \<in> set new. d \<noteq> []" "n + length new \<le> MAX_SKB_FRAGS"
  using assms unfolding build_law_def by blast+

lemma frag_append_ok:
  assumes "buf_ok fs" "bs \<noteq> []" "merge \<Longrightarrow> fs \<noteq> []" "\<not> merge \<Longrightarrow> length fs < MAX_SKB_FRAGS"
  shows "buf_ok (frag_append merge page off bs fs)" "frag_append merge page off bs fs \<noteq> []"
    "buf_data (frag_append merge page off bs fs) = buf_data fs @ bs"
proof -
  have "buf_ok (frag_append merge page off bs fs) \<and> frag_append merge page off bs fs \<noteq> [] \<and>
    buf_data (frag_append merge page off bs fs) = buf_data fs @ bs"
  proof (cases merge)
    case True
    then obtain pre p o' d where fs: "fs = pre @ [(p, o', d)]"
      using assms(3) by (metis append_butlast_last_id prod_cases3)
    then show ?thesis using True assms(1) by (auto simp: frag_append_def buf_ok_def)
  next
    case False
    then show ?thesis using assms by (auto simp: frag_append_def buf_ok_def)
  qed
  then show "buf_ok (frag_append merge page off bs fs)" "frag_append merge page off bs fs \<noteq> []"
    "buf_data (frag_append merge page off bs fs) = buf_data fs @ bs" by simp_all
qed

text \<open>How a build can go on by \<open>d\<close>.\<close>

definition build_step :: "bytes \<Rightarrow> tls_build \<Rightarrow> tls_build \<Rightarrow> bool" where
  "build_step d s s1 \<longleftrightarrow>
     bufs_ok (tb_bufs s1) (tb_at s1) \<and> tb_left s = d @ tb_left s1 \<and>
     all_data (tb_bufs s1) = all_data (tb_bufs s) @ d \<and> tb_copied s1 = tb_copied s + length d \<and>
     (d \<noteq> [] \<longrightarrow> last (tb_bufs s1) \<noteq> [])"

lemma build_step_same:
  "bufs_ok (tb_bufs s) (tb_at s) \<Longrightarrow> tb_bufs s1 = tb_bufs s \<Longrightarrow> tb_at s1 = tb_at s \<Longrightarrow>
   tb_left s1 = tb_left s \<Longrightarrow> tb_copied s1 = tb_copied s \<Longrightarrow> build_step [] s s1"
  by (simp add: build_step_def)

lemma build_step_append:
  assumes s: "tb_bufs s = pre @ [fs]" "tb_at s = length pre" "\<forall>f \<in> set pre. f \<noteq> [] \<and> buf_ok f"
    and fs': "buf_ok fs'" "buf_data fs' = buf_data fs @ d" and d: "tb_left s = d @ tb_left s1"
    and s1: "tb_bufs s1 = (tb_bufs s)[tb_at s := fs']" "tb_at s1 = tb_at s" "tb_copied s1 = tb_copied s + length d"
  shows "build_step d s s1"
proof -
  have "tb_bufs s1 = pre @ [fs']" using s s1 by simp
  moreover have "d \<noteq> [] \<longrightarrow> fs' \<noteq> []" using fs'(2) by auto
  ultimately show ?thesis using s s1 fs' d by (auto simp: build_step_def bufs_ok_def)
qed

lemma copy_iter_ok:
  assumes law: "build_law C" and ok: "bufs_ok (tb_bufs s) (tb_at s)" and left: "tb_left s \<noteq> []"
    and it: "tls_copy_iter C flags s = (e, s1)"
  obtains d where "build_step d s s1" "\<And>k. e = CopyNext k \<Longrightarrow> k = length d"
    "e = CopyWait \<Longrightarrow> d = []" "\<And>r. e = CopyError r \<Longrightarrow> d = [] \<and> r \<noteq> 0"
proof -
  obtain pre fs where s: "tb_bufs s = pre @ [fs]" "tb_at s = length pre"
    "\<forall>f \<in> set pre. f \<noteq> [] \<and> buf_ok f" "buf_ok fs" using ok by (auto simp: bufs_ok_def)
  have at: "tb_bufs s ! tb_at s = fs" using s by simp
  note same = build_step_same [OF ok]
  show thesis
  proof (cases "tc_refill C (tb_tick s) (tb_pfrag s)")
    case None
    then have "e = CopyWait" "s1 = s\<lparr>tb_tick := Suc (tb_tick s)\<rparr>"
      using it by (simp_all add: tls_copy_iter_def)
    then show thesis using that [of "[]"] same by simp
  next
    case (Some pf)
    obtain page off sz where pf: "pf = (page, off, sz)" by (cases pf)
    define s0 where "s0 = s\<lparr>tb_tick := Suc (tb_tick s), tb_pfrag := (page, off, sz)\<rparr>"
    define merge where "merge = frag_coalesces fs page off"
    have off: "off < sz" using build_law_room [OF law] Some pf by blast
    have s0: "build_step [] s s0" by (rule same) (simp_all add: s0_def)
    have it: "tls_copy_iter C flags s =
        (if \<not> merge \<and> length fs = MAX_SKB_FRAGS
         then (if tc_alloc C (tb_tick s)
               then (CopyNext 0, s0\<lparr>tb_bufs := tb_bufs s @ [[]], tb_at := Suc (tb_at s)\<rparr>)
               else (CopyWait, s0))
         else if flags AND MSG_SPLICE_PAGES \<noteq> 0
         then (if \<not> tc_wmem_schedule C (tb_tick s) (length (tb_left s)) then (CopyWait, s0)
               else
                 (case tc_splice C (tb_tick s) (length fs) (tb_left s) of (err, new) \<Rightarrow>
                    if err < 0 then (if err = - EMSGSIZE then CopyWait else CopyError err, s0)
                    else (CopyNext (nat err),
                          s0\<lparr>tb_left := drop (nat err) (tb_left s), tb_copied := tb_copied s + nat err,
                             tb_bufs := (tb_bufs s)[tb_at s := fs @ new]\<rparr>)))
         else
           (let copy = min (length (tb_left s)) (sz - off) in
            if \<not> tc_wmem_schedule C (tb_tick s) copy then (CopyWait, s0)
            else if tc_copy C (tb_tick s) \<noteq> 0 then (CopyError (tc_copy C (tb_tick s)), s0)
            else (CopyNext copy,
                  s0\<lparr>tb_left := drop copy (tb_left s), tb_copied := tb_copied s + copy,
                     tb_pfrag := (page, off + copy, sz),
                     tb_bufs := (tb_bufs s)[tb_at s := frag_append merge page off (take copy (tb_left s)) fs]\<rparr>)))"
      using Some pf at s(1,2)
      by (cases "tc_splice C (tb_tick s) (length fs) (tb_left s)")
         (simp add: tls_copy_iter_def Let_def s0_def merge_def del: if_split cong: if_cong)
    note it = it [unfolded \<open>tls_copy_iter C flags s = (e, s1)\<close>]
    consider (new) "\<not> merge" "length fs = MAX_SKB_FRAGS"
      | (splice) "merge \<or> length fs \<noteq> MAX_SKB_FRAGS" "flags AND MSG_SPLICE_PAGES \<noteq> 0"
      | (copy) "merge \<or> length fs \<noteq> MAX_SKB_FRAGS" "flags AND MSG_SPLICE_PAGES = 0" by blast
    then show thesis
    proof cases
      case new
      have "fs \<noteq> []" using new by (auto simp: MAX_SKB_FRAGS_def)
      then have "bufs_ok (tb_bufs s @ [[]]) (Suc (tb_at s))"
        using s by (auto simp: bufs_ok_def buf_ok_def)
      then have "build_step [] s (s0\<lparr>tb_bufs := tb_bufs s @ [[]], tb_at := Suc (tb_at s)\<rparr>)"
        by (simp add: build_step_def s0_def)
      then show thesis using it new that [of "[]"] s0 by (auto split: if_splits)
    next
      case splice
      then have "\<not> (\<not> merge \<and> length fs = MAX_SKB_FRAGS)" by blast
      note it = it [unfolded if_not_P [OF this] if_P [OF splice(2)]]
      obtain err new where sp: "tc_splice C (tb_tick s) (length fs) (tb_left s) = (err, new)"
        by (cases "tc_splice C (tb_tick s) (length fs) (tb_left s)")
      show thesis
      proof (cases "tc_wmem_schedule C (tb_tick s) (length (tb_left s)) \<and> 0 \<le> err")
        case False
        then show thesis using it sp that [of "[]"] s0 by (auto split: if_splits)
      next
        case True
        have new: "buf_data new = take (nat err) (tb_left s)" "nat err \<le> length (tb_left s)"
          "\<forall>(_, _, d) \<in> set new. d \<noteq> []" "length fs + length new \<le> MAX_SKB_FRAGS"
          using build_law_splice [OF law sp] True s(4) by (simp_all add: buf_ok_def)
        have b: "buf_ok (fs @ new)" using s(4) new by (auto simp: buf_ok_def)
        have r: "e = CopyNext (nat err)" "s1 = s0\<lparr>tb_left := drop (nat err) (tb_left s),
            tb_copied := tb_copied s + nat err, tb_bufs := (tb_bufs s)[tb_at s := fs @ new]\<rparr>"
          using it sp True by simp_all
        have "build_step (take (nat err) (tb_left s)) s s1"
          by (rule build_step_append [OF s(1-3) b]) (use new in \<open>simp_all add: r s0_def\<close>)
        then show thesis using that [of "take (nat err) (tb_left s)"] r new(2) by simp
      qed
    next
      case copy
      then have no: "\<not> (\<not> merge \<and> length fs = MAX_SKB_FRAGS)" "\<not> flags AND MSG_SPLICE_PAGES \<noteq> 0" by blast+
      note it = it [unfolded if_not_P [OF no(1)] if_not_P [OF no(2)]]
      define n where "n = min (length (tb_left s)) (sz - off)"
      have ne: "take n (tb_left s) \<noteq> []" "length (take n (tb_left s)) = n" using left off by (simp_all add: n_def)
      show thesis
      proof (cases "tc_wmem_schedule C (tb_tick s) n \<and> tc_copy C (tb_tick s) = 0")
        case False
        then show thesis using it that [of "[]"] s0 by (auto simp: n_def Let_def split: if_splits)
      next
        case True
        have r: "e = CopyNext n" "s1 = s0\<lparr>tb_left := drop n (tb_left s), tb_copied := tb_copied s + n,
            tb_pfrag := (page, off + n, sz),
            tb_bufs := (tb_bufs s)[tb_at s := frag_append merge page off (take n (tb_left s)) fs]\<rparr>"
          using it True by (simp_all add: n_def Let_def)
        have "merge \<Longrightarrow> fs \<noteq> []" by (simp add: merge_def frag_coalesces_def)
        moreover have "\<not> merge \<Longrightarrow> length fs < MAX_SKB_FRAGS" using copy(1) s(4) by (auto simp: buf_ok_def)
        ultimately have fa: "buf_ok (frag_append merge page off (take n (tb_left s)) fs)"
          "buf_data (frag_append merge page off (take n (tb_left s)) fs) = buf_data fs @ take n (tb_left s)"
          using frag_append_ok [OF s(4) ne(1)] by blast+
        have "build_step (take n (tb_left s)) s s1"
          by (rule build_step_append [OF s(1-3) fa]) (use ne in \<open>simp_all add: r s0_def\<close>)
        then show thesis using that [of "take n (tb_left s)"] r(1) ne(2) by simp
      qed
    qed
  qed
qed

section \<open>The end of the loop\<close>

text \<open>A build that may go on through empty buffers; once nothing is left the last buffer holds data.\<close>

definition build_path :: "bytes \<Rightarrow> tls_build \<Rightarrow> tls_build \<Rightarrow> bool" where
  "build_path d s s1 \<longleftrightarrow>
     bufs_ok (tb_bufs s1) (tb_at s1) \<and> tb_left s = d @ tb_left s1 \<and>
     all_data (tb_bufs s1) = all_data (tb_bufs s) @ d \<and> tb_copied s1 = tb_copied s + length d \<and>
     (tb_left s1 = [] \<longrightarrow> (tb_left s \<noteq> [] \<or> last (tb_bufs s) \<noteq> []) \<longrightarrow> last (tb_bufs s1) \<noteq> [])"

lemma build_path_refl: "bufs_ok (tb_bufs s) (tb_at s) \<Longrightarrow> build_path [] s s"
  by (simp add: build_path_def)

lemma build_path_step:
  assumes "tb_left s \<noteq> []" "build_step d s s1" "build_path d' s1 s2"
  shows "build_path (d @ d') s s2"
proof -
  have "last (tb_bufs s1) \<noteq> []" if "tb_left s1 = []"
    using assms(1,2) that by (auto simp: build_step_def)
  then show ?thesis using assms(2,3) by (auto simp: build_path_def build_step_def)
qed

text \<open>With memory for everything the loop needs at most two iterations per byte.\<close>

definition generous :: "tls_call \<Rightarrow> bool" where
  "generous C \<longleftrightarrow> build_law C \<and> tc_mem_free C \<and> (\<forall>t. tc_alloc C t) \<and> (\<forall>t pf. tc_refill C t pf \<noteq> None) \<and>
     (\<forall>t n. tc_wmem_schedule C t n) \<and> (\<forall>t. tc_copy C t = 0)"

lemma copy_iter_generous:
  assumes gen: "generous C" and ok: "bufs_ok (tb_bufs s) (tb_at s)" and left: "tb_left s \<noteq> []"
    and sp: "flags AND MSG_SPLICE_PAGES = 0"
  obtains d s1 where "tls_copy_iter C flags s = (CopyNext (length d), s1)" "build_step d s s1"
    "d \<noteq> [] \<or> (length (last (tb_bufs s)) = MAX_SKB_FRAGS \<and> last (tb_bufs s1) = [])"
proof -
  obtain pre fs where s: "tb_bufs s = pre @ [fs]" "tb_at s = length pre" using ok by (auto simp: bufs_ok_def)
  obtain page off sz where rf: "tc_refill C (tb_tick s) (tb_pfrag s) = Some (page, off, sz)"
    using gen unfolding generous_def by (metis not_None_eq prod_cases3)
  have law: "build_law C" using gen by (simp add: generous_def)
  have off: "off < sz" by (rule build_law_room [OF law rf])
  have at: "tb_bufs s ! tb_at s = fs" "last (tb_bufs s) = fs" using s by simp_all
  have "\<exists>k s1. tls_copy_iter C flags s = (CopyNext k, s1) \<and> (0 < k \<or> (length fs = MAX_SKB_FRAGS \<and> last (tb_bufs s1) = []))"
    using gen rf at(1) sp off left
    by (cases "\<not> frag_coalesces fs page off \<and> length fs = MAX_SKB_FRAGS")
       (simp_all add: tls_copy_iter_def Let_def generous_def)
  then obtain k s1 where it: "tls_copy_iter C flags s = (CopyNext k, s1)"
    and k: "0 < k \<or> (length fs = MAX_SKB_FRAGS \<and> last (tb_bufs s1) = [])" by blast
  obtain d where "build_step d s s1" "k = length d" by (rule copy_iter_ok [OF law ok left it]) blast
  with it k at(2) that show thesis by auto
qed

definition wmem_add :: "nat \<Rightarrow> int \<Rightarrow> tls_world \<Rightarrow> tls_world" where
  "wmem_add a n = upd_ksk a (\<lambda>k. k\<lparr>tk_wmem_queued := tk_wmem_queued k + n\<rparr>)"

lemma upd_ksk_twice [simp]: "upd_ksk a f (upd_ksk a g w) = upd_ksk a (\<lambda>k. f (g k)) w"
  by (simp add: upd_ksk_def option.map_comp comp_def)

lemma wmem_add_add: "wmem_add a n (wmem_add a m w) = wmem_add a (m + n) w"
  by (simp add: wmem_add_def add.assoc)

lemma copy_loop_generous:
  assumes gen: "generous C" and sp: "flags AND MSG_SPLICE_PAGES = 0"
    and ok: "bufs_ok (tb_bufs s) (tb_at s)"
    and n: "2 * length (tb_left s) + (if length (last (tb_bufs s)) = MAX_SKB_FRAGS then 1 else 0) < n"
  shows "\<exists>s'. tls_copy_loop n C flags a s w = Some (Inr (0, s', wmem_add a (int (length (tb_left s))) w)) \<and>
    build_path (tb_left s) s s' \<and> tb_left s' = []"
  using ok n
proof (induction n arbitrary: s w)
  case 0
  then show ?case by simp
next
  case (Suc n)
  show ?case
  proof (cases "tb_left s = []")
    case True
    moreover have "wmem_add a 0 w = w"
      by (simp add: wmem_add_def upd_ksk_def option.map_ident)
    ultimately show ?thesis using build_path_refl [OF Suc.prems(1)] by simp
  next
    case False
    obtain d s1 where it: "tls_copy_iter C flags s = (CopyNext (length d), s1)" "build_step d s s1"
      and pr: "d \<noteq> [] \<or> (length (last (tb_bufs s)) = MAX_SKB_FRAGS \<and> last (tb_bufs s1) = [])"
      by (rule copy_iter_generous [OF gen Suc.prems(1) False sp])
    have left: "tb_left s = d @ tb_left s1" and ok1: "bufs_ok (tb_bufs s1) (tb_at s1)"
      using it(2) by (simp_all add: build_step_def)
    have "2 * length (tb_left s1) + (if length (last (tb_bufs s1)) = MAX_SKB_FRAGS then 1 else 0) < n"
    proof (cases "d = []")
      case True
      then show ?thesis using pr left Suc.prems(2) by (simp add: MAX_SKB_FRAGS_def)
    next
      case False
      then show ?thesis using left Suc.prems(2) by (cases d) (auto split: if_splits)
    qed
    from Suc.IH [OF ok1 this, of "wmem_add a (int (length d)) w"]
    obtain s' where r: "tls_copy_loop n C flags a s1 (wmem_add a (int (length d)) w) =
        Some (Inr (0, s', wmem_add a (int (length (tb_left s1))) (wmem_add a (int (length d)) w)))"
      "build_path (tb_left s1) s1 s'" "tb_left s' = []" by blast
    have len: "int (length d) + int (length (tb_left s1)) = int (length (tb_left s))" by (simp add: left)
    have "tls_copy_loop (Suc n) C flags a s w = Some (Inr (0, s', wmem_add a (int (length (tb_left s))) w))"
      using False it(1) r(1) [unfolded wmem_add_add] len by (simp add: wmem_add_def)
    moreover have "build_path (tb_left s) s s'"
      using build_path_step [OF False it(2) r(2)] by (simp add: left)
    ultimately show ?thesis using r(3) by blast
  qed
qed

end
