(* ===== verification/Tls_Safe.thy ===== *)
theory Tls_Safe
  imports Tls_Build Sched_Theorems
begin

text \<open>
  The invariant of the send side of the TLS variant: every message that waits is well formed
  and refers to a live socket and a live connection, and a connection that is not in use has
  nothing waiting. Sending never follows a bad pointer and keeps the invariant, whatever the
  kernel and the TLS sockets answer.
\<close>

section \<open>The invariant\<close>

definition fresh_ok :: "tls_msg \<Rightarrow> bool" where
  "fresh_ok m \<longleftrightarrow> tm_bufs m \<noteq> [] \<and> (\<forall>fs \<in> set (tm_bufs m). fs \<noteq> [] \<and> buf_ok fs) \<and> \<not> tm_started_tx m"

definition conn_ok :: "tls_world \<Rightarrow> nat \<Rightarrow> bool" where
  "conn_ok w p \<longleftrightarrow>
     (\<exists>ps c. tw_psocks w p = Some ps \<and> tp_sk ps = Some c \<and> tw_lower w c \<noteq> None \<and>
        (tp_tx_in_use ps \<or> tp_tx_wait_queue ps = []))"

definition queued_ok :: "tls_world \<Rightarrow> nat \<Rightarrow> tls_msg \<Rightarrow> bool" where
  "queued_ok w a m \<longleftrightarrow> fresh_ok m \<and> tm_ksk m = Some a \<and> (\<forall>p. tm_psock m = Some p \<longrightarrow> conn_ok w p)"

definition open_ok :: "tls_msg \<Rightarrow> bool" where
  "open_ok m \<longleftrightarrow> fresh_ok m \<and> tm_last_skb m = length (tm_bufs m) - 1"

definition ksk_ok :: "tls_world \<Rightarrow> nat \<Rightarrow> tls_ksk \<Rightarrow> bool" where
  "ksk_ok w a k \<longleftrightarrow> tk_type k = SOCK_DGRAM \<and> (\<forall>m \<in> set (tk_write_queue k). queued_ok w a m) \<and>
     (\<forall>m. tk_seq_skb k = Some m \<longrightarrow> open_ok m)"

definition tls_ok :: "tls_world \<Rightarrow> bool" where
  "tls_ok w \<longleftrightarrow> sched_inv (tw_rk w) \<and>
     (\<forall>a. tw_ksks w a \<noteq> None \<longrightarrow> Some a \<in> set (r_socks (tw_rk w))) \<and>
     (\<forall>a k. tw_ksks w a = Some k \<longrightarrow> ksk_ok w a k) \<and>
     (\<forall>a k p. r_heap (tw_rk w) a = Some k \<longrightarrow> k_last_psock k = Some p \<longrightarrow> conn_ok w p)"

lemma tls_okD:
  assumes "tls_ok w"
  shows "sched_inv (tw_rk w)" "tw_ksks w a = Some k \<Longrightarrow> Some a \<in> set (r_socks (tw_rk w))"
    "tw_ksks w a = Some k \<Longrightarrow> ksk_ok w a k"
    "r_heap (tw_rk w) a = Some rs \<Longrightarrow> k_last_psock rs = Some p \<Longrightarrow> conn_ok w p"
  using assms unfolding tls_ok_def by blast+

text \<open>Sending changes sockets, connections and the output of lower sockets, within these limits.\<close>

definition conns_kept :: "tls_world \<Rightarrow> tls_world \<Rightarrow> bool" where
  "conns_kept w w' \<longleftrightarrow> tw_rk w' = tw_rk w \<and> dom (tw_ksks w') = dom (tw_ksks w) \<and>
     (\<forall>p. conn_ok w p \<longrightarrow> conn_ok w' p)"

lemma conns_kept_refl [simp]: "conns_kept w w"
  by (simp add: conns_kept_def)

lemma conns_kept_trans: "conns_kept a b \<Longrightarrow> conns_kept b c \<Longrightarrow> conns_kept a c"
  by (simp add: conns_kept_def)

lemma queued_ok_kept: "conns_kept w w' \<Longrightarrow> queued_ok w a m \<Longrightarrow> queued_ok w' a m"
  by (simp add: conns_kept_def queued_ok_def)

lemma tls_ok_kept:
  assumes ok: "tls_ok w" and kept: "conns_kept w w'"
    and ks: "\<And>a k'. tw_ksks w' a = Some k' \<Longrightarrow>
      (\<exists>k. tw_ksks w a = Some k) \<and> tk_type k' = SOCK_DGRAM \<and>
      (\<forall>m \<in> set (tk_write_queue k'). queued_ok w' a m) \<and> (\<forall>m. tk_seq_skb k' = Some m \<longrightarrow> open_ok m)"
  shows "tls_ok w'"
  unfolding tls_ok_def
proof (intro conjI allI impI)
  show "sched_inv (tw_rk w')" using tls_okD(1) [OF ok] kept by (simp add: conns_kept_def)
  show "Some a \<in> set (r_socks (tw_rk w'))" if "tw_ksks w' a \<noteq> None" for a
  proof -
    from that obtain k' where "tw_ksks w' a = Some k'" by blast
    then obtain k where "tw_ksks w a = Some k" using ks by blast
    then show ?thesis using tls_okD(2) [OF ok] kept by (simp add: conns_kept_def)
  qed
  show "ksk_ok w' a k'" if "tw_ksks w' a = Some k'" for a k'
    using ks [OF that] by (simp add: ksk_ok_def)
  show "conn_ok w' p" if "r_heap (tw_rk w') a = Some k" "k_last_psock k = Some p" for a k p
    using that tls_okD(4) [OF ok] kept unfolding conns_kept_def by metis
qed

lemma conn_ok_upd_ksk [simp]: "conn_ok (upd_ksk a f w) p = conn_ok w p"
  by (simp add: conn_ok_def upd_ksk_def)

lemma upd_ksk_sel [simp]:
  "tw_psocks (upd_ksk a f w) = tw_psocks w" "tw_lower (upd_ksk a f w) = tw_lower w"
  "tw_rk (upd_ksk a f w) = tw_rk w" "tw_calls (upd_ksk a f w) = tw_calls w"
  "tw_ksks (upd_ksk a f w) b = (if b = a then map_option f (tw_ksks w a) else tw_ksks w b)"
  by (simp_all add: upd_ksk_def)

lemma conns_kept_upd_ksk [simp]: "conns_kept w (upd_ksk a f w)"
  by (auto simp: conns_kept_def dom_def)

lemma conns_kept_live: "conns_kept w w' \<Longrightarrow> tw_ksks w a \<noteq> None \<Longrightarrow> tw_ksks w' a \<noteq> None"
  unfolding conns_kept_def dom_def by blast

lemma queued_ok_upd_ksk [simp]: "queued_ok (upd_ksk a f w) b m = queued_ok w b m"
  by (simp add: queued_ok_def)

text \<open>An update of one socket that keeps its type and leaves good messages.\<close>

lemma tls_ok_upd_ksk:
  assumes "tls_ok w"
    and "\<And>k. tw_ksks w a = Some k \<Longrightarrow> tk_type (f k) = tk_type k \<and>
      (\<forall>m \<in> set (tk_write_queue (f k)). queued_ok w a m) \<and> (\<forall>m. tk_seq_skb (f k) = Some m \<longrightarrow> open_ok m)"
  shows "tls_ok (upd_ksk a f w)"
proof (rule tls_ok_kept [OF assms(1) conns_kept_upd_ksk])
  fix b k' assume "tw_ksks (upd_ksk a f w) b = Some k'"
  then obtain k where k: "tw_ksks w b = Some k" "k' = (if b = a then f k else k)" by (auto split: if_splits)
  from tls_okD(3) [OF assms(1) k(1)] assms(2) k
  show "(\<exists>k. tw_ksks w b = Some k) \<and> tk_type k' = SOCK_DGRAM \<and>
    (\<forall>m \<in> set (tk_write_queue k'). queued_ok (upd_ksk a f w) b m) \<and> (\<forall>m. tk_seq_skb k' = Some m \<longrightarrow> open_ok m)"
    by (auto simp: ksk_ok_def)
qed

text \<open>An update of one socket that does not touch its messages.\<close>

lemma tls_ok_upd_frame:
  assumes "tls_ok w"
    and "\<And>k. tk_type (f k) = tk_type k \<and> tk_write_queue (f k) = tk_write_queue k \<and> tk_seq_skb (f k) = tk_seq_skb k"
  shows "tls_ok (upd_ksk a f w)"
  using tls_okD(3) [OF assms(1)] assms(2)
  by (intro tls_ok_upd_ksk [OF assms(1)]) (auto simp: ksk_ok_def)

section \<open>Writing\<close>

text \<open>One call of \<open>write_to_csock\<close> on a connection with well-formed messages.\<close>

lemma write_to_csock_effect:
  assumes ps: "tw_psocks w p = Some ps" "tp_sk ps = Some c" "tw_lower w c = Some l"
    and q: "\<forall>m \<in> set (tp_tx_wait_queue ps). msg_ok m" "owners_live (tw_ksks w) (tp_tx_wait_queue ps)"
    and law: "sock_law (send c)"
  obtains r q' ks' calls out where
    "write_to_csock send p w = Inr (r, w\<lparr>tw_calls := calls, tw_ksks := ks',
       tw_psocks := (tw_psocks w)(p \<mapsto> ps\<lparr>tp_tx_wait_queue := q'\<rparr>),
       tw_lower := (tw_lower w)(c \<mapsto> l\<lparr>tl_out := tl_out l @ out\<rparr>)\<rparr>)"
    "same_but_wmem (tw_ksks w) ks'" "owners_live ks' q'"
    "write_queue_post (send c) (tp_tx_wait_queue ps) 0 r q' out"
    "write_queue (Inr (send c)) (tw_calls w) (tp_tx_wait_queue ps) 0 (tw_ksks w) = Inr (r, calls, q', ks', out)"
proof -
  obtain r calls q' ks' out where wq:
    "write_queue (Inr (send c)) (tw_calls w) (tp_tx_wait_queue ps) 0 (tw_ksks w) = Inr (r, calls, q', ks', out)"
    "owners_live ks' q'" "same_but_wmem (tw_ksks w) ks'"
    "write_queue_post (send c) (tp_tx_wait_queue ps) 0 r q' out"
    using write_queue_law [OF q law] by blast
  have "write_to_csock send p w = Inr (r, w\<lparr>tw_calls := calls, tw_ksks := ks',
       tw_psocks := (tw_psocks w)(p \<mapsto> ps\<lparr>tp_tx_wait_queue := q'\<rparr>),
       tw_lower := (tw_lower w)(c \<mapsto> l\<lparr>tl_out := tl_out l @ out\<rparr>)\<rparr>)"
    using ps wq(1) by (simp add: write_to_csock_def access_defs)
  from that [OF this wq(3,2,4,1)] show thesis .
qed

lemma fresh_msg: "fresh_ok m \<Longrightarrow> msg_ok m \<and> msg_left m = msg_all m"
  using fresh_msg_ok by (simp add: fresh_ok_def)

lemma same_but_wmem_ksk:
  assumes "same_but_wmem ks ks'" "ks' a = Some k'"
  obtains k where "ks a = Some k" "tk_type k' = tk_type k" "tk_write_queue k' = tk_write_queue k"
    "tk_seq_skb k' = tk_seq_skb k"
proof -
  obtain k where k: "ks a = Some k" using assms same_but_wmem_dom [OF assms(1)] by (auto simp: dom_def)
  obtain x where "ks' a = Some (k\<lparr>tk_wmem_queued := x\<rparr>)" by (rule same_but_wmem_at [OF assms(1) k])
  then show thesis using that [OF k] assms(2) by simp
qed

text \<open>A connection rewritten in place stays good when it is in use or empty.\<close>

lemma tls_ok_conn:
  assumes ok: "tls_ok w" and p: "tw_psocks w p = Some ps" "tp_sk ps = Some c" "tw_lower w c = Some l"
    and ps': "tp_sk ps' = Some c" "tp_tx_in_use ps' \<or> tp_tx_wait_queue ps' = []"
    and w': "tw_rk w' = tw_rk w" "tw_psocks w' = (tw_psocks w)(p \<mapsto> ps')"
      "tw_lower w' = (tw_lower w)(c \<mapsto> l')" "same_but_wmem (tw_ksks w) (tw_ksks w')"
  shows "tls_ok w'" "conns_kept w w'"
proof -
  show kept: "conns_kept w w'"
    unfolding conns_kept_def
  proof (intro conjI allI impI)
    fix x assume "conn_ok w x"
    then obtain psx cx where "tw_psocks w x = Some psx" "tp_sk psx = Some cx" "tw_lower w cx \<noteq> None"
      "tp_tx_in_use psx \<or> tp_tx_wait_queue psx = []" by (auto simp: conn_ok_def)
    moreover from this have "tw_lower w' cx \<noteq> None" using w'(3) by simp
    ultimately show "conn_ok w' x" using ps' w'(2,3) by (cases "x = p") (simp_all add: conn_ok_def)
  qed (use w'(1,4) same_but_wmem_dom in blast)+
  show "tls_ok w'"
  proof (rule tls_ok_kept [OF ok kept])
    fix a k' assume "tw_ksks w' a = Some k'"
    with w'(4) obtain k where k: "tw_ksks w a = Some k" "tk_type k' = tk_type k"
      "tk_write_queue k' = tk_write_queue k" "tk_seq_skb k' = tk_seq_skb k" by (rule same_but_wmem_ksk)
    from tls_okD(3) [OF ok k(1)] k queued_ok_kept [OF kept]
    show "(\<exists>k. tw_ksks w a = Some k) \<and> tk_type k' = SOCK_DGRAM \<and>
      (\<forall>m \<in> set (tk_write_queue k'). queued_ok w' a m) \<and> (\<forall>m. tk_seq_skb k' = Some m \<longrightarrow> open_ok m)"
      by (auto simp: ksk_ok_def)
  qed
qed

lemma write_space_ok: "tls_ok w \<Longrightarrow> tls_ok (tls_write_space a w)"
  unfolding tls_write_space_def by (rule tls_ok_upd_frame) simp_all

lemma write_space_kept: "conns_kept w (tls_write_space a w)"
  by (simp add: tls_write_space_def)

definition laws :: "(nat \<Rightarrow> nat \<Rightarrow> bytes \<Rightarrow> int) \<Rightarrow> bool" where
  "laws send \<longleftrightarrow> (\<forall>c. sock_law (send c))"

lemma psock_upd_comm: "ps\<lparr>tp_tx_wait_queue := q, tp_tx_in_use := b\<rparr> = ps\<lparr>tp_tx_in_use := b, tp_tx_wait_queue := q\<rparr>"
  by simp

text \<open>Handing one message of socket \<open>a\<close> to an idle connection and writing it out.\<close>

lemma write_one:
  assumes ok: "tls_ok w" and a: "tw_ksks w a = Some k" and m: "queued_ok w a m"
    and ps: "tw_psocks w p = Some ps" "tm_psock m = Some p" "\<not> tp_tx_in_use ps" and law: "laws send"
  obtains r w3 where
    "write_to_csock send p (set_in_use p True
       (set_tls_psock p (ps\<lparr>tp_tx_wait_queue := tp_tx_wait_queue ps @ [m]\<rparr>) w)) = Inr (r, w3)"
    "tls_ok (set_in_use p True w3)" "conns_kept w (set_in_use p True w3)"
    "0 < r \<longrightarrow> tls_ok (set_in_use p False w3) \<and> conns_kept w (set_in_use p False w3)"
    "\<exists>k. tw_ksks w3 a = Some k"
proof -
  obtain c l where c: "tp_sk ps = Some c" "tw_lower w c = Some l" "tp_tx_wait_queue ps = []"
    using m ps by (auto simp: queued_ok_def conn_ok_def)
  let ?ps = "ps\<lparr>tp_tx_in_use := True, tp_tx_wait_queue := [m]\<rparr>"
  let ?w = "w\<lparr>tw_psocks := (tw_psocks w)(p \<mapsto> ?ps)\<rparr>"
  have w2: "set_in_use p True (set_tls_psock p (ps\<lparr>tp_tx_wait_queue := tp_tx_wait_queue ps @ [m]\<rparr>) w) = ?w"
    using c(3) by (simp add: set_in_use_def set_tls_psock_def psock_upd_comm)
  have mo: "msg_ok m" using m fresh_msg by (simp add: queued_ok_def)
  have lv: "owners_live (tw_ksks w) [m]" using m a by (simp add: queued_ok_def)
  obtain r q' ks' calls out where e:
    "write_to_csock send p ?w = Inr (r, ?w\<lparr>tw_calls := calls, tw_ksks := ks',
       tw_psocks := (tw_psocks ?w)(p \<mapsto> ?ps\<lparr>tp_tx_wait_queue := q'\<rparr>),
       tw_lower := (tw_lower ?w)(c \<mapsto> l\<lparr>tl_out := tl_out l @ out\<rparr>)\<rparr>)"
    "same_but_wmem (tw_ksks ?w) ks'" "write_queue_post (send c) [m] 0 r q' out"
    by (rule write_to_csock_effect [of ?w p ?ps c l send]) (use c mo lv law in \<open>simp_all add: laws_def\<close>)
  define w3 where "w3 = w\<lparr>tw_calls := calls, tw_ksks := ks',
       tw_psocks := (tw_psocks w)(p \<mapsto> ?ps\<lparr>tp_tx_wait_queue := q'\<rparr>),
       tw_lower := (tw_lower w)(c \<mapsto> l\<lparr>tl_out := tl_out l @ out\<rparr>)\<rparr>"
  have run: "write_to_csock send p ?w = Inr (r, w3)" using e(1) by (simp add: w3_def)
  have set: "tw_psocks (set_in_use p b w3) = (tw_psocks w)(p \<mapsto> ps\<lparr>tp_tx_in_use := b, tp_tx_wait_queue := q'\<rparr>)"
    "tw_rk (set_in_use p b w3) = tw_rk w" "tw_ksks (set_in_use p b w3) = ks'"
    "tw_lower (set_in_use p b w3) = (tw_lower w)(c \<mapsto> l\<lparr>tl_out := tl_out l @ out\<rparr>)" for b
    by (simp_all add: set_in_use_def w3_def psock_upd_comm)
  note conn = tls_ok_conn [OF ok ps(1) c(1,2) _ _ set(2,1,4)]
  have wm: "same_but_wmem (tw_ksks w) (tw_ksks (set_in_use p b w3))" for b using e(2) set(3) by simp
  have "q' = []" if "0 < r" using e(3) that by (auto simp: write_queue_post_def)
  then have "0 < r \<longrightarrow> tls_ok (set_in_use p False w3) \<and> conns_kept w (set_in_use p False w3)"
    using conn [OF _ _ wm] c(1) by simp
  moreover have "tls_ok (set_in_use p True w3)" "conns_kept w (set_in_use p True w3)"
    using conn [OF _ _ wm] c(1) by simp_all
  moreover have "\<exists>k. tw_ksks w3 a = Some k"
    using same_but_wmem_at [of "tw_ksks w" ks' a k] e(2) a by (auto simp: w3_def)
  ultimately show thesis using that run w2 by simp
qed

lemma upd_write_queue_ok:
  assumes "tls_ok w" "\<forall>m \<in> set q. queued_ok w a m"
  shows "tls_ok (upd_ksk a (\<lambda>k. k\<lparr>tk_write_queue := q\<rparr>) w)"
  using tls_okD(3) [OF assms(1)] assms(2)
  by (intro tls_ok_upd_ksk [OF assms(1)]) (auto simp: ksk_ok_def)

lemma write_msgs_loop_safe:
  assumes law: "laws send"
  shows "tls_ok w \<Longrightarrow> tw_ksks w a = Some k \<Longrightarrow> \<forall>m \<in> set q. queued_ok w a m \<Longrightarrow>
    \<exists>r w'. write_msgs_loop send a q total_sent ret w = Inr (r, w') \<and> tls_ok w' \<and> conns_kept w w'"
proof (induction q arbitrary: w k total_sent ret)
  case Nil
  then show ?case by (simp add: write_msgs_out_def write_space_ok write_space_kept)
next
  case (Cons m q)
  let ?w1 = "upd_ksk a (\<lambda>k. k\<lparr>tk_write_queue := q\<rparr>) w"
  have ok1: "tls_ok ?w1" using Cons.prems(1,3) by (intro upd_write_queue_ok) simp_all
  have k1: "tw_ksks ?w1 a = Some (k\<lparr>tk_write_queue := q\<rparr>)" using Cons.prems(2) by simp
  have m: "queued_ok ?w1 a m" and q: "\<forall>m \<in> set q. queued_ok ?w1 a m" using Cons.prems(3) by simp_all
  have go: "\<exists>r w''. write_msgs_loop send a q t r0 w' = Inr (r, w'') \<and> tls_ok w'' \<and> conns_kept w w''"
    if "tls_ok w'" "conns_kept ?w1 w'" "tw_ksks w' a = Some k'" for w' k' t r0
  proof -
    have "\<forall>m \<in> set q. queued_ok w' a m" using q queued_ok_kept [OF that(2)] by blast
    from Cons.IH [OF that(1,3) this, of t r0] show ?thesis
      using conns_kept_trans [OF that(2)] conns_kept_trans [OF conns_kept_upd_ksk] by blast
  qed
  show ?case
  proof (cases "tm_psock m")
    case None
    then show ?thesis using ok1 by simp
  next
    case (Some p)
    then obtain ps c l where ps: "tw_psocks ?w1 p = Some ps" "tp_sk ps = Some c" "tw_lower ?w1 c = Some l"
      "tp_tx_in_use ps \<or> tp_tx_wait_queue ps = []"
      using m by (auto simp: queued_ok_def conn_ok_def)
    let ?ps = "ps\<lparr>tp_tx_wait_queue := tp_tx_wait_queue ps @ [m]\<rparr>"
    have at: "tls_psock_at ?w1 p = Inr ps" using ps(1) by (simp add: tls_psock_at_def)
    show ?thesis
    proof (cases "tp_tx_in_use ps")
      case True
      have "tls_ok (set_tls_psock p ?ps ?w1)" "conns_kept ?w1 (set_tls_psock p ?ps ?w1)"
        using tls_ok_conn [OF ok1 ps(1-3), of ?ps "set_tls_psock p ?ps ?w1" l] True ps
        by (simp_all add: set_tls_psock_def fun_upd_idem)
      from go [OF this, of _ total_sent ret] show ?thesis using Some True at k1 by (simp add: set_tls_psock_def)
    next
      case False
      obtain r w3 where w3: "write_to_csock send p (set_in_use p True (set_tls_psock p ?ps ?w1)) = Inr (r, w3)"
        "tls_ok (set_in_use p True w3)" "conns_kept ?w1 (set_in_use p True w3)"
        "0 < r \<longrightarrow> tls_ok (set_in_use p False w3) \<and> conns_kept ?w1 (set_in_use p False w3)"
        "\<exists>k. tw_ksks w3 a = Some k"
        by (rule write_one [OF ok1 k1 m ps(1) Some False law])
      show ?thesis
      proof (cases "r \<le> 0")
        case True
        then show ?thesis
          using Some False at w3(1,2,3) conns_kept_trans [OF conns_kept_trans [OF conns_kept_upd_ksk w3(3)] write_space_kept]
          by (simp add: write_msgs_out_def write_space_ok)
      next
        case r: False
        obtain k3 where "tw_ksks (set_in_use p False w3) a = Some k3" using w3(5) by (auto simp: set_in_use_def)
        from go [OF _ _ this, of "total_sent + word_of_int r" r] w3(4) r
        show ?thesis using Some False at w3(1) by simp
      qed
    qed
  qed
qed

lemma rakaia_write_msgs_safe:
  assumes "laws send" "tls_ok w" "tw_ksks w a \<noteq> None"
  shows "\<exists>r w'. rakaia_write_msgs send a w = Inr (r, w') \<and> tls_ok w' \<and> conns_kept w w'"
proof -
  obtain k where k: "tw_ksks w a = Some k" using assms(3) by blast
  let ?w = "upd_ksk a (\<lambda>k. k\<lparr>tk_wait_more := False\<rparr>) w"
  have ok: "tls_ok ?w" by (rule tls_ok_upd_frame [OF assms(2)]) simp
  have "\<forall>m \<in> set (tk_write_queue k). queued_ok ?w a m"
    using tls_okD(3) [OF assms(2) k] by (simp add: ksk_ok_def)
  from write_msgs_loop_safe [OF assms(1) ok _ this, of _ 0 0] k
  obtain r w' where "write_msgs_loop send a (tk_write_queue k) 0 0 ?w = Inr (r, w')" "tls_ok w'" "conns_kept ?w w'"
    by auto
  then show ?thesis using k conns_kept_trans [OF conns_kept_upd_ksk]
    by (auto simp: rakaia_write_msgs_def tls_ksk_at_def)
qed


section \<open>Building\<close>

lemma tls_push_safe:
  assumes "laws send" "tls_ok w" "tw_ksks w a \<noteq> None"
  shows "\<exists>w'. tls_push send a w = Inr w' \<and> tls_ok w' \<and> conns_kept w w'"
  using rakaia_write_msgs_safe [OF assms] assms(2,3)
  by (auto simp: tls_push_def tls_ksk_at_def)

lemma tls_wait_memory_safe:
  assumes "laws (tc_send C)" "tls_ok w" "tw_ksks w a \<noteq> None"
  obtains err w' where "tls_wait_memory C a t w = Inr (err, w')" "tls_ok w'" "conns_kept w w'"
  using tls_push_safe [OF assms] that by (auto simp: tls_wait_memory_def)

text \<open>One more step of a copy that is good so far.\<close>

definition copy_safe :: "tls_world \<Rightarrow> tls_build \<Rightarrow> fault + int \<times> tls_build \<times> tls_world \<Rightarrow> bool" where
  "copy_safe w s R \<longleftrightarrow>
     (\<exists>err s' w' d. R = Inr (err, s', w') \<and> tls_ok w' \<and> conns_kept w w' \<and> build_path d s s' \<and>
        (err = 0 \<longrightarrow> tb_left s' = []))"

lemma copy_safe_step:
  assumes "copy_safe w1 s1 R" "conns_kept w w1" "tb_left s \<noteq> []" "build_step d s s1"
  shows "copy_safe w s R"
proof -
  obtain err s' w' d' where R: "R = Inr (err, s', w')" "tls_ok w'" "conns_kept w1 w'" "build_path d' s1 s'"
    "err = 0 \<longrightarrow> tb_left s' = []" using assms(1) unfolding copy_safe_def by blast
  show ?thesis unfolding copy_safe_def
    using R conns_kept_trans [OF assms(2) R(3)] build_path_step [OF assms(3,4) R(4)] by blast
qed

lemma copy_loop_safe:
  assumes law: "build_law C" "laws (tc_send C)"
  shows "bufs_ok (tb_bufs s) (tb_at s) \<Longrightarrow> tls_ok w \<Longrightarrow> tw_ksks w a \<noteq> None \<Longrightarrow>
    tls_copy_loop n C flags a s w = Some R \<Longrightarrow> copy_safe w s R"
proof (induction n arbitrary: s w)
  case 0
  then show ?case by simp
next
  case (Suc n)
  show ?case
  proof (cases "tb_left s = []")
    case True
    then have "R = Inr (0, s, w)" using Suc.prems(4) by simp
    then show ?thesis using True Suc.prems(2) build_path_refl [OF Suc.prems(1)] by (auto simp: copy_safe_def)
  next
    case left: False
    obtain e s1 where it: "tls_copy_iter C flags s = (e, s1)" by (cases "tls_copy_iter C flags s")
    obtain d where d: "build_step d s s1" "\<And>r. e = CopyError r \<Longrightarrow> d = [] \<and> r \<noteq> 0"
      by (rule copy_iter_ok [OF law(1) Suc.prems(1) left it]) blast
    have b1: "bufs_ok (tb_bufs s1) (tb_at s1)" using d(1) by (simp add: build_step_def)
    show ?thesis
    proof (cases e)
      case (CopyNext k)
      let ?w = "upd_ksk a (\<lambda>k'. k'\<lparr>tk_wmem_queued := tk_wmem_queued k' + int k\<rparr>) w"
      have "tls_copy_loop n C flags a s1 ?w = Some R" using Suc.prems(4) left it CopyNext by simp
      moreover have "tls_ok ?w" by (rule tls_ok_upd_frame [OF Suc.prems(2)]) simp
      ultimately have "copy_safe ?w s1 R" using Suc.IH [OF b1] Suc.prems(3) by simp
      from copy_safe_step [OF this _ left d(1)] show ?thesis by simp
    next
      case (CopyError r)
      then have R: "R = Inr (r, s1, w)" using Suc.prems(4) left it by simp
      have "copy_safe w s1 R"
        using R d(2) [OF CopyError] Suc.prems(2) build_path_refl [OF b1] by (auto simp: copy_safe_def)
      from copy_safe_step [OF this _ left d(1)] show ?thesis by simp
    next
      case CopyWait
      obtain err w1 where w1: "tls_wait_memory C a (tb_tick s1) w = Inr (err, w1)" "tls_ok w1" "conns_kept w w1"
        by (rule tls_wait_memory_safe [OF law(2) Suc.prems(2,3)])
      have "copy_safe w1 s1 R"
      proof (cases "err = 0")
        case True
        then have "tls_copy_loop n C flags a s1 w1 = Some R" using Suc.prems(4) left it CopyWait w1(1) by simp
        from Suc.IH [OF b1 w1(2) conns_kept_live [OF w1(3) Suc.prems(3)] this] show ?thesis .
      next
        case False
        then have "R = Inr (err, s1, w1)" using Suc.prems(4) left it CopyWait w1(1) by simp
        then show ?thesis using False w1(2) build_path_refl [OF b1] by (auto simp: copy_safe_def)
      qed
      from copy_safe_step [OF this w1(3) left d(1)] show ?thesis .
    qed
  qed
qed

lemma alloc_head_safe:
  assumes law: "laws (tc_send C)"
  shows "tls_ok w \<Longrightarrow> tw_ksks w a \<noteq> None \<Longrightarrow> tls_alloc_head n C a t w = Some R \<Longrightarrow>
    \<exists>err t' w'. R = Inr (err, t', w') \<and> tls_ok w' \<and> conns_kept w w'"
proof (induction n arbitrary: t w)
  case 0
  then show ?case by simp
next
  case (Suc n)
  show ?case
  proof (cases "tc_alloc C t")
    case True
    then show ?thesis using Suc.prems by auto
  next
    case False
    obtain err w1 where w1: "tls_wait_memory C a t w = Inr (err, w1)" "tls_ok w1" "conns_kept w w1"
      by (rule tls_wait_memory_safe [OF law Suc.prems(1,2)])
    show ?thesis
    proof (cases "err = 0")
      case True
      then have "tls_alloc_head n C a (Suc t) w1 = Some R" using Suc.prems(3) False w1(1) by simp
      from Suc.IH [OF w1(2) conns_kept_live [OF w1(3) Suc.prems(2)] this] show ?thesis
        using conns_kept_trans [OF w1(3)] by blast
    next
      case err: False
      then show ?thesis using Suc.prems(3) False w1 by auto
    qed
  qed
qed

section \<open>The whole call\<close>

lemma queue_rcv_frame:
  assumes "rakaia_queue_rcv_skb ok a m rk = Inr (r, rk')"
  shows "map_option k_last_psock (r_heap rk' b) = map_option k_last_psock (r_heap rk b)" "r_socks rk' = r_socks rk"
  using assms by (auto simp: rakaia_queue_rcv_skb_def option.map_comp comp_def split: sum.splits if_splits)

lemma dequeued_frame:
  "map_option k_last_psock (r_heap (dequeued i a rest rk) b) = map_option k_last_psock (r_heap rk b)"
  by (simp add: dequeued_def Let_def option.map_comp comp_def)

text \<open>Pulling keeps what a socket remembers of the connection it last received from.\<close>

lemma pull_frame:
  assumes inv: "sched_inv rk" and a: "Some a \<in> set (r_socks rk)"
    and run: "rakaia_pull n rnd p sched_ok a rk = Some R"
  obtains r rk' where "R = Inr (r, rk')" "sched_inv rk'" "r_socks rk' = r_socks rk"
    "\<forall>b. map_option k_last_psock (r_heap rk' b) = map_option k_last_psock (r_heap rk b)"
proof -
  obtain i k where at: "at_slot rk i a k" using mem_at_slot [OF sched_invD(1) [OF inv] a] by blast
  obtain r rk' where R: "R = Inr (r, rk')" "sched_inv rk'"
    using pull_refines [OF inv at run] by blast
  from inv at run have "(\<forall>b. map_option k_last_psock (r_heap rk' b) = map_option k_last_psock (r_heap rk b)) \<and>
      r_socks rk' = r_socks rk"
  proof (cases rule: pull_cases)
    case (own m rest)
    then have "rakaia_queue_rcv_skb sched_ok a m (dequeued i a rest rk) = Inr (r, rk')" using R(1) by simp
    from queue_rcv_frame [OF this] show ?thesis by (simp add: dequeued_frame option.map_comp comp_def)
  next
    case (steal j va v m rest)
    then have "rakaia_queue_rcv_skb sched_ok a m
        (upd_sock a (\<lambda>s. s\<lparr>k_steal_cnt := k_steal_cnt s + 1\<rparr>) (dequeued j va rest rk)) = Inr (r, rk')" using R(1) by simp
    from queue_rcv_frame [OF this] show ?thesis by (simp add: dequeued_frame option.map_comp comp_def)
  next
    case idle
    then show ?thesis using R(1) by (simp add: rakaia_go_idle_def split: if_splits)
  qed
  with R that show thesis by blast
qed

definition safe_result :: "tls_world \<Rightarrow> fault + int \<times> tls_world \<Rightarrow> bool" where
  "safe_result w R \<longleftrightarrow> (\<exists>r w'. R = Inr (r, w') \<and> tls_ok w' \<and> dom (tw_ksks w') = dom (tw_ksks w))"

lemma safe_result_from: "conns_kept w w1 \<Longrightarrow> safe_result w1 R \<Longrightarrow> safe_result w R"
  by (simp add: safe_result_def conns_kept_def)

lemma tls_pull_safe:
  assumes ok: "tls_ok w" and a: "tw_ksks w a \<noteq> None" and run: "tls_pull n C a eor ret w = Some R"
  shows "safe_result w R"
proof (cases eor)
  case False
  then show ?thesis using run ok by (auto simp: tls_pull_def safe_result_def)
next
  case True
  obtain S where S: "rakaia_pull n (tc_rnd C) 0 (tc_sched_ok C) a (tw_rk w) = Some S"
    "R = map_sum id (\<lambda>(_, rk). (ret, w\<lparr>tw_rk := rk\<rparr>)) S" using run True by (auto simp: tls_pull_def)
  have "Some a \<in> set (r_socks (tw_rk w))" using a tls_okD(2) [OF ok] by blast
  from tls_okD(1) [OF ok] this S(1)
  obtain r rk' where rk: "S = Inr (r, rk')" "sched_inv rk'" "r_socks rk' = r_socks (tw_rk w)"
    "\<forall>b. map_option k_last_psock (r_heap rk' b) = map_option k_last_psock (r_heap (tw_rk w) b)"
    by (rule pull_frame)
  have conn: "conn_ok (w\<lparr>tw_rk := rk'\<rparr>) p = conn_ok w p" for p by (simp add: conn_ok_def)
  have last: "conn_ok w p" if b: "r_heap rk' b = Some k" and p: "k_last_psock k = Some p" for b k p
  proof -
    obtain k0 where "r_heap (tw_rk w) b = Some k0" "k_last_psock k0 = Some p"
      using spec [OF rk(4), of b] b p by (cases "r_heap (tw_rk w) b") simp_all
    then show ?thesis by (rule tls_okD(4) [OF ok])
  qed
  have "ksk_ok (w\<lparr>tw_rk := rk'\<rparr>) a k = ksk_ok w a k" for a k by (simp add: ksk_ok_def queued_ok_def conn)
  then have "tls_ok (w\<lparr>tw_rk := rk'\<rparr>)"
    unfolding tls_ok_def using rk(2,3) last tls_okD(2,3) [OF ok] by (auto simp: conn)
  then show ?thesis using S(2) rk(1) by (simp add: safe_result_def)
qed

lemma bufs_ok_fresh:
  assumes "bufs_ok bufs at" "last bufs \<noteq> []" "\<not> tm_started_tx m"
  shows "open_ok (m\<lparr>tm_bufs := bufs, tm_last_skb := at\<rparr>)" "fresh_ok (m\<lparr>tm_bufs := bufs\<rparr>)"
proof -
  obtain pre fs where b: "bufs = pre @ [fs]" "at = length pre" "\<forall>f \<in> set pre. f \<noteq> [] \<and> buf_ok f" "buf_ok fs"
    using assms(1) unfolding bufs_ok_def by blast
  then have "\<forall>f \<in> set bufs. f \<noteq> [] \<and> buf_ok f" "bufs \<noteq> []" using assms(2) by auto
  with b(1,2) assms(3) show "open_ok (m\<lparr>tm_bufs := bufs, tm_last_skb := at\<rparr>)" "fresh_ok (m\<lparr>tm_bufs := bufs\<rparr>)"
    by (simp_all add: open_ok_def fresh_ok_def)
qed

lemma open_ok_bufs:
  assumes "open_ok m"
  shows "bufs_ok (tm_bufs m) (tm_last_skb m)" "last (tm_bufs m) \<noteq> []" "\<not> tm_started_tx m"
proof -
  obtain pre fs where b: "tm_bufs m = pre @ [fs]"
    using assms by (cases "tm_bufs m" rule: rev_cases) (simp_all add: open_ok_def fresh_ok_def)
  then have "\<forall>f \<in> set (pre @ [fs]). f \<noteq> [] \<and> buf_ok f" "tm_last_skb m = length pre" "\<not> tm_started_tx m"
    using assms by (simp_all add: open_ok_def fresh_ok_def)
  with b show "bufs_ok (tm_bufs m) (tm_last_skb m)" "last (tm_bufs m) \<noteq> []" "\<not> tm_started_tx m"
    by (simp_all add: bufs_ok_def)
qed

text \<open>The message a call works on: none, or one whose buffers are those of the build.\<close>

definition head_ok :: "tls_msg option \<Rightarrow> tls_build \<Rightarrow> bool" where
  "head_ok head s \<longleftrightarrow> bufs_ok (tb_bufs s) (tb_at s) \<and>
     (\<forall>m. head = Some m \<longrightarrow> \<not> tm_started_tx m \<and> (tb_left s \<noteq> [] \<or> last (tb_bufs s) \<noteq> []))"

lemma head_ok_path:
  assumes "head_ok head s" "build_path d s s'"
  shows "head_ok head s'"
  using assms by (auto simp: head_ok_def build_path_def)

lemma upd_message_ok:
  assumes ok: "tls_ok w" and q: "\<forall>m \<in> set new. queued_ok w a m" and m: "\<forall>m. seq = Some m \<longrightarrow> open_ok m"
  shows "tls_ok (upd_ksk a (\<lambda>k. k\<lparr>tk_write_queue := tk_write_queue k @ new, tk_seq_skb := seq\<rparr>) w)"
  using tls_okD(3) [OF ok] q m by (intro tls_ok_upd_ksk [OF ok]) (auto simp: ksk_ok_def)

lemma upd_seq_ok:
  assumes "tls_ok w" "open_ok m"
  shows "tls_ok (upd_ksk a (\<lambda>k. k\<lparr>tk_seq_skb := Some m\<rparr>) w)"
  using tls_okD(3) [OF assms(1)] assms(2) by (intro tls_ok_upd_ksk [OF assms(1)]) (auto simp: ksk_ok_def)

lemma tls_complete_safe:
  assumes law: "laws (tc_send C)" and ok: "tls_ok w" and a: "tw_ksks w a \<noteq> None"
    and head: "head_ok head s" "tb_left s = []"
  obtains w' where "tls_complete C a flags head s w = Inr w'" "tls_ok w'" "conns_kept w w'"
proof -
  obtain k where k: "tw_ksks w a = Some k" using a by blast
  obtain w1 where w1: "(case head of None \<Rightarrow> Inr w | Some m \<Rightarrow>
        map_sum id (\<lambda>rs. upd_ksk a (\<lambda>k. k\<lparr>tk_write_queue := tk_write_queue k @
           [m\<lparr>tm_bufs := tb_bufs s, tm_ksk := Some a, tm_psock := k_last_psock rs\<rparr>], tk_seq_skb := None\<rparr>) w)
          (deref (tw_rk w) a)) = Inr w1" "tls_ok w1" "conns_kept w w1"
  proof (cases head)
    case None
    then show thesis using that ok by simp
  next
    case (Some m)
    obtain i rs where "at_slot (tw_rk w) i a rs"
      using mem_at_slot [OF sched_invD(1) [OF tls_okD(1) [OF ok]] tls_okD(2) [OF ok k]] by blast
    then have rs: "deref (tw_rk w) a = Inr rs" "r_heap (tw_rk w) a = Some rs"
      using deref_at by (auto simp: at_slot_def)
    let ?m = "m\<lparr>tm_bufs := tb_bufs s, tm_ksk := Some a, tm_psock := k_last_psock rs\<rparr>"
    have "fresh_ok ?m" using bufs_ok_fresh(2) [of "tb_bufs s" "tb_at s" m] head Some by (simp add: head_ok_def fresh_ok_def)
    then have "queued_ok w a ?m" using tls_okD(4) [OF ok rs(2)] by (simp add: queued_ok_def)
    then show thesis using that Some rs(1) upd_message_ok [OF ok, of "[?m]" a None] by simp
  qed
  have a1: "tw_ksks w1 a \<noteq> None" by (rule conns_kept_live [OF w1(3) a])
  obtain r w2 where w2: "rakaia_write_msgs (tc_send C) a w1 = Inr (r, w2)" "tls_ok w2" "conns_kept w1 w2"
    using rakaia_write_msgs_safe [OF law w1(2) a1] by blast
  have "tls_ok (upd_ksk a (\<lambda>k. k\<lparr>tk_wait_more := True\<rparr>) w1)" by (rule tls_ok_upd_frame [OF w1(2)]) simp
  then have "\<exists>w'. (if flags AND MSG_BATCH \<noteq> 0 then Inr (upd_ksk a (\<lambda>k. k\<lparr>tk_wait_more := True\<rparr>) w1)
      else if tk_wait_more k \<or> tk_write_queue k = []
      then map_sum id (\<lambda>(_, w2). w2) (rakaia_write_msgs (tc_send C) a w1)
      else Inr w1) = (Inr w' :: fault + tls_world) \<and> tls_ok w' \<and> conns_kept w w'"
    using w1(2,3) w2 conns_kept_trans [OF w1(3)] by simp
  then show thesis
    using that k w1(1) by (auto simp: tls_complete_def tls_ksk_at_def simp del: split_paired_Ex)
qed

lemma tls_out_error_safe:
  assumes law: "laws (tc_send C)" and ok: "tls_ok w" and a: "tw_ksks w a \<noteq> None"
    and run: "tls_out_error n C a eor head s err w = Some R"
  shows "safe_result w R"
proof -
  obtain w1 where w1: "tls_push (tc_send C) a w = Inr w1" "tls_ok w1" "conns_kept w w1"
    using tls_push_safe [OF law ok a] by blast
  obtain k where k: "tw_ksks w1 a = Some k" using conns_kept_live [OF w1(3) a] by blast
  have dg: "tk_type k = SOCK_DGRAM" using tls_okD(3) [OF w1(2) k] by (simp add: ksk_ok_def)
  let ?w = "upd_ksk a (\<lambda>k. k\<lparr>tk_seq_skb :=
      (if tk_type k = SOCK_SEQPACKET
       then map_option (\<lambda>m. m\<lparr>tm_bufs := (if head = None then tm_bufs m else tb_bufs s)\<rparr>) (tk_seq_skb k)
       else None)\<rparr>) w1"
  have "tls_ok ?w"
    using tls_okD(3) [OF w1(2)] by (intro tls_ok_upd_ksk [OF w1(2)]) (auto simp: ksk_ok_def)
  moreover from this have "tls_ok (tls_write_space a ?w)" by (rule write_space_ok)
  moreover have "conns_kept w ?w" "conns_kept w (tls_write_space a ?w)"
    using conns_kept_trans [OF w1(3) conns_kept_upd_ksk] conns_kept_trans [OF _ write_space_kept] by blast+
  ultimately show ?thesis
    using run w1(1) k dg
    by (auto simp: tls_out_error_def tls_ksk_at_def safe_result_def Let_def conns_kept_def)
qed

lemma tls_send_start_safe:
  assumes law: "build_law C" "laws (tc_send C)" and ok: "tls_ok w" and a: "tw_ksks w a \<noteq> None"
    and head: "head_ok head s" and run: "tls_send_start n C a flags head s w = Some R"
  shows "safe_result w R"
proof -
  obtain k where k: "tw_ksks w a = Some k" using a by blast
  have dg: "tk_type k = SOCK_DGRAM" using tls_okD(3) [OF ok k] by (simp add: ksk_ok_def)
  let ?eor = "tls_eor (tk_type k) flags"
  obtain S where S: "tls_copy_loop n C flags a s w = Some S"
    using run k by (cases "tls_copy_loop n C flags a s w") (simp_all add: tls_send_start_def tls_ksk_at_def Let_def)
  have "copy_safe w s S" by (rule copy_loop_safe [OF law _ ok a S]) (use head in \<open>simp add: head_ok_def\<close>)
  then obtain err s1 w1 d where c: "S = Inr (err, s1, w1)" "tls_ok w1" "conns_kept w w1" "build_path d s s1"
    "err = 0 \<longrightarrow> tb_left s1 = []" unfolding copy_safe_def by blast
  note head1 = head_ok_path [OF head c(4)]
  let ?w = "upd_ksk a (\<lambda>k. k\<lparr>tk_pfrag := tb_pfrag s1\<rparr>) w1"
  have ok2: "tls_ok ?w" by (rule tls_ok_upd_frame [OF c(2)]) simp
  have a2: "tw_ksks ?w a \<noteq> None" using conns_kept_live [OF c(3) a] by simp
  have kept2: "conns_kept w ?w" by (rule conns_kept_trans [OF c(3) conns_kept_upd_ksk])
  have run: "(if err \<noteq> 0 then tls_out_error n C a ?eor head s1 err ?w
      else if ?eor
      then (case tls_complete C a flags head s1 ?w of
              Inl f \<Rightarrow> Some (Inl f) | Inr w3 \<Rightarrow> tls_pull n C a ?eor (int (tb_copied s1)) w3)
      else Some (Inr (int (tb_copied s1), tls_partial a head s1 ?w))) = Some R"
    using run k S c(1) by (simp add: tls_send_start_def tls_ksk_at_def Let_def)
  consider (err) "err \<noteq> 0" | (eor) "err = 0" ?eor | (more) "err = 0" "\<not> ?eor" by blast
  then show ?thesis
  proof cases
    case err
    show ?thesis by (rule safe_result_from [OF kept2 tls_out_error_safe [OF law(2) ok2 a2]]) (use run err in simp)
  next
    case eor
    have left: "tb_left s1 = []" using c(5) eor(1) by simp
    obtain w3 where w3: "tls_complete C a flags head s1 ?w = Inr w3" "tls_ok w3" "conns_kept ?w w3"
      by (rule tls_complete_safe [OF law(2) ok2 a2 head1 left])
    show ?thesis
      by (rule safe_result_from [OF conns_kept_trans [OF kept2 w3(3)] tls_pull_safe [OF w3(2) conns_kept_live [OF w3(3) a2]]])
         (use run eor w3(1) in simp)
  next
    case more
    have left: "tb_left s1 = []" using c(5) more(1) by simp
    have "tls_ok (tls_partial a head s1 ?w)"
    proof (cases head)
      case None
      then show ?thesis using ok2 by (simp only: tls_partial_def option.case)
    next
      case (Some m)
      have op: "open_ok (m\<lparr>tm_bufs := tb_bufs s1, tm_last_skb := tb_at s1\<rparr>)"
        by (rule bufs_ok_fresh(1)) (use head1 Some left in \<open>auto simp: head_ok_def\<close>)
      have "tls_ok (upd_ksk a (\<lambda>k. k\<lparr>tk_seq_skb := Some (m\<lparr>tm_bufs := tb_bufs s1, tm_last_skb := tb_at s1\<rparr>)\<rparr>) ?w)"
        by (rule upd_seq_ok [OF ok2 op])
      then show ?thesis by (simp only: tls_partial_def Some option.case)
    qed
    moreover have "R = Inr (int (tb_copied s1), tls_partial a head s1 ?w)" using run more by simp
    moreover have "dom (tw_ksks (tls_partial a head s1 ?w)) = dom (tw_ksks w)"
      using kept2 conns_kept_upd_ksk by (simp add: tls_partial_def conns_kept_def split: option.split)
    ultimately show ?thesis unfolding safe_result_def by blast
  qed
qed

lemma tls_splice_eof_safe:
  assumes "laws send" "tls_ok w" "tw_ksks w a \<noteq> None"
  shows "\<exists>w'. rakaia_splice_eof send a w = Inr w' \<and> tls_ok w' \<and> dom (tw_ksks w') = dom (tw_ksks w)"
proof -
  obtain k where k: "tw_ksks w a = Some k" using assms(3) by blast
  obtain r w' where "rakaia_write_msgs send a w = Inr (r, w')" "tls_ok w'" "conns_kept w w'"
    using rakaia_write_msgs_safe [OF assms] by blast
  then show ?thesis using k assms(2) by (simp add: rakaia_splice_eof_def tls_ksk_at_def conns_kept_def)
qed

lemma tls_sendmsg_safe:
  assumes law: "build_law C" "laws (tc_send C)" and ok: "tls_ok w" and a: "tw_ksks w a \<noteq> None"
    and run: "tls_sendmsg n C a flags msg w = Some R"
  shows "safe_result w R"
proof -
  obtain k where k: "tw_ksks w a = Some k" using a by blast
  let ?eor = "tls_eor (tk_type k) flags" and ?none = "tls_build_of k new_tls_msg msg 0"
  note out = tls_out_error_safe [OF law(2)] and start = tls_send_start_safe [OF law]
  have new: "head_ok None (tls_build_of k new_tls_msg msg t)"
    "msg \<noteq> [] \<Longrightarrow> head_ok (Some new_tls_msg) (tls_build_of k new_tls_msg msg t)" for t
    by (simp_all add: head_ok_def tls_build_of_def new_tls_msg_def)
  show ?thesis
  proof (cases "tk_err k = 0")
    case False
    then show ?thesis using out [OF ok a] run k by (simp add: tls_sendmsg_def tls_ksk_at_def Let_def)
  next
    case e: True
    show ?thesis
    proof (cases "tk_seq_skb k")
      case (Some m)
      then have "head_ok (Some m) (tls_build_of k m msg 0)"
        using tls_okD(3) [OF ok k] open_ok_bufs by (simp add: ksk_ok_def head_ok_def tls_build_of_def)
      from start [OF ok a this] show ?thesis using run k e Some by (simp add: tls_sendmsg_def tls_ksk_at_def Let_def)
    next
      case seq: None
      obtain err w1 where w1: "(if tc_mem_free C then Inr (0, w)
          else map_sum id (\<lambda>(err, w1). (err, upd_ksk a (\<lambda>k. k\<lparr>tk_nospace := True\<rparr>) w1))
                 (tls_wait_memory C a 0 w)) = Inr (err, w1)" "tls_ok w1" "conns_kept w w1"
      proof (cases "tc_mem_free C")
        case True
        then show thesis using that ok by simp
      next
        case False
        obtain err w1 where w1: "tls_wait_memory C a 0 w = Inr (err, w1)" "tls_ok w1" "conns_kept w w1"
          by (rule tls_wait_memory_safe [OF law(2) ok a])
        have "tls_ok (upd_ksk a (\<lambda>k. k\<lparr>tk_nospace := True\<rparr>) w1)" by (rule tls_ok_upd_frame [OF w1(2)]) simp
        then show thesis using that False w1 conns_kept_trans [OF w1(3) conns_kept_upd_ksk] by simp
      qed
      have a1: "tw_ksks w1 a \<noteq> None" by (rule conns_kept_live [OF w1(3) a])
      have run1: "(if err \<noteq> 0 then tls_out_error n C a ?eor None ?none err w1
          else if msg = [] then tls_send_start n C a flags None ?none w1
          else
            (case tls_alloc_head n C a 1 w1 of
               None \<Rightarrow> None
             | Some (Inl f) \<Rightarrow> Some (Inl f)
             | Some (Inr (err2, t, w2)) \<Rightarrow>
                 if err2 \<noteq> 0 then tls_out_error n C a ?eor None ?none err2 w2
                 else tls_send_start n C a flags (Some new_tls_msg) (tls_build_of k new_tls_msg msg t) w2)) = Some R"
        using run k e seq w1(1) by (simp add: tls_sendmsg_def tls_ksk_at_def Let_def)
      show ?thesis
      proof (cases "err = 0 \<and> msg \<noteq> []")
        case False
        show ?thesis
        proof (cases "err = 0")
          case zero: True
          show ?thesis by (rule safe_result_from [OF w1(3) start [OF w1(2) a1 new(1)]]) (use run1 False zero in simp)
        next
          case err: False
          show ?thesis by (rule safe_result_from [OF w1(3) out [OF w1(2) a1]]) (use run1 err in simp)
        qed
      next
        case True
        then obtain S where S: "tls_alloc_head n C a 1 w1 = Some S" using run1 by (cases "tls_alloc_head n C a 1 w1") simp_all
        from alloc_head_safe [OF law(2) w1(2) a1 S]
        obtain err2 t w2 where w2: "S = Inr (err2, t, w2)" "tls_ok w2" "conns_kept w1 w2" by blast
        have a2: "tw_ksks w2 a \<noteq> None" by (rule conns_kept_live [OF w2(3) a1])
        note kept = conns_kept_trans [OF w1(3) w2(3)]
        show ?thesis
        proof (cases "err2 = 0")
          case zero: True
          show ?thesis by (rule safe_result_from [OF kept start [OF w2(2) a2 new(2)]]) (use run1 True S w2(1) zero in simp_all)
        next
          case False
          show ?thesis by (rule safe_result_from [OF kept out [OF w2(2) a2]]) (use run1 True S w2(1) False in simp)
        qed
      qed
    qed
  qed
qed

end
