(* ===== verification/Tls_Conn.thy ===== *)
theory Tls_Conn
  imports Tls_Safe
begin

text \<open>
  What sending does to the connections, for any answers of the kernel: an interface for
  properties of connections that the two ways of touching one keep, the fate of a connection
  that was left in use, and what stays of an attached connection.
\<close>

section \<open>Steps of the send side\<close>

text \<open>Both bodies are commented out in the source but for a null check.\<close>

definition tls_tx_work :: "nat \<Rightarrow> tls_world \<Rightarrow> fault + tls_world" where
  "tls_tx_work p w = bind_fault (tls_psock_at w p) (\<lambda>ps. case tp_sk ps of None \<Rightarrow> Inr w | Some _ \<Rightarrow> Inr w)"

definition tls_psock_write_space :: "nat \<Rightarrow> tls_world \<Rightarrow> tls_world" where
  "tls_psock_write_space c w = w"

text \<open>
  Everything that can run once connections are attached: sending, the end of a splice, the
  write-space work and callback, and the receive side, of which only the parts of the state it
  may change are said: the state of a stream parser and the scheduler's.
\<close>

inductive tls_step :: "tls_world \<Rightarrow> tls_world \<Rightarrow> bool" where
  step_send: "tls_sendmsg n C a flags msg w = Some (Inr (r, w')) \<Longrightarrow> tls_step w w'"
| step_eof: "rakaia_splice_eof send a w = Inr w' \<Longrightarrow> tls_step w w'"
| step_work: "tls_tx_work p w = Inr w' \<Longrightarrow> tls_step w w'"
| step_space: "tls_step w (tls_psock_write_space c w)"
| step_parse: "tw_psocks w p = Some ps \<Longrightarrow> tls_step w (set_tls_psock p (ps\<lparr>tp_strp := s\<rparr>) w)"
| step_receive: "tls_step w (w\<lparr>tw_rk := rk\<rparr>)"

lemma write_to_csock_shape:
  assumes "write_to_csock send p w = Inr (r, w')" "tw_psocks w p = Some ps"
  obtains q ks calls out where
    "w' = upd_lower (tp_sk ps) (\<lambda>l. l\<lparr>tl_out := tl_out l @ out\<rparr>)
            (set_tls_psock p (ps\<lparr>tp_tx_wait_queue := q\<rparr>) (w\<lparr>tw_calls := calls, tw_ksks := ks\<rparr>))"
  using assms by (auto simp: write_to_csock_def tls_psock_at_def bind_fault_Inr)

locale conn_inv =
  fixes I :: "tls_world \<Rightarrow> bool"
  assumes ksk: "I w \<Longrightarrow> I (w\<lparr>tw_ksks := ks\<rparr>)"
    and rk: "I w \<Longrightarrow> I (w\<lparr>tw_rk := rkd\<rparr>)"
    and calls: "I w \<Longrightarrow> I (w\<lparr>tw_calls := n\<rparr>)"
    and strp: "I w \<Longrightarrow> tw_psocks w p = Some ps \<Longrightarrow> I (set_tls_psock p (ps\<lparr>tp_strp := s\<rparr>) w)"
    and busy: "I w \<Longrightarrow> tw_psocks w p = Some ps \<Longrightarrow> tp_tx_in_use ps \<Longrightarrow>
      I (set_tls_psock p (ps\<lparr>tp_tx_wait_queue := q\<rparr>) w)"
    and idle: "I w \<Longrightarrow> tw_psocks w p = Some ps \<Longrightarrow> \<not> tp_tx_in_use ps \<Longrightarrow>
      I (upd_lower (tp_sk ps) (\<lambda>l. l\<lparr>tl_out := tl_out l @ out\<rparr>)
           (set_tls_psock p (ps\<lparr>tp_tx_in_use := b, tp_tx_wait_queue := q\<rparr>) w))"
begin

lemma upd_ksk_keeps: "I w \<Longrightarrow> I (upd_ksk a f w)"
  by (simp add: upd_ksk_def ksk)

lemma write_out_keeps: "write_msgs_out a t r w = Inr (r', w') \<Longrightarrow> I w \<Longrightarrow> I w'"
  by (auto simp: write_msgs_out_def tls_write_space_def upd_ksk_keeps)

lemma write_one_keeps:
  assumes I: "I w" and ps: "tw_psocks w p = Some ps" "\<not> tp_tx_in_use ps"
    and run: "write_to_csock send p (set_in_use p True (set_tls_psock p (ps\<lparr>tp_tx_wait_queue := q0\<rparr>) w)) = Inr (r, w')"
  shows "I (set_in_use p b w')"
proof -
  have "tw_psocks (set_in_use p True (set_tls_psock p (ps\<lparr>tp_tx_wait_queue := q0\<rparr>) w)) p =
      Some (ps\<lparr>tp_tx_in_use := True, tp_tx_wait_queue := q0\<rparr>)"
    by (simp add: set_in_use_def set_tls_psock_def)
  with run obtain q ks n out where "w' = upd_lower (tp_sk (ps\<lparr>tp_tx_in_use := True, tp_tx_wait_queue := q0\<rparr>))
     (\<lambda>l. l\<lparr>tl_out := tl_out l @ out\<rparr>)
     (set_tls_psock p (ps\<lparr>tp_tx_in_use := True, tp_tx_wait_queue := q0, tp_tx_wait_queue := q\<rparr>)
        (set_in_use p True (set_tls_psock p (ps\<lparr>tp_tx_wait_queue := q0\<rparr>) w)\<lparr>tw_calls := n, tw_ksks := ks\<rparr>))"
    by (rule write_to_csock_shape)
  then have w': "w' = upd_lower (tp_sk ps) (\<lambda>l. l\<lparr>tl_out := tl_out l @ out\<rparr>)
     (set_tls_psock p (ps\<lparr>tp_tx_in_use := True, tp_tx_wait_queue := q\<rparr>)
        (set_in_use p True (set_tls_psock p (ps\<lparr>tp_tx_wait_queue := q0\<rparr>) w)\<lparr>tw_calls := n, tw_ksks := ks\<rparr>))"
    by simp
  have "set_in_use p b w' = upd_lower (tp_sk ps) (\<lambda>l. l\<lparr>tl_out := tl_out l @ out\<rparr>)
     (set_tls_psock p (ps\<lparr>tp_tx_in_use := b, tp_tx_wait_queue := q\<rparr>) (w\<lparr>tw_calls := n, tw_ksks := ks\<rparr>))"
    unfolding w'
    by (cases "tp_sk ps"; rule tls_world.equality)
       (simp_all add: set_in_use_def set_tls_psock_def upd_lower_def psock_upd_comm)
  moreover have "I (w\<lparr>tw_calls := n, tw_ksks := ks\<rparr>)" using I calls ksk by simp
  ultimately show ?thesis using idle [of "w\<lparr>tw_calls := n, tw_ksks := ks\<rparr>" p ps] ps by simp
qed

lemma write_loop_keeps:
  "write_msgs_loop send a q t r w = Inr (r', w') \<Longrightarrow> I w \<Longrightarrow> I w'"
proof (induction q arbitrary: t r w)
  case Nil
  then show ?case using write_out_keeps by simp
next
  case (Cons m q)
  let ?w1 = "upd_ksk a (\<lambda>k. k\<lparr>tk_write_queue := q\<rparr>) w"
  have I1: "I ?w1" by (rule upd_ksk_keeps [OF Cons.prems(2)])
  show ?case
  proof (cases "tm_psock m")
    case None
    then show ?thesis using Cons.prems(1) I1 by simp
  next
    case (Some p)
    obtain ps where ps: "tw_psocks ?w1 p = Some ps"
      using Cons.prems(1) Some by (cases "tw_psocks ?w1 p") (simp_all add: tls_psock_at_def)
    let ?ps = "ps\<lparr>tp_tx_wait_queue := tp_tx_wait_queue ps @ [m]\<rparr>"
    have at: "tls_psock_at ?w1 p = Inr ps" using ps by (simp add: tls_psock_at_def)
    show ?thesis
    proof (cases "tp_tx_in_use ps")
      case True
      then have "write_msgs_loop send a q t r (set_tls_psock p ?ps ?w1) = Inr (r', w')"
        using Cons.prems(1) Some at by simp
      from Cons.IH [OF this busy [OF I1 ps True]] show ?thesis .
    next
      case False
      then obtain r1 w3 where w3: "write_to_csock send p (set_in_use p True (set_tls_psock p ?ps ?w1)) = Inr (r1, w3)"
        and run: "(if r1 \<le> 0 then write_msgs_out a t r1 (set_in_use p True w3)
          else write_msgs_loop send a q (t + word_of_int r1) r1 (set_in_use p False w3)) = Inr (r', w')"
        using Cons.prems(1) Some at by (auto simp: bind_fault_Inr)
      note I3 = write_one_keeps [OF I1 ps False w3]
      show ?thesis
      proof (cases "r1 \<le> 0")
        case True
        show ?thesis by (rule write_out_keeps [OF _ I3]) (use run True in simp)
      next
        case False
        show ?thesis by (rule Cons.IH [OF _ I3]) (use run False in simp)
      qed
    qed
  qed
qed

lemma write_msgs_keeps: "rakaia_write_msgs send a w = Inr (r, w') \<Longrightarrow> I w \<Longrightarrow> I w'"
  unfolding rakaia_write_msgs_def bind_fault_Inr using write_loop_keeps upd_ksk_keeps by blast

lemma push_keeps:
  assumes "tls_push send a w = Inr w'" "I w"
  shows "I w'"
proof -
  obtain k where k: "tls_ksk_at w a = Inr k" using assms(1) by (auto simp: tls_push_def bind_fault_Inr)
  show ?thesis
  proof (cases "tk_wait_more k")
    case True
    then obtain r where "rakaia_write_msgs send a w = Inr (r, w')"
      using assms(1) k by (cases "rakaia_write_msgs send a w") (auto simp: tls_push_def)
    from write_msgs_keeps [OF this assms(2)] show ?thesis .
  next
    case False
    then show ?thesis using assms k by (simp add: tls_push_def)
  qed
qed

lemma wait_keeps:
  assumes "tls_wait_memory C a t w = Inr (err, w')" "I w"
  shows "I w'"
proof -
  have "tls_push (tc_send C) a w = Inr w'"
    using assms(1) by (cases "tls_push (tc_send C) a w") (simp_all add: tls_wait_memory_def)
  from push_keeps [OF this assms(2)] show ?thesis .
qed

lemma copy_loop_keeps:
  "tls_copy_loop n C flags a s w = Some (Inr (err, s', w')) \<Longrightarrow> I w \<Longrightarrow> I w'"
proof (induction n arbitrary: s w)
  case 0
  then show ?case by simp
next
  case (Suc n)
  show ?case
  proof (cases "tb_left s = []")
    case True
    then show ?thesis using Suc.prems by simp
  next
    case left: False
    obtain e s1 where it: "tls_copy_iter C flags s = (e, s1)" by (cases "tls_copy_iter C flags s")
    show ?thesis
    proof (cases e)
      case (CopyNext k)
      show ?thesis
        by (rule Suc.IH [OF _ upd_ksk_keeps [OF Suc.prems(2)]]) (use Suc.prems(1) left it CopyNext in simp)
    next
      case (CopyError r)
      then show ?thesis using Suc.prems left it by simp
    next
      case CopyWait
      obtain r w1 where w1: "tls_wait_memory C a (tb_tick s1) w = Inr (r, w1)"
        using Suc.prems(1) left it CopyWait by (cases "tls_wait_memory C a (tb_tick s1) w") auto
      note I1 = wait_keeps [OF w1 Suc.prems(2)]
      show ?thesis
      proof (cases "r = 0")
        case True
        show ?thesis by (rule Suc.IH [OF _ I1]) (use Suc.prems(1) left it CopyWait w1 True in simp)
      next
        case False
        then show ?thesis using Suc.prems(1) left it CopyWait w1 I1 by simp
      qed
    qed
  qed
qed

lemma alloc_head_keeps:
  "tls_alloc_head n C a t w = Some (Inr (err, t', w')) \<Longrightarrow> I w \<Longrightarrow> I w'"
proof (induction n arbitrary: t w)
  case 0
  then show ?case by simp
next
  case (Suc n)
  show ?case
  proof (cases "tc_alloc C t")
    case True
    then show ?thesis using Suc.prems by simp
  next
    case False
    obtain r w1 where w1: "tls_wait_memory C a t w = Inr (r, w1)"
      using Suc.prems(1) False by (cases "tls_wait_memory C a t w") auto
    note I1 = wait_keeps [OF w1 Suc.prems(2)]
    show ?thesis
    proof (cases "r = 0")
      case True
      show ?thesis by (rule Suc.IH [OF _ I1]) (use Suc.prems(1) False w1 True in simp)
    next
      case r: False
      then show ?thesis using Suc.prems(1) False w1 I1 by simp
    qed
  qed
qed

lemma pull_keeps:
  assumes "tls_pull n C a eor ret w = Some (Inr (r, w'))" "I w"
  shows "I w'"
proof (cases eor)
  case False
  then show ?thesis using assms by (simp add: tls_pull_def)
next
  case True
  then obtain S :: "fault + int \<times> rakaia" where S: "map_sum id (\<lambda>(_, rk). (ret, w\<lparr>tw_rk := rk\<rparr>)) S = Inr (r, w')"
    using assms(1) by (auto simp: tls_pull_def)
  then show ?thesis using rk [OF assms(2)] by (cases S) auto
qed

lemma partial_keeps: "I w \<Longrightarrow> I (tls_partial a head s w)"
  by (simp add: tls_partial_def upd_ksk_keeps split: option.split)

lemma out_error_keeps:
  assumes "tls_out_error n C a eor head s err w = Some (Inr (r, w'))" "I w"
  shows "I w'"
proof -
  obtain k w1 where w1: "tls_push (tc_send C) a w = Inr w1" "tls_ksk_at w1 a = Inr k"
    using assms(1) by (cases "tls_push (tc_send C) a w"; cases "tls_ksk_at (projr (tls_push (tc_send C) a w)) a")
      (auto simp: tls_out_error_def)
  note I1 = push_keeps [OF w1(1) assms(2)]
  show ?thesis
  proof (cases "tk_type k = SOCK_SEQPACKET \<and> tb_copied s \<noteq> 0")
    case True
    show ?thesis by (rule pull_keeps [OF _ partial_keeps [OF I1]]) (use assms(1) w1 True in \<open>simp add: tls_out_error_def\<close>)
  next
    case False
    then show ?thesis using assms(1) w1 I1
      by (auto simp: tls_out_error_def Let_def tls_write_space_def upd_ksk_keeps simp del: upd_ksk_twice)
  qed
qed

lemma complete_keeps:
  assumes "tls_complete C a flags head s w = Inr w'" "I w"
  shows "I w'"
proof -
  obtain k w1 where k: "tls_ksk_at w a = Inr k"
    and w1: "(case head of None \<Rightarrow> Inr w | Some m \<Rightarrow>
        map_sum id (\<lambda>rs. upd_ksk a (\<lambda>k. k\<lparr>tk_write_queue := tk_write_queue k @
           [m\<lparr>tm_bufs := tb_bufs s, tm_ksk := Some a, tm_psock := k_last_psock rs\<rparr>], tk_seq_skb := None\<rparr>) w)
          (deref (tw_rk w) a)) = Inr w1"
    and run: "(if flags AND MSG_BATCH \<noteq> 0 then Inr (upd_ksk a (\<lambda>k. k\<lparr>tk_wait_more := True\<rparr>) w1)
            else if tk_wait_more k \<or> tk_write_queue k = []
            then map_sum id (\<lambda>(_, w2). w2) (rakaia_write_msgs (tc_send C) a w1)
            else Inr w1) = Inr w'"
    using assms(1) unfolding tls_complete_def bind_fault_Inr by blast
  have I1: "I w1"
  proof (cases head)
    case None
    then show ?thesis using w1 assms(2) by simp
  next
    case (Some m)
    then show ?thesis using w1 upd_ksk_keeps [OF assms(2)] by (cases "deref (tw_rk w) a") auto
  qed
  consider "w' = upd_ksk a (\<lambda>k. k\<lparr>tk_wait_more := True\<rparr>) w1"
    | r where "rakaia_write_msgs (tc_send C) a w1 = Inr (r, w')" | "w' = w1"
    using run by (cases "rakaia_write_msgs (tc_send C) a w1") (auto split: if_splits)
  then show ?thesis using I1 upd_ksk_keeps write_msgs_keeps by cases blast+
qed

lemma send_start_keeps:
  assumes "tls_send_start n C a flags head s w = Some (Inr (r, w'))" "I w"
  shows "I w'"
proof -
  obtain k where k: "tls_ksk_at w a = Inr k"
    using assms(1) by (cases "tls_ksk_at w a") (simp_all add: tls_send_start_def)
  let ?eor = "tls_eor (tk_type k) flags"
  obtain err s1 w1 where c: "tls_copy_loop n C flags a s w = Some (Inr (err, s1, w1))"
    using assms(1) k by (auto simp: tls_send_start_def Let_def split: option.splits sum.splits)
  let ?w = "upd_ksk a (\<lambda>k. k\<lparr>tk_pfrag := tb_pfrag s1\<rparr>) w1"
  have I2: "I ?w" by (rule upd_ksk_keeps [OF copy_loop_keeps [OF c assms(2)]])
  have run: "(if err \<noteq> 0 then tls_out_error n C a ?eor head s1 err ?w
      else if ?eor
      then (case tls_complete C a flags head s1 ?w of
              Inl f \<Rightarrow> Some (Inl f) | Inr w3 \<Rightarrow> tls_pull n C a ?eor (int (tb_copied s1)) w3)
      else Some (Inr (int (tb_copied s1), tls_partial a head s1 ?w))) = Some (Inr (r, w'))"
    using assms(1) k c by (simp add: tls_send_start_def Let_def)
  consider (err) "err \<noteq> 0" | (eor) "err = 0" ?eor | (more) "err = 0" "\<not> ?eor" by blast
  then show ?thesis
  proof cases
    case err
    show ?thesis by (rule out_error_keeps [OF _ I2]) (use run err in simp)
  next
    case eor
    obtain w3 where w3: "tls_complete C a flags head s1 ?w = Inr w3"
      using run eor by (cases "tls_complete C a flags head s1 ?w") simp_all
    show ?thesis by (rule pull_keeps [OF _ complete_keeps [OF w3 I2]]) (use run eor w3 in simp)
  next
    case more
    then show ?thesis using run partial_keeps [OF I2] by auto
  qed
qed

lemma sendmsg_keeps:
  assumes "tls_sendmsg n C a flags msg w = Some (Inr (r, w'))" "I w"
  shows "I w'"
proof -
  obtain k where k: "tls_ksk_at w a = Inr k"
    using assms(1) by (cases "tls_ksk_at w a") (simp_all add: tls_sendmsg_def)
  let ?eor = "tls_eor (tk_type k) flags" and ?none = "tls_build_of k new_tls_msg msg 0"
  show ?thesis
  proof (cases "tk_err k = 0")
    case False
    show ?thesis by (rule out_error_keeps [OF _ assms(2)]) (use assms(1) k False in \<open>simp add: tls_sendmsg_def Let_def\<close>)
  next
    case e: True
    show ?thesis
    proof (cases "tk_seq_skb k")
      case (Some m)
      show ?thesis
        by (rule send_start_keeps [OF _ assms(2)]) (use assms(1) k e Some in \<open>simp add: tls_sendmsg_def Let_def\<close>)
    next
      case seq: None
      let ?first = "if tc_mem_free C then Inr (0, w)
          else map_sum id (\<lambda>(err, w1). (err, upd_ksk a (\<lambda>k. k\<lparr>tk_nospace := True\<rparr>) w1)) (tls_wait_memory C a 0 w)"
      obtain err w1 where w1: "?first = Inr (err, w1)"
        using assms(1) k e seq by (cases ?first) (auto simp: tls_sendmsg_def Let_def)
      have I1: "I w1"
      proof (cases "tc_mem_free C")
        case True
        then show ?thesis using w1 assms(2) by simp
      next
        case False
        then obtain w0 where "tls_wait_memory C a 0 w = Inr (err, w0)" "w1 = upd_ksk a (\<lambda>k. k\<lparr>tk_nospace := True\<rparr>) w0"
          using w1 by (cases "tls_wait_memory C a 0 w") auto
        then show ?thesis using upd_ksk_keeps [OF wait_keeps [OF _ assms(2)]] by simp
      qed
      have run1: "(if err \<noteq> 0 then tls_out_error n C a ?eor None ?none err w1
          else if msg = [] then tls_send_start n C a flags None ?none w1
          else
            (case tls_alloc_head n C a 1 w1 of
               None \<Rightarrow> None
             | Some (Inl f) \<Rightarrow> Some (Inl f)
             | Some (Inr (err2, t, w2)) \<Rightarrow>
                 if err2 \<noteq> 0 then tls_out_error n C a ?eor None ?none err2 w2
                 else tls_send_start n C a flags (Some new_tls_msg) (tls_build_of k new_tls_msg msg t) w2)) = Some (Inr (r, w'))"
        using assms(1) k e seq w1 by (simp add: tls_sendmsg_def Let_def)
      consider (err) "err \<noteq> 0" | (empty) "err = 0" "msg = []" | (new) "err = 0" "msg \<noteq> []" by blast
      then show ?thesis
      proof cases
        case err
        show ?thesis by (rule out_error_keeps [OF _ I1]) (use run1 err in simp)
      next
        case empty
        show ?thesis by (rule send_start_keeps [OF _ I1]) (use run1 empty in simp)
      next
        case new
        then obtain err2 t w2 where w2: "tls_alloc_head n C a 1 w1 = Some (Inr (err2, t, w2))"
          using run1 by (auto split: option.splits sum.splits)
        note I2 = alloc_head_keeps [OF w2 I1]
        show ?thesis
        proof (cases "err2 = 0")
          case True
          show ?thesis by (rule send_start_keeps [OF _ I2]) (use run1 new w2 True in simp)
        next
          case False
          show ?thesis by (rule out_error_keeps [OF _ I2]) (use run1 new w2 False in simp)
        qed
      qed
    qed
  qed
qed

lemma eof_keeps:
  assumes "rakaia_splice_eof send a w = Inr w'" "I w"
  shows "I w'"
proof -
  obtain k where k: "tls_ksk_at w a = Inr k" using assms(1) by (auto simp: rakaia_splice_eof_def bind_fault_Inr)
  show ?thesis
  proof (cases "tk_write_queue k = []")
    case True
    then show ?thesis using assms k by (simp add: rakaia_splice_eof_def)
  next
    case False
    then obtain r where "rakaia_write_msgs send a w = Inr (r, w')"
      using assms(1) k by (cases "rakaia_write_msgs send a w") (auto simp: rakaia_splice_eof_def)
    from write_msgs_keeps [OF this assms(2)] show ?thesis .
  qed
qed

lemma step_keeps: "tls_step w w' \<Longrightarrow> I w \<Longrightarrow> I w'"
  by (induction rule: tls_step.induct)
     (auto simp: tls_tx_work_def tls_psock_write_space_def bind_fault_Inr split: option.splits
       intro: sendmsg_keeps eof_keeps strp rk)

lemma run_keeps: "tls_step\<^sup>*\<^sup>* w w' \<Longrightarrow> I w \<Longrightarrow> I w'"
  by (induction rule: rtranclp_induct) (auto intro: step_keeps)

end

section \<open>A connection that is left in use\<close>

text \<open>Connection \<open>p\<close> is in use, alone on its lower socket \<open>c\<close>, which has taken \<open>out\<close>.\<close>

definition frozen :: "nat \<Rightarrow> nat \<Rightarrow> bytes \<Rightarrow> tls_world \<Rightarrow> bool" where
  "frozen p c out w \<longleftrightarrow>
     (\<exists>ps. tw_psocks w p = Some ps \<and> tp_tx_in_use ps \<and> tp_sk ps = Some c) \<and>
     map_option tl_out (tw_lower w c) = Some out \<and>
     (\<forall>p' ps'. p' \<noteq> p \<longrightarrow> tw_psocks w p' = Some ps' \<longrightarrow> tp_sk ps' \<noteq> Some c)"

interpretation frz: conn_inv "frozen p c out" for p c out
proof
  fix w q ps s assume "frozen p c out w" "tw_psocks w q = Some ps"
  then show "frozen p c out (set_tls_psock q (ps\<lparr>tp_strp := s\<rparr>) w)"
    by (cases "q = p") (auto simp: frozen_def set_tls_psock_def)
next
  fix w q ps qs assume f: "frozen p c out w" and q: "tw_psocks w q = Some ps" "tp_tx_in_use ps"
  then show "frozen p c out (set_tls_psock q (ps\<lparr>tp_tx_wait_queue := qs\<rparr>) w)"
    by (cases "q = p") (auto simp: frozen_def set_tls_psock_def)
next
  fix w q ps out' b qs assume f: "frozen p c out w" and q: "tw_psocks w q = Some ps" "\<not> tp_tx_in_use ps"
  then have "q \<noteq> p" by (auto simp: frozen_def)
  then have "tp_sk ps \<noteq> Some c" using f q(1) by (simp add: frozen_def)
  then show "frozen p c out (upd_lower (tp_sk ps) (\<lambda>l. l\<lparr>tl_out := tl_out l @ out'\<rparr>)
      (set_tls_psock q (ps\<lparr>tp_tx_in_use := b, tp_tx_wait_queue := qs\<rparr>) w))"
    using f q \<open>q \<noteq> p\<close> by (auto simp: frozen_def set_tls_psock_def upd_lower_def split: option.split)
qed (simp_all add: frozen_def)

section \<open>What stays of an attached connection\<close>

text \<open>The fields of a connection that only attaching sets.\<close>

definition conn_static :: "tls_psock \<Rightarrow> tls_psock" where
  "conn_static ps = ps\<lparr>tp_strp := zero_strp None, tp_tx_in_use := False, tp_tx_wait_queue := []\<rparr>"

definition wired :: "nat \<Rightarrow> tls_psock \<Rightarrow> nat \<Rightarrow> tls_lower \<Rightarrow> tls_world \<Rightarrow> bool" where
  "wired p ps c l w \<longleftrightarrow> map_option conn_static (tw_psocks w p) = Some (conn_static ps) \<and>
     map_option (\<lambda>l. l\<lparr>tl_out := []\<rparr>) (tw_lower w c) = Some (l\<lparr>tl_out := []\<rparr>)"

lemma wired_psock:
  assumes "wired p ps0 c l w" "tw_psocks w q = Some ps" "conn_static ps' = conn_static ps"
  shows "wired p ps0 c l (set_tls_psock q ps' w)"
  using assms by (auto simp: wired_def set_tls_psock_def)

lemma wired_lower:
  assumes "wired p ps0 c l w"
  shows "wired p ps0 c l (upd_lower d (\<lambda>l. l\<lparr>tl_out := tl_out l @ out\<rparr>) w)"
  using assms by (cases d) (auto simp: wired_def upd_lower_def option.map_comp comp_def)

lemma conn_static_upd [simp]:
  "conn_static (ps\<lparr>tp_strp := s\<rparr>) = conn_static ps" "conn_static (ps\<lparr>tp_tx_wait_queue := q\<rparr>) = conn_static ps"
  "conn_static (ps\<lparr>tp_tx_in_use := b\<rparr>) = conn_static ps"
  by (simp_all add: conn_static_def)

interpretation wire: conn_inv "wired p ps c l" for p ps c l
proof
  fix w q psq s assume "wired p ps c l w" "tw_psocks w q = Some psq"
  then show "wired p ps c l (set_tls_psock q (psq\<lparr>tp_strp := s\<rparr>) w)" by (rule wired_psock) simp
next
  fix w q psq qs assume "wired p ps c l w" "tw_psocks w q = Some psq"
  then show "wired p ps c l (set_tls_psock q (psq\<lparr>tp_tx_wait_queue := qs\<rparr>) w)" by (rule wired_psock) simp
next
  fix w q psq b qs and out :: bytes assume "wired p ps c l w" "tw_psocks w q = Some psq"
  then have "wired p ps c l (set_tls_psock q (psq\<lparr>tp_tx_in_use := b, tp_tx_wait_queue := qs\<rparr>) w)"
    by (rule wired_psock) simp
  from wired_lower [OF this]
  show "wired p ps c l (upd_lower (tp_sk psq) (\<lambda>l. l\<lparr>tl_out := tl_out l @ out\<rparr>)
      (set_tls_psock q (psq\<lparr>tp_tx_in_use := b, tp_tx_wait_queue := qs\<rparr>) w))" .
qed (simp_all add: wired_def)

end
