(* ===== verification/Tls_Recv.thy ===== *)
theory Tls_Recv
  imports Memcached
begin

text \<open>
  The receive path of the TLS variant. Its stream parser (\<open>src/rakaia/tls/strparser.c\<close>) is the
  plain one but for two functions: \<open>strp_peek_len\<close> is constantly 0 and \<open>strp_data_ready\<close> always
  defers to the work queue. Its parse callback refuses a header that is not complete, where
  the plain one asks for more.
\<close>

section \<open>What differs\<close>

definition tls_parse_func :: "'a sk_buff_scheme \<Rightarrow> int" where
  "tls_parse_func skb =
     (case skb_header_pointer skb (cb_int (sb_cb0 skb)) sizeof_binary_header of
        None \<Rightarrow> - EINVAL
      | Some hdr \<Rightarrow> mc_total_len (read_binary_header hdr))"

definition tls_hooks :: "('a sk_buff_scheme \<Rightarrow> 'u \<Rightarrow> 'u) \<Rightarrow> ('a, 'u) strp_hooks" where
  "tls_hooks rcv = (plain_hooks rcv)\<lparr>h_parse := strp_call_parse tls_parse_func\<rparr>"

definition tls_kernel :: "'a strp_kernel \<Rightarrow> 'a strp_kernel" where
  "tls_kernel K = K\<lparr>k_peek := (\<lambda>_. 0)\<rparr>"

definition tls_strp_recv ::
  "('a sk_buff_scheme \<Rightarrow> 'u \<Rightarrow> 'u) \<Rightarrow> 'a strp_kernel \<Rightarrow> int \<Rightarrow> int \<Rightarrow> ('a, 'u) rx \<Rightarrow> 'a sk_buff_scheme \<Rightarrow>
     nat \<Rightarrow> int \<Rightarrow> (('a, 'u) rx \<times> int) option" where
  "tls_strp_recv rcv K = strp_recv_desc (tls_hooks rcv) (tls_kernel K)"

definition tls_strp_data_ready :: "'a strparser \<Rightarrow> 'a strparser" where
  "tls_strp_data_ready s = (if sp_stopped s \<or> sp_paused s then s else s\<lparr>sp_work := True\<rparr>)"

section \<open>Where the two parsers part\<close>

text \<open>A message in progress whose header is not complete.\<close>

definition short_head :: "'a strparser \<Rightarrow> bool" where
  "short_head s \<longleftrightarrow>
     (\<exists>h. sp_head s = Some h \<and> sb_full_len h = 0 \<and> skb_header_pointer h (sb_offset h) 28 = None)"

definition refused :: "('a, 'u) rx \<Rightarrow> ('a, 'u) rx \<Rightarrow> bool" where
  "refused t r \<longleftrightarrow>
     rx_up t = rx_up r \<and> sp_head (rx_strp t) = None \<and> sp_stopped (rx_strp t) \<and> rx_error t = - EINVAL"

fun step_rel :: "('a, 'u) strp_step \<Rightarrow> ('a, 'u) strp_step \<Rightarrow> bool" where
  "step_rel (Stop r e) (Stop t e') =
     (if short_head (rx_strp r) then refused t r else t = r \<and> e' = e)"
| "step_rel (Again r e) (Again t e') = (\<not> short_head (rx_strp r) \<and> t = r \<and> e' = e)"
| "step_rel _ _ = False"

lemma hooks_sel [simp]:
  "h_deliver (tls_hooks rcv) = h_deliver (plain_hooks rcv)" "h_clear (tls_hooks rcv) = h_clear (plain_hooks rcv)"
  "h_abort (tls_hooks rcv) = h_abort (plain_hooks rcv)"
  by (simp_all add: tls_hooks_def)

lemma complete_same [simp]:
  "strp_complete (tls_hooks rcv) = strp_complete (plain_hooks rcv)"
  by (intro ext) (unfold strp_complete_def hooks_sel, rule refl)

lemma attach_same [simp]: "strp_attach (tls_hooks rcv) = strp_attach (plain_hooks rcv)"
  by (intro ext) (unfold strp_attach_def hooks_sel, rule refl)

text \<open>A message whose length is known is never short again.\<close>

lemma complete_rel:
  assumes "sb_full_len h \<noteq> 0"
  shows "step_rel (strp_complete (plain_hooks rcv) peek timeo r h cand eaten)
                  (strp_complete (plain_hooks rcv) peek timeo r h cand eaten)"
  using assms
  by (auto simp: strp_complete_def Let_def short_head_def strp_set_head_def strp_bump_def strp_msg_timer_def
      strp_start_timer_def)

lemma parse_both:
  fixes h :: "'a sk_buff_scheme" and rcv :: "'a sk_buff_scheme \<Rightarrow> 'u \<Rightarrow> 'u"
  defines "g \<equiv> h\<lparr>sb_cb0 := CbOffset (sb_offset h)\<rparr>"
  shows "skb_header_pointer h (sb_offset h) 28 = None \<Longrightarrow>
      h_parse (plain_hooks rcv) h = (g, 0) \<and> h_parse (tls_hooks rcv) h = (g, - EINVAL)"
    and "skb_header_pointer h (sb_offset h) 28 \<noteq> None \<Longrightarrow>
      h_parse (tls_hooks rcv) h = h_parse (plain_hooks rcv) h \<and> fst (h_parse (plain_hooks rcv) h) = g"
proof -
  have g: "skb_header_pointer g (cb_int (sb_cb0 g)) 28 = skb_header_pointer h (sb_offset h) 28"
    by (simp add: g_def cb_int_def skb_header_pointer_def)
  show "skb_header_pointer h (sb_offset h) 28 = None \<Longrightarrow>
      h_parse (plain_hooks rcv) h = (g, 0) \<and> h_parse (tls_hooks rcv) h = (g, - EINVAL)"
    and "skb_header_pointer h (sb_offset h) 28 \<noteq> None \<Longrightarrow>
      h_parse (tls_hooks rcv) h = h_parse (plain_hooks rcv) h \<and> fst (h_parse (plain_hooks rcv) h) = g"
    using g
    by (auto simp: tls_hooks_def plain_hooks_def strp_call_parse_def Let_def g_def [symmetric]
        rakaia_parse_func_strparser_def tls_parse_func_def)
qed

definition after_attach ::
  "('a, 'u) strp_hooks \<Rightarrow> int \<Rightarrow> int \<Rightarrow> int \<Rightarrow> ('a, 'u) rx \<Rightarrow> 'a sk_buff_scheme \<Rightarrow> 'a sk_buff_scheme \<Rightarrow> int \<Rightarrow> int \<Rightarrow>
     ('a, 'u) strp_step" where
  "after_attach H peek mx timeo r h skb cand eaten =
     (case strp_length H mx timeo r h skb cand of
        Inl (r2, n) \<Rightarrow> Stop r2 (eaten + n)
      | Inr (r2, h2) \<Rightarrow> strp_complete H peek timeo r2 h2 cand eaten)"

lemma after_attach_rel:
  fixes r :: "('a, 'u) rx" and rcv :: "'a sk_buff_scheme \<Rightarrow> 'u \<Rightarrow> 'u"
  shows "step_rel (after_attach (plain_hooks rcv) peek mx timeo r h skb cand eaten)
            (after_attach (tls_hooks rcv) peek mx timeo r h skb cand eaten)"
proof (cases "sb_full_len h = 0")
  case False
  then show ?thesis using complete_rel [OF False] by (simp add: after_attach_def strp_length_def)
next
  case full: True
  let ?g = "h\<lparr>sb_cb0 := CbOffset (sb_offset h)\<rparr>"
  have hp: "skb_header_pointer (?g\<lparr>sb_accum_len := x\<rparr>) (sb_offset h) 28 = skb_header_pointer h (sb_offset h) 28" for x
    by (simp add: skb_header_pointer_def)
  have ab: "h_abort (plain_hooks rcv) = strp_abort_strp" by (simp add: plain_hooks_def)
  show ?thesis
  proof (cases "skb_header_pointer h (sb_offset h) 28 = None")
    case True
    then have "after_attach (plain_hooks rcv) peek mx timeo r h skb cand eaten =
        Stop (strp_bump (\<lambda>st. st\<lparr>ss_need_more_hdr := ss_need_more_hdr st + 1\<rparr>)
          (strp_set_head (Some (?g\<lparr>sb_accum_len := sb_accum_len h + cand\<rparr>)) (strp_msg_timer ?g timeo r))) (eaten + cand)"
      using full parse_both(1) [OF True, of rcv] by (simp add: after_attach_def strp_length_def)
    moreover have "after_attach (tls_hooks rcv) peek mx timeo r h skb cand eaten =
        Stop (strp_parser_err (tls_hooks rcv) (r\<lparr>rx_strp := (rx_strp r)\<lparr>sp_interrupted := True\<rparr>\<rparr>) (- EINVAL)) eaten"
      using full parse_both(1) [OF True, of rcv] by (simp add: after_attach_def strp_length_def)
    ultimately show ?thesis
      using True full hp
      by (auto simp: short_head_def refused_def strp_bump_def strp_set_head_def strp_msg_timer_def
          strp_start_timer_def strp_parser_err_def ab strp_abort_strp_def Let_def)
  next
    case False
    obtain n where n: "h_parse (plain_hooks rcv) h = (?g, n)" "h_parse (tls_hooks rcv) h = (?g, n)"
      using parse_both(2) [OF False, of rcv] by (cases "h_parse (plain_hooks rcv) h") auto
    have err: "strp_parser_err (tls_hooks rcv) = strp_parser_err (plain_hooks rcv)"
      by (intro ext) (simp add: strp_parser_err_def)
    have nh: "\<not> short_head (rx_strp (strp_parser_err (plain_hooks rcv) r' e))" for r' :: "('a, 'u) rx" and e
      by (simp add: short_head_def strp_parser_err_def ab strp_abort_strp_def Let_def)
    have wait: "\<not> short_head (rx_strp (strp_bump f (strp_set_head (Some (?g\<lparr>sb_accum_len := x\<rparr>)) r')))" for f x and r' :: "('a, 'u) rx"
      using False hp by (auto simp: short_head_def strp_bump_def strp_set_head_def)
    show ?thesis
      using n full nh wait complete_rel [of "?g\<lparr>sb_full_len := n\<rparr>"]
      by (auto simp: after_attach_def strp_length_def err Let_def)
  qed
qed

lemma round_rel:
  assumes "\<not> short_head (rx_strp r)"
  shows "step_rel (strp_round (plain_hooks rcv) K mx timeo orig off L i eaten r)
                  (strp_round (tls_hooks rcv) K mx timeo orig off L i eaten r)"
proof (cases "k_clone K i orig")
  case None
  have "short_head (rx_strp (mem_fail r (- ENOMEM))) = short_head (rx_strp r)"
    by (simp add: short_head_def mem_fail_def)
  then show ?thesis using assms None by (simp add: strp_round_def)
next
  case (Some skb)
  show ?thesis
  proof (cases "strp_attach (plain_hooks rcv) K i r skb off eaten")
    case (Inl r1)
    then have "sp_head (rx_strp r1) = sp_head (rx_strp r)"
      by (auto simp: strp_attach_def mem_fail_def Let_def split: option.splits if_splits)
    then have "\<not> short_head (rx_strp r1)" using assms by (simp add: short_head_def)
    then show ?thesis using Some Inl by (simp add: strp_round_def)
  next
    case (Inr p)
    then show ?thesis using Some after_attach_rel [of rcv "k_peek K i" mx timeo "fst p" "snd p" skb "L - eaten" eaten]
      by (cases p) (simp add: strp_round_def after_attach_def Let_def)
  qed
qed

lemma loop_rel:
  "\<not> short_head (rx_strp r) \<Longrightarrow> strp_loop n (plain_hooks rcv) K mx timeo orig off L i eaten r = Some (r', e) \<Longrightarrow>
   \<exists>t e'. strp_loop n (tls_hooks rcv) K mx timeo orig off L i eaten r = Some (t, e') \<and>
     (if short_head (rx_strp r') then refused t r' else t = r' \<and> e' = e)"
proof (induction n arbitrary: i eaten r)
  case 0
  then show ?case by simp
next
  case (Suc n)
  show ?case
  proof (cases "eaten < L")
    case False
    then show ?thesis using Suc.prems by auto
  next
    case True
    note rel = round_rel [OF Suc.prems(1), of rcv K mx timeo orig off L i eaten]
    show ?thesis
    proof (cases "strp_round (plain_hooks rcv) K mx timeo orig off L i eaten r")
      case (Stop r1 e1)
      then show ?thesis using True Suc.prems(2) rel
        by (cases "strp_round (tls_hooks rcv) K mx timeo orig off L i eaten r") auto
    next
      case (Again r1 e1)
      then have "strp_round (tls_hooks rcv) K mx timeo orig off L i eaten r = Again r1 e1" "\<not> short_head (rx_strp r1)"
        using rel by (cases "strp_round (tls_hooks rcv) K mx timeo orig off L i eaten r"; simp)+
      then show ?thesis using Again True Suc.prems(2) Suc.IH [of r1 "Suc i" e1] by simp
    qed
  qed
qed

section \<open>Whole segments\<close>

lemma short_head_pending:
  assumes "strp_inv mc_len 28 mx s"
  shows "short_head s \<longleftrightarrow> pending s \<noteq> [] \<and> length (pending s) < 28"
proof (cases "sp_head s")
  case None
  then show ?thesis by (simp add: short_head_def pending_def)
next
  case (Some h)
  have inv: "head_inv mc_len 28 mx h" using assms Some by (simp add: strp_inv_def)
  have ptr: "skb_header_pointer h (sb_offset h) 28 = None \<longleftrightarrow> length (skb_view h) < 28"
    using inv by (auto simp: head_inv_def skb_header_pointer_def skb_view_def skb_wf_def)
  have "skb_view h \<noteq> []" using inv by (auto simp: head_inv_def skb_view_def skb_wf_def)
  moreover have "length (skb_view h) < 28 \<Longrightarrow> sb_full_len h = 0" using inv by (auto simp: head_inv_def split: if_splits)
  ultimately show ?thesis using Some ptr by (auto simp: short_head_def pending_def)
qed

lemma kernel_ok_tls [simp]: "kernel_ok (tls_kernel K) = kernel_ok K"
  by (simp add: kernel_ok_def tls_kernel_def)

lemma prepare_not_short:
  assumes "kernel_ok K" "skb_wf orig" "off \<le> length (sb_bytes orig)" "strp_inv mc_len 28 mx (rx_strp r)"
    and "\<not> short_head (rx_strp r)" "strp_prepare K r orig off = Inr (r1, orig1, off1)"
  shows "\<not> short_head (rx_strp r1)"
proof (cases "sp_head (rx_strp r)")
  case None
  then show ?thesis using assms(6) by (auto simp: strp_prepare_def short_head_def)
next
  case (Some h)
  have inv: "head_inv mc_len 28 mx h" using assms(4) Some by (simp add: strp_inv_def)
  obtain h1 where h1: "sp_head (rx_strp r1) = Some h1" "head_inv mc_len 28 mx h1" "skb_view h1 = skb_view h"
    using plain.prepare_ok [OF assms(1-3) Some inv] assms(6) by auto
  then have "pending (rx_strp r1) = pending (rx_strp r)" "strp_inv mc_len 28 mx (rx_strp r1)"
    using Some by (simp_all add: pending_def strp_inv_def)
  then show ?thesis using short_head_pending [OF assms(4)] short_head_pending [of mx "rx_strp r1"] assms(5) by simp
qed

lemma recv_desc_rel:
  assumes K: "kernel_ok K" "skb_wf orig" "off \<le> length (sb_bytes orig)" "strp_inv mc_len 28 mx (rx_strp r)"
    and ns: "\<not> short_head (rx_strp r)"
    and run: "strp_recv_desc (plain_hooks rcv) K mx timeo r orig off L = Some (r', e)"
  shows "\<exists>t e'. strp_recv_desc (tls_hooks rcv) K mx timeo r orig off L = Some (t, e') \<and>
     (if short_head (rx_strp r') then refused t r' else t = r' \<and> e' = e)"
proof (cases "sp_paused (rx_strp r)")
  case True
  then show ?thesis using run ns by (auto simp: strp_recv_desc_def)
next
  case np: False
  have bump: "short_head (rx_strp (strp_bump f x)) = short_head (rx_strp x)"
    "refused (strp_bump f t) (strp_bump g x) = refused t x" for f g and x t :: "('a, 'b) rx"
    by (simp_all add: short_head_def refused_def strp_bump_def)
  show ?thesis
  proof (cases "strp_prepare K r orig off")
    case (Inl r1)
    then have "sp_head (rx_strp r1) = sp_head (rx_strp r)"
      by (auto simp: strp_prepare_def mem_fail_def split: option.splits if_splits)
    then have "\<not> short_head (rx_strp r1)" using ns by (simp add: short_head_def)
    then show ?thesis using run np Inl by (auto simp: strp_recv_desc_def)
  next
    case (Inr q)
    obtain r1 orig1 off1 where q: "q = (r1, orig1, off1)" by (cases q)
    have ns1: "\<not> short_head (rx_strp r1)" by (rule prepare_not_short [OF K ns]) (use Inr q in simp)
    obtain r2 where r2: "strp_loop (nat L + 1) (plain_hooks rcv) K mx timeo orig1 off1 L 0 0 r1 = Some (r2, e)"
      "r' = strp_bump (\<lambda>st. st\<lparr>ss_bytes := ss_bytes st + word_of_int e\<rparr>) r2"
      using run np Inr q by (auto simp: strp_recv_desc_def split: option.splits prod.splits)
    from loop_rel [OF ns1 r2(1)] obtain t e' where
      "strp_loop (nat L + 1) (tls_hooks rcv) K mx timeo orig1 off1 L 0 0 r1 = Some (t, e')"
      "if short_head (rx_strp r2) then refused t r2 else t = r2 \<and> e' = e" by blast
    then show ?thesis using np Inr q r2(2) by (auto simp: strp_recv_desc_def bump split: if_splits)
  qed
qed

text \<open>
  C16. The TLS variant frames like the plain one as long as no segment ends inside a header: it
  delivers the messages of the framing in order and keeps the rest. A segment that ends inside
  a header, with some but fewer than 28 bytes of it, still delivers the messages before it and
  then stops the parser of the connection for good with \<open>EINVAL\<close>.
\<close>

theorem tls_recv_frames:
  assumes "kernel_ok K" "skb_wf orig" "off \<le> length (sb_bytes orig)"
    and "\<not> sp_paused (rx_strp r)" "strp_inv mc_len 28 mx (rx_strp r)"
    and "pending (rx_strp r) = [] \<or> 28 \<le> length (pending (rx_strp r))"
    and "frames mc_len 28 mx (pending (rx_strp r) @ drop off (sb_bytes orig)) = (ms, Pending p)"
  shows "\<exists>r' hs e. tls_strp_recv rcv K mx timeo r orig off (int (length (sb_bytes orig)) - int off) = Some (r', e) \<and>
           map msg_bytes hs = ms \<and> rx_up r' = fold rcv hs (rx_up r) \<and>
           (if p = [] \<or> 28 \<le> length p
            then e = int (length (sb_bytes orig)) - int off \<and> pending (rx_strp r') = p \<and>
                 strp_inv mc_len 28 mx (rx_strp r') \<and> sp_stopped (rx_strp r') = sp_stopped (rx_strp r) \<and>
                 rx_error r' = rx_error r
            else sp_head (rx_strp r') = None \<and> sp_stopped (rx_strp r') \<and> rx_error r' = - EINVAL)"
proof -
  let ?L = "int (length (sb_bytes orig)) - int off"
  have K: "kernel_ok (tls_kernel K)" using assms(1) by simp
  obtain r' hs where run: "strp_recv_desc (plain_hooks rcv) (tls_kernel K) mx timeo r orig off ?L = Some (r', ?L)"
    "map msg_bytes hs = ms" "rx_up r' = fold rcv hs (rx_up r)"
    and fin: "pending (rx_strp r') = p" "strp_inv mc_len 28 mx (rx_strp r')"
      "sp_stopped (rx_strp r') = sp_stopped (rx_strp r)" "rx_error r' = rx_error r"
    using plain.strp_recv_frames [OF K assms(2-5,7), where timeo = timeo and rcv = rcv]
    by (auto simp: plain.run_ends_def plain.still_running_def plain_deliver)
  have "\<not> short_head (rx_strp r)" using assms(6) by (auto simp: short_head_pending [OF assms(5)])
  from recv_desc_rel [OF K assms(2,3,5) this run(1)] obtain t e where
    t: "tls_strp_recv rcv K mx timeo r orig off ?L = Some (t, e)"
    "if short_head (rx_strp r') then refused t r' else t = r' \<and> e = ?L" by (auto simp: tls_strp_recv_def)
  show ?thesis
    by (rule exI [of _ t], rule exI [of _ hs], rule exI [of _ e])
       (use t run fin in \<open>auto simp: short_head_pending [OF fin(2)] refused_def split: if_splits\<close>)
qed

theorem tls_recv_frames_witness:
  "(\<exists>r' e. tls_strp_recv (\<lambda>h u. u @ [msg_bytes h]) ideal_kernel 4096 0 sample_rx
      (sample_skb (get_msg @ get_msg)) 0 56 = Some (r', e) \<and> rx_up r' = [get_msg, get_msg] \<and> \<not> sp_stopped (rx_strp r')) \<and>
   (\<exists>r' e. tls_strp_recv (\<lambda>h u. u @ [msg_bytes h]) ideal_kernel 4096 0 sample_rx
      (sample_skb (get_msg @ take 5 get_msg)) 0 33 = Some (r', e) \<and> rx_up r' = [get_msg] \<and> sp_stopped (rx_strp r') \<and>
      rx_error r' = - EINVAL)"
proof -
  have f: "frames mc_len 28 4096 (get_msg @ take 5 get_msg) = ([get_msg], Pending (take 5 get_msg))"
    by (simp add: frames.simps)
  have ne: "get_msg \<noteq> []" by (simp add: get_msg_def)
  show ?thesis
    using tls_recv_frames [of ideal_kernel "sample_skb (get_msg @ get_msg)" 0 sample_rx 4096
      "[get_msg, get_msg]" "[]" "\<lambda>h u. u @ [msg_bytes h]" 0]
      tls_recv_frames [of ideal_kernel "sample_skb (get_msg @ take 5 get_msg)" 0 sample_rx 4096
      "[get_msg]" "take 5 get_msg" "\<lambda>h u. u @ [msg_bytes h]" 0]
    by (auto simp: get_msg_frames f ne)
qed

end
