(* ===== verification/Tls_Sock.thy ===== *)
theory Tls_Sock
  imports Tls_Conn Tls_Recv Grpc_Sock
begin

text \<open>
  The life cycle of the TLS variant: creating and releasing rakaia sockets, attaching a TLS
  connection, freeing it, and the data-ready callback. Functions that take the global
  \<open>rakaia->lock\<close> have the result \<open>None\<close> when it is held for good.
\<close>

section \<open>Creating sockets\<close>

definition new_tls_ksk :: "sock_type \<Rightarrow> tls_ksk" where
  "new_tls_ksk ty =
     \<lparr>tk_type = ty, tk_write_queue = [], tk_seq_skb = None, tk_wait_more = False, tk_wmem_queued = 0,
      tk_pfrag = (0, 0, 0), tk_err = 0, tk_nospace = False, tk_write_space = 0\<rparr>"

text \<open>The return for a full table leaves the lock held.\<close>

definition tls_create ::
  "sock_type \<Rightarrow> int \<Rightarrow> nat option \<Rightarrow> int \<Rightarrow> tls_world \<Rightarrow> (fault + int \<times> tls_world) option" where
  "tls_create ty protocol alloc rcvbuf w =
     (if ty \<noteq> SOCK_DGRAM \<and> ty \<noteq> SOCK_SEQPACKET then Some (Inr (- ESOCKTNOSUPPORT, w))
      else if protocol \<noteq> RAKAIAPROTO_CONNECTED then Some (Inr (- EPROTONOSUPPORT, w))
      else
        (case alloc of
           None \<Rightarrow> Some (Inr (- ENOMEM, w))
         | Some a \<Rightarrow>
             (let rk = tw_rk w in
              if tw_lock w then None
              else if r_cnt rk \<ge> int NUM_RAKAIA_SOCKETS then Some (Inr (- ENOMEM, w\<lparr>tw_lock := True\<rparr>))
              else if r_cnt rk < 0 then Some (Inl OutOfBounds)
              else Some (Inr (0, w\<lparr>tw_rk :=
                     rk\<lparr>r_socks := (r_socks rk)[nat (r_cnt rk) := Some a],
                        r_heap := (r_heap rk)(a := Some (new_rakaia_sock (r_cnt rk) rcvbuf)),
                        r_cnt := r_cnt rk + 1,
                        r_waiters_bm := set_bit (nat (r_cnt rk)) (r_waiters_bm rk),
                        r_waiters := r_waiters rk @ [a]\<rparr>,
                     tw_ksks := (tw_ksks w)(a \<mapsto> new_tls_ksk ty)\<rparr>)))))"

section \<open>Attaching a connection\<close>

definition tls_callbacks :: "(sk_buff \<Rightarrow> 'u \<Rightarrow> 'u) \<Rightarrow> (unit, 'u) strp_callbacks" where
  "tls_callbacks rcv =
     \<lparr>cb_parse_msg = Some tls_parse_func, cb_rcv_msg = Some (\<lambda>h u. (rcv h u, False)),
      cb_read_sock_done = None, cb_abort_parser = None, cb_lock = False, cb_unlock = False\<rparr>"

definition zero_tls_psock :: tls_psock where
  "zero_tls_psock =
     \<lparr>tp_sk = None, tp_strp = zero_strp None, tp_tx_in_use = False, tp_tx_wait_queue = [],
      tp_save_data_ready = KernelCb 0, tp_save_write_space = KernelCb 0, tp_save_state_change = KernelCb 0,
      tp_hash_id = 0\<rparr>"

text \<open>
  The psock is on the list of its net and in its bucket before the socket is looked at; no
  error takes it off again, and two of them free it. A socket without TLS receive context is
  followed through a null pointer.
\<close>

definition tls_attach ::
  "(u32 \<Rightarrow> u32 \<Rightarrow> u32 \<Rightarrow> u32) \<Rightarrow> (sk_buff \<Rightarrow> 'u \<Rightarrow> 'u) \<Rightarrow> nat option \<Rightarrow> nat option \<Rightarrow> tls_world \<Rightarrow>
     (fault + int \<times> tls_world) option" where
  "tls_attach jhash rcv alloc csk w =
     (case alloc of
        None \<Rightarrow> Some (Inr (- ENOMEM, w))
      | Some p \<Rightarrow>
          (let w1 = set_tls_psock p zero_tls_psock
                      (w\<lparr>tw_net_list := p # tw_net_list w, tw_net_count := tw_net_count w + 1\<rparr>)
           in case csk of
                None \<Rightarrow> Some (Inr (- EINVAL, w1))
              | Some c \<Rightarrow>
                  (case tls_lower_at w1 (Some c) of
                     Inl f \<Rightarrow> Some (Inl f)
                   | Inr (_, l) \<Rightarrow>
                       (let h = hash_tcp_tuple jhash (tl_daddr l) (tl_dport l);
                            b = unat h mod NUM_BUCKETS;
                            ps = zero_tls_psock\<lparr>tp_hash_id := h\<rparr>;
                            w2 = set_tls_psock p ps (w1\<lparr>tw_buckets := (tw_buckets w1)(b := p # tw_buckets w1 b)\<rparr>)
                        in if tw_lock w then None
                           else
                             (let w3 = w2\<lparr>tw_psock_cnt := tw_psock_cnt w2 + 1\<rparr>;
                                  freed = w3\<lparr>tw_psocks := (tw_psocks w3)(p := None)\<rparr>
                              in if \<not> attachable (tl_base l) then Some (Inr (- EOPNOTSUPP, w3))
                                 else if lw_user_data (tl_base l) \<noteq> None then Some (Inr (- EALREADY, freed))
                                 else
                                   (case strp_init (Some (lw_view (tl_base l))) (Some (tls_callbacks rcv)) of
                                      Inl err \<Rightarrow> Some (Inr (err, freed))
                                    | Inr (strp, _) \<Rightarrow>
                                        (case tl_saved_data_ready l of
                                           None \<Rightarrow> Some (Inl NullDeref)
                                         | Some saved \<Rightarrow>
                                             Some (Inr (0,
                                               (set_tls_psock p
                                                 (ps\<lparr>tp_sk := Some c, tp_strp := strp, tp_save_data_ready := saved,
                                                     tp_save_write_space := lw_write_space (tl_base l),
                                                     tp_save_state_change := lw_state_change (tl_base l)\<rparr>) w3)
                                               \<lparr>tw_lower := (tw_lower w3)(c \<mapsto>
                                                  l\<lparr>tl_base := (tl_base l)\<lparr>lw_user_data := Some p,
                                                        lw_refs := lw_refs (tl_base l) + 1\<rparr>,
                                                    tl_saved_data_ready := Some PsockDataReady\<rparr>)\<rparr>)))))))))"

definition tls_file_ref :: "int \<Rightarrow> nat option \<Rightarrow> tls_world \<Rightarrow> tls_world" where
  "tls_file_ref d csk =
     upd_lower csk (\<lambda>l. l\<lparr>tl_base := (tl_base l)\<lparr>lw_file_refs := lw_file_refs (tl_base l) + d\<rparr>\<rparr>)"

definition tls_attach_ioctl ::
  "(u32 \<Rightarrow> u32 \<Rightarrow> u32 \<Rightarrow> u32) \<Rightarrow> (sk_buff \<Rightarrow> 'u \<Rightarrow> 'u) \<Rightarrow> nat option \<Rightarrow> nat option option \<Rightarrow> tls_world \<Rightarrow>
     (fault + int \<times> tls_world) option" where
  "tls_attach_ioctl jhash rcv alloc lookup w =
     (case lookup of
        None \<Rightarrow> Some (Inr (- ENOENT, w))
      | Some csk \<Rightarrow>
          map_option (map_sum id (\<lambda>(err, w1). (err, if err \<noteq> 0 then tls_file_ref (- 1) csk w1 else w1)))
            (tls_attach jhash rcv alloc csk (tls_file_ref 1 csk w)))"

section \<open>The data-ready callback\<close>

definition tls_psock_data_ready :: "nat \<Rightarrow> tls_world \<Rightarrow> fault + tls_world" where
  "tls_psock_data_ready c w =
     bind_fault (tls_lower_at w (Some c)) (\<lambda>(_, l).
       case lw_user_data (tl_base l) of
         None \<Rightarrow> Inr w
       | Some p \<Rightarrow>
           bind_fault (tls_psock_at w p) (\<lambda>ps.
             Inr (set_tls_psock p (ps\<lparr>tp_strp := tls_strp_data_ready (tp_strp ps)\<rparr>) w)))"

section \<open>Releasing\<close>

text \<open>\<open>free_psock\<close> is the callback that runs after the grace period.\<close>

definition tls_free_psock :: "nat \<Rightarrow> tls_world \<Rightarrow> fault + tls_world" where
  "tls_free_psock p w =
     bind_fault (tls_psock_at w p) (\<lambda>ps.
       bind_fault (tls_lower_at w (tp_sk ps)) (\<lambda>(c, l).
         let base = (tl_base l)\<lparr>lw_user_data := None, lw_data_ready := tp_save_data_ready ps,
               lw_write_space := tp_save_write_space ps, lw_state_change := tp_save_state_change ps\<rparr>;
             ps1 = ps\<lparr>tp_strp := strp_done (strp_stop (tp_strp ps))\<rparr>;
             w1 = (set_tls_psock p ps1 w)\<lparr>tw_lower := (tw_lower w)(c \<mapsto> l\<lparr>tl_base := base\<rparr>)\<rparr>
         in Inr (w1\<lparr>tw_psocks := (tw_psocks w1)(p := None)\<rparr>)))"

definition tls_release_psock :: "nat \<Rightarrow> tls_world \<Rightarrow> fault + tls_world" where
  "tls_release_psock p w =
     bind_fault (tls_psock_at w p) (\<lambda>_.
       Inr (w\<lparr>tw_net_list := remove1 p (tw_net_list w), tw_net_count := tw_net_count w - 1,
              tw_rcu := tw_rcu w @ [p]\<rparr>))"

fun tls_release_bucket :: "nat \<Rightarrow> nat list \<Rightarrow> tls_world \<Rightarrow> fault + tls_world" where
  "tls_release_bucket b [] w = Inr w"
| "tls_release_bucket b (p # ps) w =
     bind_fault (tls_release_psock p w) (\<lambda>w1.
       tls_release_bucket b ps (w1\<lparr>tw_psock_cnt := tw_psock_cnt w1 - 1,
         tw_buckets := (tw_buckets w1)(b := remove1 p (tw_buckets w1 b))\<rparr>))"

fun tls_release_buckets :: "nat list \<Rightarrow> tls_world \<Rightarrow> fault + tls_world" where
  "tls_release_buckets [] w = Inr w"
| "tls_release_buckets (b # bs) w =
     bind_fault (tls_release_bucket b (tw_buckets w b) w) (tls_release_buckets bs)"

definition tls_release :: "nat option \<Rightarrow> tls_world \<Rightarrow> (fault + int \<times> tls_world) option" where
  "tls_release sk w =
     (case sk of
        None \<Rightarrow> Some (Inr (0, w))
      | Some a \<Rightarrow>
          (case deref (tw_rk w) a of
             Inl f \<Rightarrow> Some (Inl f)
           | Inr k \<Rightarrow>
               (let rk1 = upd_sock a (\<lambda>s. s\<lparr>k_dead := True\<rparr>) (tw_rk w);
                    w1 = upd_ksk a (\<lambda>t. t\<lparr>tk_seq_skb := None, tk_write_queue := []\<rparr>) (w\<lparr>tw_rk := rk1\<rparr>)
                in if tw_lock w then None
                   else Some (
                     bind_fault
                       (if k_index k \<le> int NUM_RAKAIA_SOCKETS
                        then (if 0 \<le> k_index k \<and> nat (k_index k) < length (r_socks rk1)
                              then Inr (w1\<lparr>tw_rk := rk1\<lparr>r_socks := (r_socks rk1)[nat (k_index k) := None],
                                                       r_cnt := r_cnt rk1 - 1\<rparr>\<rparr>)
                              else Inl OutOfBounds)
                        else Inr w1)
                       (\<lambda>w2.
                          bind_fault
                            (if r_cnt (tw_rk w2) = 0 then tls_release_buckets [0..<NUM_BUCKETS] w2 else Inr w2)
                            (\<lambda>w3. Inr (0, w3\<lparr>tw_rk := (tw_rk w3)\<lparr>r_heap := (r_heap (tw_rk w3))(a := None)\<rparr>,
                                           tw_ksks := (tw_ksks w3)(a := None)\<rparr>)))))))"

text \<open>The end of a grace period: every waiting callback runs once.\<close>

fun tls_run_rcu :: "nat list \<Rightarrow> tls_world \<Rightarrow> fault + tls_world" where
  "tls_run_rcu [] w = Inr w"
| "tls_run_rcu (p # ps) w = bind_fault (tls_free_psock p w) (tls_run_rcu ps)"

definition tls_grace_period :: "tls_world \<Rightarrow> fault + tls_world" where
  "tls_grace_period w = tls_run_rcu (tw_rcu w) (w\<lparr>tw_rcu := []\<rparr>)"

section \<open>Control calls\<close>

datatype tls_request = TlsAttach "nat option option" | TlsPull | TlsOther

text \<open>\<open>copied\<close> says whether \<open>copy_from_user\<close> could read the argument.\<close>

definition tls_ioctl ::
  "nat \<Rightarrow> tls_call \<Rightarrow> (u32 \<Rightarrow> u32 \<Rightarrow> u32 \<Rightarrow> u32) \<Rightarrow> (sk_buff \<Rightarrow> 'u \<Rightarrow> 'u) \<Rightarrow> nat option \<Rightarrow> bool \<Rightarrow> nat \<Rightarrow>
     tls_request \<Rightarrow> tls_world \<Rightarrow> (fault + int \<times> tls_world) option" where
  "tls_ioctl n C jhash rcv alloc copied a req w =
     (case req of
        TlsAttach lookup \<Rightarrow>
          if copied then tls_attach_ioctl jhash rcv alloc lookup w else Some (Inr (- EFAULT, w))
      | TlsPull \<Rightarrow>
          map_option (map_sum id (\<lambda>(r, rk). (r, w\<lparr>tw_rk := rk\<rparr>)))
            (rakaia_pull n (tc_rnd C) 0 (tc_sched_ok C) a (tw_rk w))
      | TlsOther \<Rightarrow> Some (Inr (- ENOIOCTLCMD, w)))"

end
