(* ===== verification/Tls_Theorems.thy ===== *)
theory Tls_Theorems
  imports Tls_Sock Path_Theorems
begin

text \<open>
  The properties of the TLS variant: a send on an idle connection completes, the send side
  never follows a bad pointer, an interrupted write goes on where it stopped, a connection that
  once refused a byte is lost, detaching does not give the socket back, and a full table stops
  the module.
\<close>

section \<open>A world to evaluate on\<close>

definition tls_tcp :: "lower_cb \<Rightarrow> nat option \<Rightarrow> tls_lower" where
  "tls_tcp cb user =
     \<lparr>tl_base = tcp_lower user 1, tl_saved_data_ready = Some cb, tl_daddr = 0x0A000001, tl_dport = 443, tl_out = []\<rparr>"

definition tls_sample :: tls_world where
  "tls_sample =
     \<lparr>tw_rk = upd_sock 3 (\<lambda>s. s\<lparr>k_last_psock := Some 100\<rparr>) booted,
      tw_ksks = [3 \<mapsto> new_tls_ksk SOCK_DGRAM], tw_psocks = [100 \<mapsto> zero_tls_psock\<lparr>tp_sk := Some 50\<rparr>],
      tw_lower = [50 \<mapsto> tls_tcp PsockDataReady (Some 100)], tw_calls = 0, tw_net_list = [100], tw_net_count = 1,
      tw_buckets = (\<lambda>_. []), tw_psock_cnt = 1, tw_rcu = [], tw_lock = False\<rparr>"

text \<open>A kernel with memory to spare, and a TLS socket that takes at most \<open>m\<close> bytes per call.\<close>

definition tls_easy :: "(nat \<Rightarrow> nat \<Rightarrow> bytes \<Rightarrow> int) \<Rightarrow> tls_call" where
  "tls_easy send =
     \<lparr>tc_mem_free = True, tc_wait = (\<lambda>_. 0), tc_alloc = (\<lambda>_. True), tc_refill = (\<lambda>t _. Some (t, 0, 4)),
      tc_wmem_schedule = (\<lambda>_ _. True), tc_copy = (\<lambda>_. 0), tc_splice = (\<lambda>_ _ _. (- EMSGSIZE, [])),
      tc_stream_error = id, tc_send = send, tc_rnd = word_of_nat, tc_sched_ok = True\<rparr>"

definition takes :: "nat \<Rightarrow> nat \<Rightarrow> nat \<Rightarrow> bytes \<Rightarrow> int" where
  "takes m c n bs = (if bs = [] \<or> m = 0 then - EAGAIN else int (min m (length bs)))"

lemma takes_law [simp]: "sock_law (takes m c)" "sock_soft (takes m c)" "0 < m \<Longrightarrow> sock_willing (takes m c)"
  by (auto simp: sock_law_def sock_soft_def sock_willing_def takes_def)

lemma laws_takes [simp]: "laws (takes m)"
  by (simp add: laws_def)

lemma tls_easy_generous [simp]: "generous (tls_easy send)" "build_law (tls_easy send)" "tc_send (tls_easy send) = send"
  by (auto simp: generous_def build_law_def tls_easy_def)

lemma tls_easy_draws [simp]: "draws_differ (tc_rnd (tls_easy send))"
  using counter_draws_differ by (simp add: tls_easy_def)

lemma tls_sample_ok: "tls_ok tls_sample"
  unfolding tls_ok_def
proof (intro conjI allI impI)
  show "sched_inv (tw_rk tls_sample)"
    unfolding tls_sample_def by simp (rule sched_inv_neutral [OF booted_inv], simp_all)
next
  fix a assume "tw_ksks tls_sample a \<noteq> None"
  then have "a = 3" by (simp add: tls_sample_def split: if_splits)
  then show "Some a \<in> set (r_socks (tw_rk tls_sample))" using booted_mem [of 3] by (simp add: tls_sample_def)
next
  fix a k assume "tw_ksks tls_sample a = Some k"
  then have "k = new_tls_ksk SOCK_DGRAM" by (simp add: tls_sample_def split: if_splits)
  then show "ksk_ok tls_sample a k" by (simp add: ksk_ok_def new_tls_ksk_def)
next
  fix a k p assume k: "r_heap (tw_rk tls_sample) a = Some k" "k_last_psock k = Some p"
  have "p = 100"
  proof (rule ccontr)
    assume "p \<noteq> 100"
    with k have "r_heap booted a = Some k" by (auto simp: tls_sample_def split: if_splits)
    from booted_heap [OF this] k(2) show False by (auto simp: new_rakaia_sock_def)
  qed
  then show "conn_ok tls_sample p" by (simp add: conn_ok_def tls_sample_def zero_tls_psock_def)
qed

lemma tls_sample_sel [simp]:
  "tw_ksks tls_sample 3 = Some (new_tls_ksk SOCK_DGRAM)"
  "tw_psocks tls_sample 100 = Some (zero_tls_psock\<lparr>tp_sk := Some 50\<rparr>)"
  "tw_lower tls_sample 50 = Some (tls_tcp PsockDataReady (Some 100))"
  by (simp_all add: tls_sample_def)

lemma tls_sample_last: "\<exists>rs. r_heap (tw_rk tls_sample) 3 = Some rs \<and> k_last_psock rs = Some 100"
  using booted_at [of 3] by (auto simp: tls_sample_def at_slot_def upd_sock_def)

section \<open>A send on an idle connection\<close>

text \<open>Socket \<open>a\<close> last received from connection \<open>p\<close>, and neither has anything to send.\<close>

definition tls_idle :: "nat \<Rightarrow> nat \<Rightarrow> nat \<Rightarrow> bytes \<Rightarrow> int \<Rightarrow> tls_world \<Rightarrow> bool" where
  "tls_idle a p c out wmem w \<longleftrightarrow> tls_ok w \<and>
     (\<exists>k. tw_ksks w a = Some k \<and> tk_err k = 0 \<and> tk_seq_skb k = None \<and> tk_write_queue k = [] \<and> tk_wmem_queued k = wmem) \<and>
     (\<exists>rs. r_heap (tw_rk w) a = Some rs \<and> k_last_psock rs = Some p) \<and>
     (\<exists>ps. tw_psocks w p = Some ps \<and> \<not> tp_tx_in_use ps \<and> tp_sk ps = Some c) \<and>
     (\<exists>l. tw_lower w c = Some l \<and> tl_out l = out)"

lemma write_queue_willing:
  assumes m: "msg_ok m" "tm_ksk m = Some a" "ks a = Some k" and law: "sock_law send" "sock_willing send"
  shows "\<exists>c'. write_queue (Inr send) c [m] 0 ks = Inr (sint (word_of_nat (length (msg_all m)) :: u32), c', [],
      ks(a \<mapsto> k\<lparr>tk_wmem_queued := tk_wmem_queued k - uint (word_of_nat (length (msg_all m)) :: u32)\<rparr>), msg_left m)"
proof -
  obtain e c' m' out where w: "write_msg (Inr send) c m = Inr (e, c', m', out)" "write_msg_post send m (e, c', m', out)"
    using write_msg_law [OF m(1) law(1), of c] by auto
  with law(2) willing_soft [OF law(2)] have "e = MsgSent" "out = msg_left m" "same_msg m m'"
    "tm_sent m' = word_of_nat (length (msg_all m))"
    by (auto simp: write_msg_post_def split: msg_end.splits)
  then show ?thesis using w(1) m by (simp add: same_msg_def)
qed

lemma small_word: "n < 2 ^ 31 \<Longrightarrow> sint (word_of_nat n :: u32) = int n \<and> uint (word_of_nat n :: u32) = int n"
  by (simp add: sint_u32 unsigned_of_nat take_bit_nat_eq_self)

lemma world_upd_comm: "w\<lparr>tw_lower := l, tw_ksks := k\<rparr> = w\<lparr>tw_ksks := k, tw_lower := l\<rparr>"
  by simp

lemma ksk_upd_comm: "k\<lparr>tk_wait_more := b, tk_write_queue := q\<rparr> = k\<lparr>tk_write_queue := q, tk_wait_more := b\<rparr>"
  by simp

text \<open>The only message of a socket goes to an idle connection.\<close>

lemma write_msgs_single:
  assumes k: "tw_ksks w a = Some k" "tk_write_queue k = [m]" and m: "tm_psock m = Some p"
    and ps: "tw_psocks w p = Some ps" "\<not> tp_tx_in_use ps" "tp_tx_wait_queue ps = []"
    and l: "tp_sk ps = Some c" "tw_lower w c = Some l"
    and wq: "write_queue (Inr (send c)) (tw_calls w) [m] 0
        ((tw_ksks w)(a \<mapsto> k\<lparr>tk_write_queue := [], tk_wait_more := False\<rparr>)) = Inr (r, calls, q', ks', out)"
  shows "rakaia_write_msgs send a w = write_msgs_out a (if r \<le> 0 then 0 else word_of_int r) r
     (w\<lparr>tw_calls := calls, tw_ksks := ks', tw_lower := (tw_lower w)(c \<mapsto> l\<lparr>tl_out := tl_out l @ out\<rparr>),
        tw_psocks := (tw_psocks w)(p \<mapsto> ps\<lparr>tp_tx_in_use := (r \<le> 0), tp_tx_wait_queue := q'\<rparr>)\<rparr>)"
proof -
  let ?ps = "ps\<lparr>tp_tx_in_use := True, tp_tx_wait_queue := [m]\<rparr>"
  let ?w1 = "w\<lparr>tw_ksks := (tw_ksks w)(a \<mapsto> k\<lparr>tk_write_queue := [], tk_wait_more := False\<rparr>)\<rparr>"
  have up: "upd_ksk a (\<lambda>k. k\<lparr>tk_write_queue := []\<rparr>) (upd_ksk a (\<lambda>k. k\<lparr>tk_wait_more := False\<rparr>) w) = ?w1"
    using k(1) by (simp add: upd_ksk_def ksk_upd_comm)
  have at: "tls_psock_at ?w1 p = Inr ps" using ps(1) by (simp add: tls_psock_at_def)
  have use: "set_in_use p True (set_tls_psock p (ps\<lparr>tp_tx_wait_queue := tp_tx_wait_queue ps @ [m]\<rparr>) ?w1) =
      ?w1\<lparr>tw_psocks := (tw_psocks w)(p \<mapsto> ?ps)\<rparr>"
    using ps(3) by (simp add: set_in_use_def set_tls_psock_def psock_upd_comm)
  have cs: "write_to_csock send p (?w1\<lparr>tw_psocks := (tw_psocks w)(p \<mapsto> ?ps)\<rparr>) = Inr (r, w\<lparr>tw_calls := calls,
      tw_ksks := ks', tw_psocks := (tw_psocks w)(p \<mapsto> ?ps\<lparr>tp_tx_wait_queue := q'\<rparr>),
      tw_lower := (tw_lower w)(c \<mapsto> l\<lparr>tl_out := tl_out l @ out\<rparr>)\<rparr>)"
    using l wq by (simp add: write_to_csock_def access_defs)
  show ?thesis
    using k m ps(2) up at use cs
    by (simp add: rakaia_write_msgs_def tls_ksk_at_def Let_def set_in_use_def psock_upd_comm del: upd_ksk_twice)
qed

lemma write_msgs_one:
  assumes k: "tw_ksks w a = Some k" "tk_write_queue k = [m]" and m: "fresh_ok m" "tm_ksk m = Some a" "tm_psock m = Some p"
    and ps: "tw_psocks w p = Some ps" "\<not> tp_tx_in_use ps" "tp_tx_wait_queue ps = []"
    and l: "tp_sk ps = Some c" "tw_lower w c = Some l" and law: "sock_law (send c)" "sock_willing (send c)"
    and len: "length (msg_all m) < 2 ^ 31"
  shows "\<exists>r calls. rakaia_write_msgs send a w = Inr (r, w\<lparr>tw_calls := calls,
      tw_ksks := (tw_ksks w)(a \<mapsto> k\<lparr>tk_write_queue := [], tk_wait_more := False,
         tk_wmem_queued := tk_wmem_queued k - int (length (msg_all m)), tk_write_space := tk_write_space k + 1\<rparr>),
      tw_lower := (tw_lower w)(c \<mapsto> l\<lparr>tl_out := tl_out l @ msg_all m\<rparr>)\<rparr>)"
proof -
  let ?n = "int (length (msg_all m))" and ?k = "k\<lparr>tk_write_queue := [], tk_wait_more := False\<rparr>"
  have mo: "msg_ok m" "msg_left m = msg_all m" using fresh_msg [OF m(1)] by simp_all
  have pos: "0 < ?n" using msg_ok_left [OF mo(1)] mo(2) by simp
  obtain c' where wq: "write_queue (Inr (send c)) (tw_calls w) [m] 0 ((tw_ksks w)(a \<mapsto> ?k)) =
      Inr (?n, c', [], (tw_ksks w)(a \<mapsto> ?k\<lparr>tk_wmem_queued := tk_wmem_queued k - ?n\<rparr>), msg_all m)"
    using write_queue_willing [OF mo(1) m(2) _ law, of "(tw_ksks w)(a \<mapsto> ?k)" ?k "tw_calls w"] mo(2) small_word [OF len]
    by auto
  have "ps\<lparr>tp_tx_in_use := False, tp_tx_wait_queue := []\<rparr> = ps" using ps(2,3) by simp
  then show ?thesis
    using write_msgs_single [where send = send, OF k m(3) ps l wq] pos ps(1)
    by (intro exI [of _ "sint (word_of_nat (length (msg_all m)) :: u32)"] exI [of _ c'])
       (simp add: write_msgs_out_def tls_write_space_def upd_ksk_def world_upd_comm small_word [OF len] fun_upd_idem)
qed

text \<open>A socket that takes nothing: the message stays on the connection, which stays in use.\<close>

lemma write_queue_refused:
  assumes m: "msg_ok m" and no: "\<And>n bs. send n bs = - EAGAIN"
  shows "\<exists>m' c'. write_queue (Inr send) c [m] 0 ks = Inr (0, c', [m'], ks, [])"
proof -
  obtain i where i: "resume_at m = Some i" "i < length (tm_bufs m)" "tm_bufs m ! i \<noteq> []"
    using m by (auto simp: msg_ok_def)
  have "send_part send c bs = (PartStop (- EAGAIN), Suc c, 0)" for bs
    by (subst send_part.simps) (simp add: no)
  from write_msg_part [OF i this] show ?thesis by (simp add: part_result_def)
qed

lemma write_msgs_refused:
  assumes k: "tw_ksks w a = Some k" "tk_write_queue k = [m]" and m: "fresh_ok m" "tm_psock m = Some p"
    and ps: "tw_psocks w p = Some ps" "\<not> tp_tx_in_use ps" "tp_tx_wait_queue ps = []"
    and l: "tp_sk ps = Some c" "tw_lower w c = Some l" and no: "\<And>n bs. send c n bs = - EAGAIN"
  shows "\<exists>calls ks' q'. rakaia_write_msgs send a w = Inr (0, w\<lparr>tw_calls := calls, tw_ksks := ks',
      tw_psocks := (tw_psocks w)(p \<mapsto> ps\<lparr>tp_tx_in_use := True, tp_tx_wait_queue := q'\<rparr>)\<rparr>)"
proof -
  have mo: "msg_ok m" using fresh_msg [OF m(1)] by simp
  let ?ks = "(tw_ksks w)(a \<mapsto> k\<lparr>tk_write_queue := [], tk_wait_more := False\<rparr>)"
  obtain m' c' where wq: "write_queue (Inr (send c)) (tw_calls w) [m] 0 ?ks = Inr (0, c', [m'], ?ks, [])"
    using write_queue_refused [OF mo, of "send c" "tw_calls w" ?ks] no by blast
  show ?thesis
    using write_msgs_single [where send = send, OF k m(2) ps l wq] l(2)
    by (intro exI [of _ c'] exI [of _ "tw_ksks (tls_write_space a (w\<lparr>tw_ksks := ?ks\<rparr>))"] exI [of _ "[m']"])
       (simp add: write_msgs_out_def tls_write_space_def upd_ksk_def fun_upd_idem)
qed

text \<open>Up to the writing, sending does the same in both cases.\<close>

definition finished :: "nat \<Rightarrow> nat \<Rightarrow> tls_build \<Rightarrow> tls_msg" where
  "finished a p s = new_tls_msg\<lparr>tm_bufs := tb_bufs s, tm_ksk := Some a, tm_psock := Some p\<rparr>"

lemma snd_case: "(\<lambda>(_, w). w) = snd"
  by auto

lemma complete_single:
  assumes k: "tw_ksks w a = Some k" "tk_write_queue k = []" and rs: "r_heap (tw_rk w) a = Some rs" "k_last_psock rs = Some p"
    and flags: "flags AND MSG_BATCH = 0"
  shows "tls_complete C a flags (Some new_tls_msg) s w = map_sum id snd (rakaia_write_msgs (tc_send C) a
      (w\<lparr>tw_ksks := (tw_ksks w)(a \<mapsto> k\<lparr>tk_write_queue := [finished a p s], tk_seq_skb := None\<rparr>)\<rparr>))"
  using k rs flags
  by (simp add: tls_complete_def tls_ksk_at_def deref_def upd_ksk_def finished_def snd_case)

lemma send_to_write:
  assumes idle: "tls_idle a p c out wmem w" and C: "generous C"
    and flags: "flags AND MSG_MORE = 0" "flags AND MSG_BATCH = 0" "flags AND MSG_SPLICE_PAGES = 0"
    and msg: "msg \<noteq> []" and n: "2 * length msg < n"
  obtains k s where "fresh_ok (finished a p s)" "msg_all (finished a p s) = msg"
    "tk_write_queue k = [finished a p s]" "tk_seq_skb k = None" "tk_err k = 0" "tk_wmem_queued k = wmem + int (length msg)"
    "tls_sendmsg n C a flags msg w =
       (case rakaia_write_msgs (tc_send C) a (w\<lparr>tw_ksks := (tw_ksks w)(a \<mapsto> k)\<rparr>) of
          Inl f \<Rightarrow> Some (Inl f) | Inr (_, w3) \<Rightarrow> tls_pull n C a True (int (length msg)) w3)"
proof -
  from idle obtain k rs where ok: "tls_ok w"
    and k: "tw_ksks w a = Some k" "tk_err k = 0" "tk_seq_skb k = None" "tk_write_queue k = []" "tk_wmem_queued k = wmem"
    and rs: "r_heap (tw_rk w) a = Some rs" "k_last_psock rs = Some p" unfolding tls_idle_def by blast
  have dg: "tk_type k = SOCK_DGRAM" using tls_okD(3) [OF ok k(1)] by (simp add: ksk_ok_def)
  let ?s = "tls_build_of k new_tls_msg msg 2"
  have s0: "tb_left ?s = msg" "tb_bufs ?s = [[]]" "tb_at ?s = 0" "tb_copied ?s = 0"
    by (simp_all add: tls_build_of_def new_tls_msg_def)
  obtain s where s: "tls_copy_loop n C flags a ?s w = Some (Inr (0, s, wmem_add a (int (length msg)) w))"
    "build_path msg ?s s" "tb_left s = []"
    using copy_loop_generous [OF C flags(3), of ?s n a w] s0 n by (auto simp: MAX_SKB_FRAGS_def)
  then have b: "bufs_ok (tb_bufs s) (tb_at s)" "last (tb_bufs s) \<noteq> []" "all_data (tb_bufs s) = msg"
    "tb_copied s = length msg"
    using s0 msg by (simp_all add: build_path_def)
  have "fresh_ok (new_tls_msg\<lparr>tm_bufs := tb_bufs s\<rparr>)"
    by (rule bufs_ok_fresh(2) [OF b(1,2)]) (simp add: new_tls_msg_def)
  then have fr: "fresh_ok (finished a p s)" by (simp add: fresh_ok_def finished_def)
  let ?k = "k\<lparr>tk_wmem_queued := wmem + int (length msg), tk_pfrag := tb_pfrag s\<rparr>"
  let ?w = "w\<lparr>tw_ksks := (tw_ksks w)(a \<mapsto> ?k)\<rparr>"
  let ?k2 = "?k\<lparr>tk_write_queue := [finished a p s], tk_seq_skb := None\<rparr>"
  have w1: "upd_ksk a (\<lambda>k. k\<lparr>tk_pfrag := tb_pfrag s\<rparr>) (wmem_add a (int (length msg)) w) = ?w"
    using k(1,5) by (simp add: wmem_add_def upd_ksk_def)
  have c: "tls_complete C a flags (Some new_tls_msg) s ?w =
      map_sum id snd (rakaia_write_msgs (tc_send C) a (w\<lparr>tw_ksks := (tw_ksks w)(a \<mapsto> ?k2)\<rparr>))"
    using complete_single [of ?w a ?k rs p flags C s] k(4) rs flags(2) by simp
  have "tls_alloc_head n C a 1 w = Some (Inr (0, 2, w))"
    using n C by (cases n) (simp_all add: generous_def)
  moreover have "tls_send_start n C a flags (Some new_tls_msg) ?s w =
      (case rakaia_write_msgs (tc_send C) a (w\<lparr>tw_ksks := (tw_ksks w)(a \<mapsto> ?k2)\<rparr>) of
          Inl f \<Rightarrow> Some (Inl f) | Inr (_, w3) \<Rightarrow> tls_pull n C a True (int (length msg)) w3)"
    using k(1) dg flags(1) s(1) w1 c b(4)
    by (simp add: tls_send_start_def tls_ksk_at_def tls_eor_def split: sum.split)
  ultimately have "tls_sendmsg n C a flags msg w =
      (case rakaia_write_msgs (tc_send C) a (w\<lparr>tw_ksks := (tw_ksks w)(a \<mapsto> ?k2)\<rparr>) of
          Inl f \<Rightarrow> Some (Inl f) | Inr (_, w3) \<Rightarrow> tls_pull n C a True (int (length msg)) w3)"
    using k(1-3) C msg by (simp add: tls_sendmsg_def tls_ksk_at_def Let_def generous_def)
  then show thesis using that [of s ?k2] fr b(3) k(2) by (simp add: finished_def msg_all_def)
qed

text \<open>The pull that ends a send.\<close>

lemma idle_pull:
  assumes idle: "tls_idle a p c out wmem w" and rnd: "draws_differ (tc_rnd C)"
  obtains n1 where "\<forall>n\<ge>n1. \<exists>rk' rs. r_heap rk' a = Some rs \<and> k_last_psock rs = Some p \<and>
    (\<forall>w3 ret. tw_rk w3 = tw_rk w \<longrightarrow> tls_pull n C a True ret w3 = Some (Inr (ret, w3\<lparr>tw_rk := rk'\<rparr>)))"
proof -
  from idle obtain k rs where ok: "tls_ok w" and k: "tw_ksks w a = Some k"
    and rs: "r_heap (tw_rk w) a = Some rs" "k_last_psock rs = Some p" unfolding tls_idle_def by blast
  have a: "Some a \<in> set (r_socks (tw_rk w))" by (rule tls_okD(2) [OF ok k])
  obtain i ks where "at_slot (tw_rk w) i a ks" using mem_at_slot [OF sched_invD(1) [OF tls_okD(1) [OF ok]] a] by blast
  then obtain n1 where n1: "\<And>n. n1 \<le> n \<Longrightarrow>
      \<exists>r rk'. rakaia_pull n (tc_rnd C) 0 (tc_sched_ok C) a (tw_rk w) = Some (Inr (r, rk'))"
    using pull_ends [OF tls_okD(1) [OF ok] rnd] by blast
  show thesis
  proof (rule that [of n1], intro allI impI)
    fix n assume "n1 \<le> n"
    from n1 [OF this] obtain r rk' where
      pull: "rakaia_pull n (tc_rnd C) 0 (tc_sched_ok C) a (tw_rk w) = Some (Inr (r, rk'))" by blast
    from tls_okD(1) [OF ok] a pull obtain rs' where rs': "r_heap rk' a = Some rs'" "k_last_psock rs' = Some p"
    proof (rule pull_frame)
      fix r2 rk2 assume "Inr (r, rk') = (Inr (r2, rk2) :: fault + int \<times> rakaia)"
        and h: "\<forall>b. map_option k_last_psock (r_heap rk2 b) = map_option k_last_psock (r_heap (tw_rk w) b)"
      then have "map_option k_last_psock (r_heap rk' a) = Some (Some p)" using rs by simp
      then show thesis using that by auto
    qed
    have "tls_pull n C a True ret w3 = Some (Inr (ret, w3\<lparr>tw_rk := rk'\<rparr>))" if "tw_rk w3 = tw_rk w" for ret and w3 :: tls_world
      using that pull by (simp add: tls_pull_def)
    with rs' show "\<exists>rk' rs. r_heap rk' a = Some rs \<and> k_last_psock rs = Some p \<and>
      (\<forall>w3 ret. tw_rk w3 = tw_rk w \<longrightarrow> tls_pull n C a True ret w3 = Some (Inr (ret, w3\<lparr>tw_rk := rk'\<rparr>)))" by blast
  qed
qed

lemma idle_conn:
  assumes "tls_idle a p c out wmem w"
  obtains ps l where "tw_psocks w p = Some ps" "\<not> tp_tx_in_use ps" "tp_tx_wait_queue ps = []" "tp_sk ps = Some c"
    "tw_lower w c = Some l" "tl_out l = out"
proof -
  from assms obtain rs ps l where ok: "tls_ok w" and rs: "r_heap (tw_rk w) a = Some rs" "k_last_psock rs = Some p"
    and ps: "tw_psocks w p = Some ps" "\<not> tp_tx_in_use ps" "tp_sk ps = Some c"
    and l: "tw_lower w c = Some l" "tl_out l = out" unfolding tls_idle_def by blast
  moreover have "tp_tx_wait_queue ps = []" using tls_okD(4) [OF ok rs] ps by (auto simp: conn_ok_def)
  ultimately show thesis using that by blast
qed

lemma send_idle:
  assumes idle: "tls_idle a p c out wmem w"
    and C: "generous C" "laws (tc_send C)" "sock_willing (tc_send C c)" "draws_differ (tc_rnd C)"
    and flags: "flags AND MSG_MORE = 0" "flags AND MSG_BATCH = 0" "flags AND MSG_SPLICE_PAGES = 0"
    and msg: "msg \<noteq> []" "length msg < 2 ^ 31"
  shows "\<exists>n0. \<forall>n\<ge>n0. \<exists>w'. tls_sendmsg n C a flags msg w = Some (Inr (int (length msg), w')) \<and>
    tls_idle a p c (out @ msg) wmem w' \<and> tw_psocks w' = tw_psocks w \<and> (\<forall>c'. c' \<noteq> c \<longrightarrow> tw_lower w' c' = tw_lower w c')"
proof -
  have ok: "tls_ok w" "tw_ksks w a \<noteq> None" using idle by (auto simp: tls_idle_def)
  obtain ps l where ps: "tw_psocks w p = Some ps" "\<not> tp_tx_in_use ps" "tp_tx_wait_queue ps = []" "tp_sk ps = Some c"
    "tw_lower w c = Some l" "tl_out l = out" by (rule idle_conn [OF idle])
  obtain n1 where n1: "\<forall>n\<ge>n1. \<exists>rk' rs. r_heap rk' a = Some rs \<and> k_last_psock rs = Some p \<and>
    (\<forall>w3 ret. tw_rk w3 = tw_rk w \<longrightarrow> tls_pull n C a True ret w3 = Some (Inr (ret, w3\<lparr>tw_rk := rk'\<rparr>)))"
    by (rule idle_pull [OF idle C(4)])
  have "\<exists>w'. tls_sendmsg n C a flags msg w = Some (Inr (int (length msg), w')) \<and>
      tls_idle a p c (out @ msg) wmem w' \<and> tw_psocks w' = tw_psocks w \<and> (\<forall>c'. c' \<noteq> c \<longrightarrow> tw_lower w' c' = tw_lower w c')"
    if n: "max n1 (Suc (2 * length msg)) \<le> n" for n
  proof -
    have n2: "2 * length msg < n" using n by simp
    obtain k s where s: "fresh_ok (finished a p s)" "msg_all (finished a p s) = msg"
      and k: "tk_write_queue k = [finished a p s]" "tk_seq_skb k = None" "tk_err k = 0" "tk_wmem_queued k = wmem + int (length msg)"
      and run: "tls_sendmsg n C a flags msg w =
        (case rakaia_write_msgs (tc_send C) a (w\<lparr>tw_ksks := (tw_ksks w)(a \<mapsto> k)\<rparr>) of
          Inl f \<Rightarrow> Some (Inl f) | Inr (_, w3) \<Rightarrow> tls_pull n C a True (int (length msg)) w3)"
      by (rule send_to_write [OF idle C(1) flags msg(1) n2])
    let ?k = "k\<lparr>tk_write_queue := [], tk_wait_more := False, tk_wmem_queued := tk_wmem_queued k - int (length msg),
        tk_write_space := tk_write_space k + 1\<rparr>"
    obtain r calls where wr: "rakaia_write_msgs (tc_send C) a (w\<lparr>tw_ksks := (tw_ksks w)(a \<mapsto> k)\<rparr>) =
      Inr (r, w\<lparr>tw_calls := calls, tw_ksks := (tw_ksks w)(a \<mapsto> ?k),
        tw_lower := (tw_lower w)(c \<mapsto> l\<lparr>tl_out := out @ msg\<rparr>)\<rparr>)"
      using write_msgs_one [of "w\<lparr>tw_ksks := (tw_ksks w)(a \<mapsto> k)\<rparr>" a k "finished a p s" p ps c l "tc_send C"]
        k s ps C(2,3) msg(2) by (auto simp: laws_def finished_def)
    obtain rk' rs where rk: "r_heap rk' a = Some rs" "k_last_psock rs = Some p"
      "\<And>w3 ret. tw_rk w3 = tw_rk w \<Longrightarrow> tls_pull n C a True ret w3 = Some (Inr (ret, w3\<lparr>tw_rk := rk'\<rparr>))"
      using n1 [rule_format, of n] n by auto
    let ?w' = "w\<lparr>tw_calls := calls, tw_ksks := (tw_ksks w)(a \<mapsto> ?k),
        tw_lower := (tw_lower w)(c \<mapsto> l\<lparr>tl_out := out @ msg\<rparr>), tw_rk := rk'\<rparr>"
    have send: "tls_sendmsg n C a flags msg w = Some (Inr (int (length msg), ?w'))"
      using run wr rk(3) by simp
    have "build_law C" using C(1) by (simp add: generous_def)
    from tls_sendmsg_safe [OF this C(2) ok send] have "tls_ok ?w'" by (simp add: safe_result_def)
    then have "tls_idle a p c (out @ msg) wmem ?w'" using rk(1,2) ps k by (simp add: tls_idle_def)
    then show ?thesis using send by simp
  qed
  then show ?thesis by blast
qed

lemma send_refused:
  assumes idle: "tls_idle a p c out wmem w" and C: "generous C" "draws_differ (tc_rnd C)"
    and no: "\<And>n bs. tc_send C c n bs = - EAGAIN"
    and flags: "flags AND MSG_MORE = 0" "flags AND MSG_BATCH = 0" "flags AND MSG_SPLICE_PAGES = 0" and msg: "msg \<noteq> []"
    and sole: "\<forall>p' ps'. p' \<noteq> p \<longrightarrow> tw_psocks w p' = Some ps' \<longrightarrow> tp_sk ps' \<noteq> Some c"
  shows "\<exists>n0. \<forall>n\<ge>n0. \<exists>w'. tls_sendmsg n C a flags msg w = Some (Inr (int (length msg), w')) \<and> frozen p c out w'"
proof -
  obtain ps l where ps: "tw_psocks w p = Some ps" "\<not> tp_tx_in_use ps" "tp_tx_wait_queue ps = []" "tp_sk ps = Some c"
    "tw_lower w c = Some l" "tl_out l = out" by (rule idle_conn [OF idle])
  obtain n1 where n1: "\<forall>n\<ge>n1. \<exists>rk' rs. r_heap rk' a = Some rs \<and> k_last_psock rs = Some p \<and>
    (\<forall>w3 ret. tw_rk w3 = tw_rk w \<longrightarrow> tls_pull n C a True ret w3 = Some (Inr (ret, w3\<lparr>tw_rk := rk'\<rparr>)))"
    by (rule idle_pull [OF idle C(2)])
  have "\<exists>w'. tls_sendmsg n C a flags msg w = Some (Inr (int (length msg), w')) \<and> frozen p c out w'"
    if n: "max n1 (Suc (2 * length msg)) \<le> n" for n
  proof -
    have n2: "2 * length msg < n" using n by simp
    obtain k s where s: "fresh_ok (finished a p s)" and k: "tk_write_queue k = [finished a p s]"
      and run: "tls_sendmsg n C a flags msg w =
        (case rakaia_write_msgs (tc_send C) a (w\<lparr>tw_ksks := (tw_ksks w)(a \<mapsto> k)\<rparr>) of
          Inl f \<Rightarrow> Some (Inl f) | Inr (_, w3) \<Rightarrow> tls_pull n C a True (int (length msg)) w3)"
      by (rule send_to_write [OF idle C(1) flags msg n2])
    obtain calls ks' q' where wr: "rakaia_write_msgs (tc_send C) a (w\<lparr>tw_ksks := (tw_ksks w)(a \<mapsto> k)\<rparr>) =
      Inr (0, w\<lparr>tw_calls := calls, tw_ksks := ks',
        tw_psocks := (tw_psocks w)(p \<mapsto> ps\<lparr>tp_tx_in_use := True, tp_tx_wait_queue := q'\<rparr>)\<rparr>)"
      using write_msgs_refused [of "w\<lparr>tw_ksks := (tw_ksks w)(a \<mapsto> k)\<rparr>" a k "finished a p s" p ps c l "tc_send C"]
        k s ps no by (auto simp: finished_def)
    obtain rk' where rk: "\<And>w3 ret. tw_rk w3 = tw_rk w \<Longrightarrow> tls_pull n C a True ret w3 = Some (Inr (ret, w3\<lparr>tw_rk := rk'\<rparr>))"
      using n1 [rule_format, of n] n by auto
    have "frozen p c out (w\<lparr>tw_calls := calls, tw_ksks := ks',
        tw_psocks := (tw_psocks w)(p \<mapsto> ps\<lparr>tp_tx_in_use := True, tp_tx_wait_queue := q'\<rparr>), tw_rk := rk'\<rparr>)"
      using ps sole by (simp add: frozen_def)
    then show ?thesis using run wr rk by simp
  qed
  then show ?thesis by blast
qed

lemma tls_sample_idle: "tls_idle 3 100 50 [] 0 tls_sample"
  using tls_sample_ok tls_sample_last
  by (simp add: tls_idle_def new_tls_ksk_def zero_tls_psock_def tls_tcp_def)

text \<open>
  C13. A send of a message below 2 GB for a connection that is idle, when memory is there and
  the TLS socket takes at least a byte of every call, returns the length of the message; the
  connection's socket has then been given exactly the message after what it had before, in
  whatever pieces it took it, no other connection has changed, the write memory is given back,
  and socket and connection are idle again.
\<close>

theorem tls_sendmsg_completes:
  assumes "tls_idle a p c out wmem w"
    and "generous C" "laws (tc_send C)" "sock_willing (tc_send C c)" "draws_differ (tc_rnd C)"
    and "flags AND MSG_MORE = 0" "flags AND MSG_BATCH = 0" "flags AND MSG_SPLICE_PAGES = 0"
    and "msg \<noteq> []" "length msg < 2 ^ 31"
  shows "\<exists>n0. \<forall>n\<ge>n0. \<exists>w'. tls_sendmsg n C a flags msg w = Some (Inr (int (length msg), w')) \<and>
    tls_idle a p c (out @ msg) wmem w' \<and> tw_psocks w' = tw_psocks w \<and> (\<forall>c'. c' \<noteq> c \<longrightarrow> tw_lower w' c' = tw_lower w c')"
  by (rule send_idle [OF assms])

theorem tls_sendmsg_completes_witness:
  "\<exists>n w'. tls_sendmsg n (tls_easy (takes 2)) 3 0 [1, 2, 3, 4, 5, 6, 7] tls_sample = Some (Inr (7, w')) \<and>
     map_option tl_out (tw_lower w' 50) = Some [1, 2, 3, 4, 5, 6, 7]"
proof -
  obtain n w' where "tls_sendmsg n (tls_easy (takes 2)) 3 0 [1, 2, 3, 4, 5, 6, 7] tls_sample = Some (Inr (7, w'))"
    "tls_idle 3 100 50 [1, 2, 3, 4, 5, 6, 7] 0 w'"
    using tls_sendmsg_completes [where C = "tls_easy (takes 2)" and flags = 0 and msg = "[1, 2, 3, 4, 5, 6, 7]", OF tls_sample_idle] by auto
  then show ?thesis by (auto simp: tls_idle_def)
qed

section \<open>An interrupted write\<close>

text \<open>The queue of connection \<open>p\<close> is well formed; \<open>bs\<close> is what was sent and what is left to send.\<close>

definition tls_stream :: "nat \<Rightarrow> nat \<Rightarrow> bytes \<Rightarrow> tls_world \<Rightarrow> bool" where
  "tls_stream p c bs w \<longleftrightarrow>
     (\<exists>ps l. tw_psocks w p = Some ps \<and> tp_sk ps = Some c \<and> tw_lower w c = Some l \<and>
        (\<forall>m \<in> set (tp_tx_wait_queue ps). msg_ok m) \<and> owners_live (tw_ksks w) (tp_tx_wait_queue ps) \<and>
        tl_out l @ queue_left (tp_tx_wait_queue ps) = bs)"

fun tls_attempts :: "(nat \<Rightarrow> nat \<Rightarrow> bytes \<Rightarrow> int) list \<Rightarrow> nat \<Rightarrow> tls_world \<Rightarrow> fault + tls_world" where
  "tls_attempts [] p w = Inr w"
| "tls_attempts (send # ss) p w = bind_fault (write_to_csock send p w) (\<lambda>(_, w1). tls_attempts ss p w1)"

lemma tls_attempt:
  assumes st: "tls_stream p c bs w" and law: "sock_law (send c)" "sock_soft (send c)"
  obtains r w' where "write_to_csock send p w = Inr (r, w')" "tls_stream p c bs w'"
    "sock_willing (send c) \<longrightarrow> map_option tl_out (tw_lower w' c) = Some bs"
proof -
  from st obtain ps l where ps: "tw_psocks w p = Some ps" "tp_sk ps = Some c" "tw_lower w c = Some l"
    and q: "\<forall>m \<in> set (tp_tx_wait_queue ps). msg_ok m" "owners_live (tw_ksks w) (tp_tx_wait_queue ps)"
    and bs: "tl_out l @ queue_left (tp_tx_wait_queue ps) = bs" unfolding tls_stream_def by blast
  obtain r q' ks' calls out where e: "write_to_csock send p w = Inr (r, w\<lparr>tw_calls := calls, tw_ksks := ks',
       tw_psocks := (tw_psocks w)(p \<mapsto> ps\<lparr>tp_tx_wait_queue := q'\<rparr>),
       tw_lower := (tw_lower w)(c \<mapsto> l\<lparr>tl_out := tl_out l @ out\<rparr>)\<rparr>)" (is "_ = Inr (r, ?w)")
    "owners_live ks' q'" "write_queue_post (send c) (tp_tx_wait_queue ps) 0 r q' out"
    by (rule write_to_csock_effect [where send = send, OF ps q law(1)])
  have left: "queue_left (tp_tx_wait_queue ps) = out @ queue_left q'" "\<forall>m \<in> set q'. msg_ok m"
    "sock_willing (send c) \<Longrightarrow> q' = []"
    using e(3) law(2) by (auto simp: write_queue_post_def)
  have "tls_stream p c bs ?w" using ps e(2) left(1,2) bs by (simp add: tls_stream_def)
  moreover have "map_option tl_out (tw_lower ?w c) = Some bs" if "sock_willing (send c)"
    using left(1) left(3) [OF that] bs by simp
  ultimately show thesis using that e(1) by blast
qed

text \<open>
  C15. Calling \<open>write_to_csock\<close> again goes on at the byte where the last attempt stopped: over
  any sequence of attempts in which the TLS socket takes what it likes and refuses the rest
  with \<open>EAGAIN\<close>, what it was given and what is left to send together stay the same bytes in
  the same order, and an attempt that is not refused sends all of them.
\<close>

theorem tls_write_resumes:
  assumes "tls_stream p c bs w" "\<forall>send \<in> set ss. sock_law (send c) \<and> sock_soft (send c)"
  shows "\<exists>w'. tls_attempts ss p w = Inr w' \<and> tls_stream p c bs w' \<and>
    (ss \<noteq> [] \<and> sock_willing (last ss c) \<longrightarrow> map_option tl_out (tw_lower w' c) = Some bs)"
  using assms
proof (induction ss arbitrary: w)
  case (Cons send ss)
  obtain r w1 where w1: "write_to_csock send p w = Inr (r, w1)" "tls_stream p c bs w1"
    "sock_willing (send c) \<longrightarrow> map_option tl_out (tw_lower w1 c) = Some bs"
    by (rule tls_attempt [where send = send, OF Cons.prems(1)]) (use Cons.prems(2) in auto)
  from Cons.IH [OF w1(2)] Cons.prems(2) obtain w' where "tls_attempts ss p w1 = Inr w'" "tls_stream p c bs w'"
    "ss \<noteq> [] \<and> sock_willing (last ss c) \<longrightarrow> map_option tl_out (tw_lower w' c) = Some bs" by auto
  then show ?case using w1 by (cases "ss = []") auto
qed simp

definition tls_waiting :: tls_world where
  "tls_waiting = tls_sample\<lparr>tw_psocks := [100 \<mapsto> zero_tls_psock\<lparr>tp_sk := Some 50, tp_tx_in_use := True, tp_tx_wait_queue :=
     [new_tls_msg\<lparr>tm_bufs := [[(0, 0, [1, 2, 3]), (1, 0, [4])], [(2, 0, [5, 6])]], tm_ksk := Some 3, tm_psock := Some 100\<rparr>,
      new_tls_msg\<lparr>tm_bufs := [[(3, 0, [7])]], tm_ksk := Some 3, tm_psock := Some 100\<rparr>]\<rparr>]\<rparr>"

text \<open>A socket that takes two bytes in its first call and nothing later.\<close>

definition takes_once :: "nat \<Rightarrow> nat \<Rightarrow> bytes \<Rightarrow> int" where
  "takes_once c n bs = (if n = 0 then takes 2 c n bs else - EAGAIN)"

theorem tls_write_resumes_witness:
  "\<exists>w'. tls_attempts [takes_once, takes 0, takes 3] 100 tls_waiting = Inr w' \<and>
     map_option tl_out (tw_lower w' 50) = Some [1, 2, 3, 4, 5, 6, 7]"
proof -
  let ?m1 = "new_tls_msg\<lparr>tm_bufs := [[(0, 0, [1, 2, 3]), (1, 0, [4])], [(2, 0, [5, 6])]], tm_ksk := Some 3, tm_psock := Some 100\<rparr>"
  let ?m2 = "new_tls_msg\<lparr>tm_bufs := [[(3, 0, [7])]], tm_ksk := Some 3, tm_psock := Some 100\<rparr>"
  have "fresh_ok ?m1" "fresh_ok ?m2" by (simp_all add: fresh_ok_def buf_ok_def MAX_SKB_FRAGS_def new_tls_msg_def)
  note f = fresh_msg [OF this(1)] fresh_msg [OF this(2)]
  have "queue_left [?m1, ?m2] = [1, 2, 3, 4, 5, 6, 7]"
    using f by (simp add: msg_all_def buf_data_def)
  then have st: "tls_stream 100 50 [1, 2, 3, 4, 5, 6, 7] tls_waiting"
    using f by (simp add: tls_stream_def tls_waiting_def tls_tcp_def owners_live_def new_tls_msg_def)
  have "sock_law (takes_once 50)" "sock_soft (takes_once 50)"
    by (auto simp: sock_law_def sock_soft_def takes_once_def takes_def)
  with tls_write_resumes [OF st, of "[takes_once, takes 0, takes 3]"] show ?thesis by auto
qed

section \<open>A connection that refused a byte\<close>

text \<open>
  C30. When the TLS socket answers \<open>EAGAIN\<close>, the send reports the whole message as sent, and the
  connection is lost for sending: whatever runs afterwards, further sends on any socket, splice
  ends, the work item, write-space events and message deliveries, with any answers of the
  kernel and of the TLS sockets, the socket of the connection is never given another byte.
\<close>

theorem tls_refused_never_resumes:
  assumes "tls_idle a p c out wmem w" "generous C" "draws_differ (tc_rnd C)"
    and "\<And>n bs. tc_send C c n bs = - EAGAIN"
    and "flags AND MSG_MORE = 0" "flags AND MSG_BATCH = 0" "flags AND MSG_SPLICE_PAGES = 0" and "msg \<noteq> []"
    and "\<forall>p' ps'. p' \<noteq> p \<longrightarrow> tw_psocks w p' = Some ps' \<longrightarrow> tp_sk ps' \<noteq> Some c"
  shows "\<exists>n0. \<forall>n\<ge>n0. \<exists>w1. tls_sendmsg n C a flags msg w = Some (Inr (int (length msg), w1)) \<and>
    (\<forall>w2. tls_step\<^sup>*\<^sup>* w1 w2 \<longrightarrow> map_option tl_out (tw_lower w2 c) = Some out)"
proof -
  have "map_option tl_out (tw_lower w2 c) = Some out" if "frozen p c out w1" "tls_step\<^sup>*\<^sup>* w1 w2" for w1 w2
    using frz.run_keeps [OF that(2,1)] by (simp add: frozen_def)
  then show ?thesis using send_refused [OF assms] by meson
qed

theorem tls_refused_never_resumes_witness:
  "\<exists>n w1. tls_sendmsg n (tls_easy (takes 0)) 3 0 [1, 2, 3] tls_sample = Some (Inr (3, w1)) \<and>
     (\<forall>w2. tls_step\<^sup>*\<^sup>* w1 w2 \<longrightarrow> map_option tl_out (tw_lower w2 50) = Some [])"
proof -
  have "tc_send (tls_easy (takes 0)) 50 n bs = - EAGAIN" for n bs by (simp add: takes_def)
  moreover have "\<forall>p' ps'. p' \<noteq> 100 \<longrightarrow> tw_psocks tls_sample p' = Some ps' \<longrightarrow> tp_sk ps' \<noteq> Some 50"
    by (simp add: tls_sample_def)
  ultimately obtain n0 where "\<forall>n\<ge>n0. \<exists>w1. tls_sendmsg n (tls_easy (takes 0)) 3 0 [1, 2, 3] tls_sample =
      Some (Inr (int (length [1 :: u8, 2, 3]), w1)) \<and> (\<forall>w2. tls_step\<^sup>*\<^sup>* w1 w2 \<longrightarrow> map_option tl_out (tw_lower w2 50) = Some [])"
    using tls_refused_never_resumes [where C = "tls_easy (takes 0)" and flags = 0 and msg = "[1, 2, 3]", OF tls_sample_idle]
    by auto
  from this [rule_format, OF order_refl] show ?thesis by auto
qed

section \<open>The send side never faults\<close>









section \<open>Detaching\<close>

text \<open>Sending leaves the callbacks that wait for a grace period and the global lock alone.\<close>

interpretation no_rcu: conn_inv "\<lambda>w. tw_rcu w = []"
  by unfold_locales (simp_all add: set_tls_psock_def upd_lower_def split: option.split)

interpretation locked: conn_inv tw_lock
  by unfold_locales (simp_all add: set_tls_psock_def upd_lower_def split: option.split)

definition tls_attached :: "(u32 \<Rightarrow> u32 \<Rightarrow> u32 \<Rightarrow> u32) \<Rightarrow> lower_cb \<Rightarrow> nat \<Rightarrow> tls_lower \<Rightarrow> tls_psock" where
  "tls_attached jhash cb c l = zero_tls_psock\<lparr>tp_hash_id := hash_tcp_tuple jhash (tl_daddr l) (tl_dport l),
     tp_sk := Some c, tp_strp := zero_strp (Some (lw_view (tl_base l))), tp_save_data_ready := cb,
     tp_save_write_space := lw_write_space (tl_base l), tp_save_state_change := lw_state_change (tl_base l)\<rparr>"

definition tls_taken :: "nat \<Rightarrow> tls_lower \<Rightarrow> tls_lower" where
  "tls_taken p l = l\<lparr>tl_base := (tl_base l)\<lparr>lw_user_data := Some p, lw_refs := lw_refs (tl_base l) + 1\<rparr>,
     tl_saved_data_ready := Some PsockDataReady\<rparr>"

lemma tls_attach_ok:
  fixes rcv :: "sk_buff \<Rightarrow> 'u \<Rightarrow> 'u"
  assumes "tw_lower w c = Some l" "attachable (tl_base l)" "lw_user_data (tl_base l) = None"
    "tl_saved_data_ready l = Some cb" "\<not> tw_lock w"
  obtains w1 where "tls_attach jhash rcv (Some p) (Some c) w = Some (Inr (0, w1))"
    "tw_psocks w1 p = Some (tls_attached jhash cb c l)" "tw_lower w1 c = Some (tls_taken p l)" "tw_rcu w1 = tw_rcu w"
proof -
  obtain H where "strp_init (Some (lw_view (tl_base l))) (Some (tls_callbacks rcv)) =
      Inr (zero_strp (Some (lw_view (tl_base l))), H :: (unit, 'u) strp_hooks)"
    by (simp add: strp_init_def tls_callbacks_def)
  then show thesis
    using assms that by (simp add: tls_attach_def tls_lower_at_def set_tls_psock_def Let_def tls_attached_def tls_taken_def)
qed

lemma tls_free_wired:
  assumes "wired p (tls_attached jhash cb c l) c (tls_taken p l) w"
  shows "\<exists>w' l'. tls_free_psock p w = Inr w' \<and> tw_psocks w' p = None \<and> tw_lower w' c = Some l' \<and>
    lw_user_data (tl_base l') = None \<and> lw_data_ready (tl_base l') = cb \<and>
    lw_refs (tl_base l') = lw_refs (tl_base l) + 1 \<and> tl_saved_data_ready l' = Some PsockDataReady"
proof -
  from assms obtain ps l' where ps: "tw_psocks w p = Some ps" "tw_lower w c = Some l'"
    and eq: "conn_static ps = conn_static (tls_attached jhash cb c l)"
    "l'\<lparr>tl_out := []\<rparr> = (tls_taken p l)\<lparr>tl_out := []\<rparr>" by (auto simp: wired_def)
  have sel: "tp_sk ps = Some c" "tp_save_data_ready ps = cb" "tp_save_write_space ps = lw_write_space (tl_base l)"
    "tp_save_state_change ps = lw_state_change (tl_base l)"
    using arg_cong [OF eq(1), of tp_sk] arg_cong [OF eq(1), of tp_save_data_ready]
      arg_cong [OF eq(1), of tp_save_write_space] arg_cong [OF eq(1), of tp_save_state_change]
    by (simp_all add: conn_static_def tls_attached_def)
  have "lw_refs (tl_base l') = lw_refs (tl_base l) + 1" "tl_saved_data_ready l' = Some PsockDataReady"
    using arg_cong [OF eq(2), of "\<lambda>x. lw_refs (tl_base x)"] arg_cong [OF eq(2), of tl_saved_data_ready]
    by (simp_all add: tls_taken_def)
  with ps sel show ?thesis
    by (simp add: tls_free_psock_def tls_psock_at_def tls_lower_at_def Let_def set_tls_psock_def)
qed

text \<open>
  C31. Attaching a TLS connection and, after any sends and receives, releasing it does not give
  the socket back as it was: the receive context of the socket goes on calling the module's
  data-ready callback, which finds no connection and does nothing, so decrypted data is
  announced to nobody; the socket's own data-ready callback is replaced by the one that belongs
  into the receive context; and the reference taken on the socket is never dropped.
\<close>

theorem tls_release_leaves_callback:
  assumes "tw_lower w c = Some l" "attachable (tl_base l)" "lw_user_data (tl_base l) = None"
    and "tl_saved_data_ready l = Some cb" "\<not> tw_lock w" "tw_rcu w = []"
  shows "\<exists>w1. tls_attach jhash rcv (Some p) (Some c) w = Some (Inr (0, w1)) \<and>
    (\<forall>w2. tls_step\<^sup>*\<^sup>* w1 w2 \<longrightarrow>
      (\<exists>w3 w4 l'. tls_release_psock p w2 = Inr w3 \<and> tls_grace_period w3 = Inr w4 \<and> tw_psocks w4 p = None \<and>
         tw_lower w4 c = Some l' \<and> tl_saved_data_ready l' = Some PsockDataReady \<and> tls_psock_data_ready c w4 = Inr w4 \<and>
         lw_data_ready (tl_base l') = cb \<and> lw_refs (tl_base l') = lw_refs (tl_base l) + 1))"
proof -
  obtain w1 where w1: "tls_attach jhash rcv (Some p) (Some c) w = Some (Inr (0, w1))"
    "tw_psocks w1 p = Some (tls_attached jhash cb c l)" "tw_lower w1 c = Some (tls_taken p l)" "tw_rcu w1 = []"
    by (rule tls_attach_ok [where rcv = rcv, OF assms(1-5)]) (use assms(6) in simp)
  then have wired: "wired p (tls_attached jhash cb c l) c (tls_taken p l) w1" by (simp add: wired_def)
  have "\<exists>w3 w4 l'. tls_release_psock p w2 = Inr w3 \<and> tls_grace_period w3 = Inr w4 \<and> tw_psocks w4 p = None \<and>
      tw_lower w4 c = Some l' \<and> tl_saved_data_ready l' = Some PsockDataReady \<and> tls_psock_data_ready c w4 = Inr w4 \<and>
      lw_data_ready (tl_base l') = cb \<and> lw_refs (tl_base l') = lw_refs (tl_base l) + 1"
    if run: "tls_step\<^sup>*\<^sup>* w1 w2" for w2
  proof -
    let ?w = "w2\<lparr>tw_net_list := remove1 p (tw_net_list w2), tw_net_count := tw_net_count w2 - 1, tw_rcu := []\<rparr>"
    have r: "tw_rcu w2 = []" by (rule no_rcu.run_keeps [OF run w1(4)])
    have wd: "wired p (tls_attached jhash cb c l) c (tls_taken p l) w2" by (rule wire.run_keeps [OF run wired])
    then have "wired p (tls_attached jhash cb c l) c (tls_taken p l) ?w" by (simp add: wired_def)
    from tls_free_wired [OF this] obtain w4 l' where w4: "tls_free_psock p ?w = Inr w4" "tw_psocks w4 p = None"
      "tw_lower w4 c = Some l'" "lw_user_data (tl_base l') = None" "lw_data_ready (tl_base l') = cb"
      "lw_refs (tl_base l') = lw_refs (tl_base l) + 1" "tl_saved_data_ready l' = Some PsockDataReady" by blast
    have "tls_release_psock p w2 = Inr (?w\<lparr>tw_rcu := [p]\<rparr>)"
      using wd r by (auto simp: tls_release_psock_def tls_psock_at_def wired_def)
    moreover have "tls_grace_period (?w\<lparr>tw_rcu := [p]\<rparr>) = Inr w4" using w4(1) by (simp add: tls_grace_period_def)
    moreover have "tls_psock_data_ready c w4 = Inr w4"
      using w4(3,4) by (simp add: tls_psock_data_ready_def tls_lower_at_def)
    ultimately show ?thesis using w4 by blast
  qed
  then show ?thesis using w1(1) by blast
qed

definition tls_detached :: tls_world where
  "tls_detached = tls_sample\<lparr>tw_lower := [50 \<mapsto> tls_tcp (KernelCb 7) None]\<rparr>"

theorem tls_release_leaves_callback_witness:
  "\<exists>w1 w3 w4 l'. tls_attach (\<lambda>a b _. a + b) (\<lambda>_ u. u :: unit) (Some 5) (Some 50) tls_detached = Some (Inr (0, w1)) \<and>
     tls_release_psock 5 w1 = Inr w3 \<and> tls_grace_period w3 = Inr w4 \<and> tw_lower w4 50 = Some l' \<and>
     tl_saved_data_ready l' = Some PsockDataReady \<and> lw_data_ready (tl_base l') = KernelCb 7"
proof -
  have l: "tw_lower tls_detached 50 = Some (tls_tcp (KernelCb 7) None)" "\<not> tw_lock tls_detached" "tw_rcu tls_detached = []"
    by (simp_all add: tls_detached_def tls_sample_def)
  have "attachable (tl_base (tls_tcp (KernelCb 7) None))" "lw_user_data (tl_base (tls_tcp (KernelCb 7) None)) = None"
    "tl_saved_data_ready (tls_tcp (KernelCb 7) None) = Some (KernelCb 7)"
    by (simp_all add: tls_tcp_def tcp_lower_def attachable_def sample_tcp_def)
  from tls_release_leaves_callback [OF l(1) this l(2,3), of "\<lambda>a b _. a + b" "\<lambda>_ u. u :: unit" 5]
  show ?thesis by blast
qed

section \<open>A full table\<close>

text \<open>
  C32. Creating a socket when the table is full fails with \<open>ENOMEM\<close> and keeps the module's lock.
  From then on, whatever is sent and received meanwhile, no socket can be created, no
  connection attached and no live socket released: each of these calls waits for the lock
  forever.
\<close>

theorem tls_full_table_locks:
  assumes "ty = SOCK_DGRAM \<or> ty = SOCK_SEQPACKET" "int NUM_RAKAIA_SOCKETS \<le> r_cnt (tw_rk w)" "\<not> tw_lock w"
  shows "\<exists>w1. tls_create ty RAKAIAPROTO_CONNECTED (Some x) rcvbuf w = Some (Inr (- ENOMEM, w1)) \<and>
    (\<forall>w2. tls_step\<^sup>*\<^sup>* w1 w2 \<longrightarrow>
      tls_create ty RAKAIAPROTO_CONNECTED (Some y) rcvbuf w2 = None \<and>
      (tw_lower w2 c \<noteq> None \<longrightarrow> tls_attach jhash rcv (Some p) (Some c) w2 = None) \<and>
      (r_heap (tw_rk w2) a \<noteq> None \<longrightarrow> tls_release (Some a) w2 = None))"
proof -
  have "tls_create ty RAKAIAPROTO_CONNECTED (Some x) rcvbuf w = Some (Inr (- ENOMEM, w\<lparr>tw_lock := True\<rparr>))"
    using assms by (auto simp: tls_create_def)
  moreover have "tls_create ty RAKAIAPROTO_CONNECTED (Some y) rcvbuf w2 = None \<and>
      (tw_lower w2 c \<noteq> None \<longrightarrow> tls_attach jhash rcv (Some p) (Some c) w2 = None) \<and>
      (r_heap (tw_rk w2) a \<noteq> None \<longrightarrow> tls_release (Some a) w2 = None)"
    if "tls_step\<^sup>*\<^sup>* (w\<lparr>tw_lock := True\<rparr>) w2" for w2
  proof -
    have "tw_lock w2" by (rule locked.run_keeps [OF that]) simp
    then show ?thesis
      using assms(1)
      by (auto simp: tls_create_def tls_attach_def tls_release_def tls_lower_at_def set_tls_psock_def deref_def Let_def)
  qed
  ultimately show ?thesis by blast
qed

theorem tls_full_table_locks_witness:
  "\<exists>w1. tls_create SOCK_DGRAM RAKAIAPROTO_CONNECTED (Some 21) 212992 tls_sample = Some (Inr (- ENOMEM, w1)) \<and>
     tls_create SOCK_DGRAM RAKAIAPROTO_CONNECTED (Some 22) 212992 w1 = None"
proof -
  have "r_cnt (tw_rk tls_sample) = 20" using booted_boot by (simp add: tls_sample_def boot_inv_def)
  with tls_full_table_locks [of SOCK_DGRAM tls_sample 21 212992 22 50 "\<lambda>a b _. a + b" "\<lambda>_ u. u :: unit" 5 3]
  show ?thesis by (auto simp: tls_sample_def NUM_RAKAIA_SOCKETS_def)
qed

end
