(* ===== verification/Spec2Isabelle.thy ===== *)
theory Spec2Isabelle
  imports Path_Theorems Grpc_Paths H2_Streams Sched_Races Tx_Concurrent Tls_Theorems
begin

text \<open>
  \<^bold>\<open>Rakaia: verification of the kernel module.\<close>

  Rakaia is a Linux kernel module that turns many TCP connections into one message-oriented
  socket service. Twenty \<open>rakaia\<close> sockets (one per worker thread) share all attached TCP
  connections; a stream parser cuts each connection into messages, a scheduler hands every
  message to one of the sockets, and replies go back through a per-connection accumulation
  queue. \<open>src/rakaia\<close> has three variants: \<open>plain-tcp\<close> (memcached framing), \<open>grpc\<close> (HTTP/2
  frames) and \<open>tls\<close>.

  \<^bold>\<open>From the wire to a worker.\<close> \<open>strparser.c\<close> is in \<open>Strparser\<close>, over the buffers of \<open>Skbuff\<close>:
  \<open>strp_recv_desc\<close> is \<open>__strp_recv\<close>, one \<open>strp_round\<close> per iteration of its loop, with the
  kernel's buffer functions as the parameter record of the parser. \<open>Framing\<close> has the
  abstract framing of a byte stream, the locale \<open>msg_format\<close> of a parse callback that reads a
  fixed header, and the proof that the loop refines the framing; \<open>Memcached\<close> interprets it on
  \<open>rakaia_parse_func_strparser\<close> and compares that callback with the BPF program of
  \<open>src/bench/servers/memcache-id_kern.c\<close>.

  \<^bold>\<open>The scheduler.\<close> \<open>Rakaia_State\<close> has \<open>struct rakaia\<close> and \<open>struct rakaia_sock\<close> as records in
  an explicit store; \<open>Scheduler\<close> has push, pull, stealing and the free callback of
  \<open>rakaiasock.c\<close>, with the random bytes as arguments. \<open>Sched_Correct\<close> has the invariant
  (bitmaps mirror queues, the waiting list mirrors the waiters bitmap) and that every handler
  keeps it, \<open>Sched_Refine\<close> the simulation of one central pool (locale \<open>simulation\<close>),
  \<open>Sched_Theorems\<close> the properties. \<open>Sched_Concurrent\<close> cuts the handlers at their locks and
  atomic operations into sections of a step relation over any number of threads;
  \<open>Sched_Races\<close> shows what holds under every interleaving, what does not (a lost wake-up), and
  that the sections of one undisturbed thread are the handler.

  \<^bold>\<open>From a worker to the wire.\<close> \<open>Tcp_Send\<close> has the helpers of \<open>tcp_send.c\<close>, \<open>Tx\<close> the copy
  loop of \<open>rakaia_sendmsg\<close> as a program counter machine, the accumulation queue and the send
  loop of \<open>try_send_from_psock\<close>. \<open>Tx_Stream\<close> has contiguity of the TCP write queue and the
  locale \<open>tx_splice_law\<close> both variants interpret, \<open>Tx_Theorems\<close> termination and content,
  \<open>Tx_Concurrent\<close> the interleaving of sending threads.

  \<^bold>\<open>Sockets.\<close> \<open>World\<close> joins scheduler, psocks and lower TCP sockets and has the callbacks,
  \<open>rakaia_sendmsg\<close> and \<open>rakaia_recvmsg\<close>; \<open>Sockets\<close> has creation, attach, release, options and
  module load and unload; \<open>Socket_Theorems\<close> and \<open>Path_Theorems\<close> hold the properties that
  span them.

  \<^bold>\<open>gRPC.\<close> \<open>H2\<close> has the frame parser and the stream table of \<open>grpc/strparser.c\<close>,
  \<open>H2_Control\<close> the control frames and flow control, \<open>H2_Streams\<close> the table laws (locale
  \<open>stream_table\<close>) and the demultiplexing of interleaved streams, \<open>Strp_Heads\<close> the heads the
  shared parser loop hands to a callback, \<open>Grpc_Recv\<close> and \<open>Grpc_Sock\<close> the receive, attach,
  release and send paths that differ, \<open>Grpc_Theorems\<close> and \<open>Grpc_Paths\<close> the properties.

  \<^bold>\<open>TLS.\<close> The TLS variant shares the scheduler, \<open>recvmsg\<close> and all but two functions of the
  stream parser with the plain one and sends differently: \<open>Tls_Send\<close> has its \<open>rakaia_sendmsg\<close>,
  \<open>rakaia_write_msgs\<close> and \<open>write_to_csock\<close> over messages built of a head buffer and a list of
  further ones; \<open>Tls_Write\<close> follows the resume position through short writes, \<open>Tls_Build\<close> the
  buffers under construction, \<open>Tls_Safe\<close> the invariant of the send side. \<open>Tls_Conn\<close> has the
  step relation of everything that runs on attached connections and the locale \<open>conn_inv\<close> of
  connection properties that the two ways of touching a connection keep; it is interpreted
  four times, on what the properties of \<open>Tls_Theorems\<close> need. \<open>Tls_Recv\<close> compares the two
  receive paths step by step, \<open>Tls_Sock\<close> has creation, attach, release and the frees that wait
  for a grace period.

  \<^bold>\<open>Conventions.\<close> A bad pointer is a value: every handler returns \<open>fault + result\<close>, so that a
  null, freed or out-of-range access is a branch of the model. What the kernel answers
  (allocation, copying to and from user memory, TCP's own transmit functions) is an argument
  or a record of functions, constrained only by hypotheses named in the statements. Lengths
  and sequence numbers that can wrap are 32-bit words; reference counts and byte counters
  that only grow within one call are \<open>int\<close>.

  \<^bold>\<open>Fuel.\<close> Three loops of the code are bounded by nothing in the code itself: the retries of
  \<open>pick_second\<close> and \<open>pick_other\<close> while the random bytes repeat, the send loop while other
  threads keep queueing, and the copy loop while the kernel keeps making it wait. Each takes
  fuel and returns \<open>None\<close> when it is used up; the termination and liveness theorems give a
  bound beyond which all fuel suffices (\<open>6 n + 6\<close> steps of the copy loop for \<open>n\<close> bytes, one
  round per batch for the send loop, the first differing random byte for the retries). The
  copy loop of the TLS variant needs two iterations per byte, one of which may only add a buffer.
  All other loops are recursive functions with a termination proof.

  \<^bold>\<open>Not modelled.\<close> The kernel patches change sources that are not in the repository. The
  benchmark servers, the Go servers and the experiment scripts are I/O around epoll, sockets,
  threads and remote shells; Silo, masstree, lz4, the load generator, the simulator and the
  flame graph scripts are vendored third-party programs. Logging, statistics printed through
  \<open>/proc\<close> and, in the plain and gRPC variants, memory reclaim through RCU (frees happen at once)
  are left out of the handlers. Of the TLS variant, module load and socket options are those of
  the plain one and not repeated, and \<open>tcp_send.c\<close> is compiled there but called by nothing.
\<close>

end
